(* ===== verification/Prelude.thy ===== *)
theory Prelude
  imports Main "HOL-Library.Word" "HOL-Library.Product_Lexorder" "HOL-Library.Option_ord"
begin

text \<open>
  Shared vocabulary of the development: the machine integers of the Rust sources, byte
  strings and their big-endian fields, slices, the \<open>Result\<close> and \<open>Option\<close> combinators,
  checked and saturating arithmetic, and the selection iterators \<open>min_by_key\<close> and
  \<open>max_by_key\<close> with their tie-breaking. Every component theory imports this one.

  A Rust \<open>Result<T, E>\<close> is the sum \<open>'e + 'a\<close> with \<open>Inl\<close> for \<open>Err\<close>. A \<open>usize\<close> is a
  \<open>nat\<close>: it only ever counts bytes or packets held in memory. Fixed-width integers are words.
\<close>

unbundle bit_operations_syntax

type_synonym u8 = "8 word"
type_synonym u16 = "16 word"
type_synonym u32 = "32 word"
type_synonym u64 = "64 word"
type_synonym u128 = "128 word"
type_synonym bytes = "u8 list"
type_synonym ipv4 = "32 word"

named_theorems codec_simps \<open>facts that evaluate encoders and decoders on explicit byte lists\<close>
named_theorems codec_defs \<open>definitions of the fixed-width byte fields\<close>

section \<open>Slices and chunks\<close>

definition slice :: "nat \<Rightarrow> nat \<Rightarrow> 'a list \<Rightarrow> 'a list" where
  "slice a b xs = take (b - a) (drop a xs)"

definition get_range :: "nat \<Rightarrow> nat \<Rightarrow> 'a list \<Rightarrow> 'a list option" where
  "get_range a b xs = (if a \<le> b \<and> b \<le> length xs then Some (slice a b xs) else None)"

definition get_at :: "nat \<Rightarrow> 'a list \<Rightarrow> 'a option" where
  "get_at i xs = (if i < length xs then Some (xs ! i) else None)"

text \<open>\<open>copy_into\<close> is \<open>dst[i..i+src.len()].copy_from_slice(src)\<close>.\<close>

definition copy_into :: "nat \<Rightarrow> 'a list \<Rightarrow> 'a list \<Rightarrow> 'a list" where
  "copy_into i src dst = take i dst @ src @ drop (i + length src) dst"

fun as_chunks :: "nat \<Rightarrow> 'a list \<Rightarrow> 'a list list" where
  "as_chunks n xs = (if n = 0 \<or> length xs < n then [] else take n xs # as_chunks n (drop n xs))"

fun chunks :: "nat \<Rightarrow> 'a list \<Rightarrow> 'a list list" where
  "chunks n xs = (if n = 0 \<or> xs = [] then [] else take n xs # chunks n (drop n xs))"

declare as_chunks.simps [simp del] chunks.simps [simp del]

lemma length_slice [simp]: "length (slice a b xs) = min (b - a) (length xs - a)"
  by (simp add: slice_def min.commute)

lemma nth_slice [simp]: "a + i < b \<Longrightarrow> b \<le> length xs \<Longrightarrow> slice a b xs ! i = xs ! (a + i)"
  by (simp add: slice_def)

lemma slice_append_left: "b \<le> length xs \<Longrightarrow> slice a b (xs @ ys) = slice a b xs"
  by (simp add: slice_def)

lemma slice_append_right:
  "length xs \<le> a \<Longrightarrow> slice a b (xs @ ys) = slice (a - length xs) (b - length xs) ys"
  by (simp add: slice_def)

lemma slice_all: "length xs \<le> b \<Longrightarrow> slice 0 b xs = xs"
  by (simp add: slice_def)

lemma slice_join:
  assumes "a \<le> b" "b \<le> c"
  shows "slice a b xs @ slice b c xs = slice a c xs"
proof -
  have "drop b xs = drop (b - a) (drop a xs)" using assms by simp
  moreover have "c - a = (b - a) + (c - b)" using assms by simp
  ultimately show ?thesis by (simp only: slice_def take_add)
qed

lemma take_conv_slice: "take n xs = slice 0 n xs"
  by (simp add: slice_def)

text \<open>Reading a buffer through a cursor: what remains behind it after one element or one run.\<close>

lemma drop_ConsD:
  assumes "drop i xs = y # ys"
  shows "i < length xs" "xs ! i = y" "drop (i + 1) xs = ys"
proof -
  show "i < length xs" using assms by (metis drop_eq_Nil2 leI list.distinct(1))
  then have "drop i xs = xs ! i # drop (i + 1) xs" by (simp add: Cons_nth_drop_Suc)
  with assms show "xs ! i = y" "drop (i + 1) xs = ys" by simp_all
qed

lemma drop_appendD:
  assumes "drop i xs = ys @ zs"
  shows "drop (i + length ys) xs = zs" "slice i (i + length ys) xs = ys"
    "ys \<noteq> [] \<Longrightarrow> i + length ys \<le> length xs"
proof -
  have "drop (length ys) (drop i xs) = zs" using assms by simp
  then show "drop (i + length ys) xs = zs" by (simp add: add.commute)
  show "slice i (i + length ys) xs = ys" by (simp add: slice_def assms)
  have "length xs - i = length ys + length zs" using arg_cong [OF assms, of length] by simp
  then show "ys \<noteq> [] \<Longrightarrow> i + length ys \<le> length xs" by (cases ys) auto
qed

lemma length_copy_into [simp]:
  "i + length src \<le> length dst \<Longrightarrow> length (copy_into i src dst) = length dst"
  by (simp add: copy_into_def)

lemma copy_into_append_left:
  "i + length src \<le> length xs \<Longrightarrow> copy_into i src (xs @ ys) = copy_into i src xs @ ys"
  by (simp add: copy_into_def)

lemma copy_into_append_right:
  "i = length xs \<Longrightarrow> length src = length ys \<Longrightarrow> copy_into i src (xs @ ys) = xs @ src"
  by (simp add: copy_into_def)

lemma as_chunks_Nil [simp]: "0 < n \<Longrightarrow> as_chunks n [] = []"
  by (simp add: as_chunks.simps)

lemma as_chunks_append:
  assumes "length xs = n" "0 < n"
  shows "as_chunks n (xs @ ys) = xs # as_chunks n ys"
  using assms by (subst as_chunks.simps) simp

lemma as_chunks_concat:
  assumes "0 < n" "\<And>x. x \<in> set xss \<Longrightarrow> length x = n"
  shows "as_chunks n (concat xss) = xss"
  using assms(2) by (induction xss) (simp_all add: assms(1) as_chunks_append)

lemma chunks_Nil [simp]: "chunks n [] = []"
  by (simp add: chunks.simps)

lemma concat_chunks: "0 < n \<Longrightarrow> concat (chunks n xs) = xs"
proof (induction n xs rule: chunks.induct)
  case (1 n xs)
  then show ?case
    by (subst chunks.simps) simp
qed

lemma chunks_bound:
  assumes "c \<in> set (chunks n xs)"
  shows "c \<noteq> [] \<and> length c \<le> n"
  using assms
proof (induction n xs rule: chunks.induct)
  case (1 n xs)
  then show ?case
    by (subst (asm) chunks.simps) (auto split: if_splits)
qed

lemma concat_map_length:
  "(\<And>x. x \<in> set xs \<Longrightarrow> length (f x) = n) \<Longrightarrow> length (concat (map f xs)) = n * length xs"
  by (induction xs) auto

lemma mod_eq_sub_nat: "n \<le> k \<Longrightarrow> (k - n) mod m = 0 \<Longrightarrow> \<exists>q. k = n + m * (q::nat)"
  by (metis dvd_def le_add_diff_inverse mod_eq_0_iff_dvd)

section \<open>Separated text\<close>

text \<open>\<open>str::split\<close> on one separator, and \<open>join\<close>.\<close>

fun split_on :: "'a \<Rightarrow> 'a list \<Rightarrow> 'a list list" where
  "split_on c [] = [[]]"
| "split_on c (x # xs) =
     (if x = c then [] # split_on c xs
      else (case split_on c xs of [] \<Rightarrow> [[x]] | p # ps \<Rightarrow> (x # p) # ps))"

fun join :: "'a \<Rightarrow> 'a list list \<Rightarrow> 'a list" where
  "join c [] = []"
| "join c [p] = p"
| "join c (p # q # ps) = p @ c # join c (q # ps)"

lemma split_on_not_Nil [simp]: "split_on c xs \<noteq> []"
  by (cases xs) (auto split: list.splits)

lemma split_on_no_sep: "p \<in> set (split_on c xs) \<Longrightarrow> c \<notin> set p"
  by (induction xs arbitrary: p) (fastforce split: list.splits if_splits)+

lemma split_on_append: "split_on c (xs @ c # ys) = split_on c xs @ split_on c ys"
  by (induction xs) (auto split: list.splits)

lemma split_on_append_sep: "c \<notin> set p \<Longrightarrow> split_on c (p @ c # xs) = p # split_on c xs"
  by (induction p) auto

lemma split_on_single: "c \<notin> set p \<Longrightarrow> split_on c p = [p]"
  by (induction p) auto

lemma split_on_join: "ps \<noteq> [] \<Longrightarrow> \<forall>p\<in>set ps. c \<notin> set p \<Longrightarrow> split_on c (join c ps) = ps"
  by (induction c ps rule: join.induct) (simp_all add: split_on_single split_on_append_sep)

lemma join_Cons: "ps \<noteq> [] \<Longrightarrow> join c (p # ps) = p @ c # join c ps"
  by (cases ps) simp_all

lemma join_split_on [simp]: "join c (split_on c xs) = xs"
proof (induction xs)
  case (Cons x xs)
  obtain p ps where ps: "split_on c xs = p # ps" by (meson list.exhaust split_on_not_Nil)
  show ?case
  proof (cases "x = c")
    case True
    then show ?thesis using Cons by (simp add: join_Cons)
  next
    case False
    then show ?thesis using Cons ps by (cases ps) simp_all
  qed
qed simp

lemma split_on_map: "(\<And>x. f x = c \<longleftrightarrow> x = c) \<Longrightarrow> split_on c (map f xs) = map (map f) (split_on c xs)"
  by (induction xs) (auto split: list.splits)

section \<open>Result combinators\<close>

definition ok_or :: "'e \<Rightarrow> 'a option \<Rightarrow> 'e + 'a" where
  "ok_or e r = (case r of None \<Rightarrow> Inl e | Some v \<Rightarrow> Inr v)"

definition and_then :: "'e + 'a \<Rightarrow> ('a \<Rightarrow> 'e + 'b) \<Rightarrow> 'e + 'b" where
  "and_then r k = (case r of Inl e \<Rightarrow> Inl e | Inr v \<Rightarrow> k v)"

fun collect_results :: "('e + 'a) list \<Rightarrow> 'e + 'a list" where
  "collect_results [] = Inr []"
| "collect_results (Inl e # rs) = Inl e"
| "collect_results (Inr v # rs) = and_then (collect_results rs) (\<lambda>vs. Inr (v # vs))"

lemma and_then_simps [simp]:
  "and_then (Inl e) k = Inl e" "and_then (Inr v) k = k v"
  by (simp_all add: and_then_def)

lemma and_then_Inr_iff: "and_then r k = Inr y \<longleftrightarrow> (\<exists>v. r = Inr v \<and> k v = Inr y)"
  by (cases r) simp_all

lemma ok_or_simps [simp]: "ok_or e None = Inl e" "ok_or e (Some v) = Inr v"
  by (simp_all add: ok_or_def)

lemma collect_results_Inr [simp]: "collect_results (map (\<lambda>x. Inr (f x)) xs) = Inr (map f xs)"
  by (induction xs) simp_all

lemma collect_results_map_Inr [simp]: "collect_results (map Inr xs) = Inr xs"
  using collect_results_Inr [of id xs] by simp

section \<open>Big-endian byte fields\<close>

definition u16_be :: "u16 \<Rightarrow> bytes" where
  [codec_defs]: "u16_be w = [ucast (drop_bit 8 w), ucast w]"

definition u32_be :: "u32 \<Rightarrow> bytes" where
  [codec_defs]: "u32_be w = u16_be (ucast (drop_bit 16 w)) @ u16_be (ucast w)"

definition u64_be :: "u64 \<Rightarrow> bytes" where
  [codec_defs]: "u64_be w = u32_be (ucast (drop_bit 32 w)) @ u32_be (ucast w)"

definition u16_of_be :: "u8 \<Rightarrow> u8 \<Rightarrow> u16" where
  "u16_of_be a b = push_bit 8 (ucast a) OR ucast b"

definition u32_join :: "u16 \<Rightarrow> u16 \<Rightarrow> u32" where
  "u32_join x y = push_bit 16 (ucast x) OR ucast y"

definition u32_of_be :: "u8 \<Rightarrow> u8 \<Rightarrow> u8 \<Rightarrow> u8 \<Rightarrow> u32" where
  "u32_of_be a b c d = u32_join (u16_of_be a b) (u16_of_be c d)"

definition u64_join :: "u32 \<Rightarrow> u32 \<Rightarrow> u64" where
  "u64_join x y = push_bit 32 (ucast x) OR ucast y"

definition u64_of_be :: "u8 \<Rightarrow> u8 \<Rightarrow> u8 \<Rightarrow> u8 \<Rightarrow> u8 \<Rightarrow> u8 \<Rightarrow> u8 \<Rightarrow> u8 \<Rightarrow> u64" where
  "u64_of_be a b c d e f g h = u64_join (u32_of_be a b c d) (u32_of_be e f g h)"

definition u16_at :: "bytes \<Rightarrow> nat \<Rightarrow> u16" where
  "u16_at b i = u16_of_be (b ! i) (b ! (i + 1))"

definition u32_at :: "bytes \<Rightarrow> nat \<Rightarrow> u32" where
  "u32_at b i = u32_of_be (b ! i) (b ! (i + 1)) (b ! (i + 2)) (b ! (i + 3))"

definition u64_at :: "bytes \<Rightarrow> nat \<Rightarrow> u64" where
  "u64_at b i =
     u64_of_be (b ! i) (b ! (i + 1)) (b ! (i + 2)) (b ! (i + 3))
       (b ! (i + 4)) (b ! (i + 5)) (b ! (i + 6)) (b ! (i + 7))"

lemma length_be [simp]:
  "length (u16_be x) = 2" "length (u32_be y) = 4" "length (u64_be z) = 8"
  by (simp_all add: codec_defs)

lemma bit_join_halves:
  fixes x y :: "'a::len word"
  assumes "LENGTH('b) = 2 * LENGTH('a)"
  shows "bit (push_bit LENGTH('a) (ucast x) OR ucast y :: 'b::len word) n =
    (if n < LENGTH('a) then bit y n else bit x (n - LENGTH('a)))"
  using assms bit_imp_le_length [of y n] bit_imp_le_length [of x "n - LENGTH('a)"]
  by (auto simp: bit_simps)

lemma bit_u16_of_be: "bit (u16_of_be a b) n = (if n < 8 then bit b n else bit a (n - 8))"
  using bit_join_halves [where 'a = 8 and 'b = 16, of a b n] by (simp add: u16_of_be_def)

lemma bit_u32_join: "bit (u32_join x y) n = (if n < 16 then bit y n else bit x (n - 16))"
  using bit_join_halves [where 'a = 16 and 'b = 32, of x y n] by (simp add: u32_join_def)

lemma bit_u64_join: "bit (u64_join x y) n = (if n < 32 then bit y n else bit x (n - 32))"
  using bit_join_halves [where 'a = 32 and 'b = 64, of x y n] by (simp add: u64_join_def)

lemma u16_of_be_be [simp]: "u16_of_be (ucast (drop_bit 8 w)) (ucast w) = w"
  by (rule bit_word_eqI) (auto simp: bit_u16_of_be bit_simps)

lemma u32_halves_join [simp]: "u32_join (ucast (drop_bit 16 w)) (ucast w) = w"
  by (rule bit_word_eqI) (auto simp: bit_u32_join bit_simps)

lemma u64_halves_join [simp]: "u64_join (ucast (drop_bit 32 w)) (ucast w) = w"
  by (rule bit_word_eqI) (auto simp: bit_u64_join bit_simps)

lemma u16_parts:
  "ucast (drop_bit 8 (u16_of_be a b)) = a" "ucast (u16_of_be a b) = b"
  by (rule bit_word_eqI; auto simp: bit_u16_of_be bit_simps)+

lemma u32_halves_parts:
  "ucast (drop_bit 16 (u32_join x y)) = x" "ucast (u32_join x y) = y"
  by (rule bit_word_eqI; auto simp: bit_u32_join bit_simps)+

lemma u64_halves_parts:
  "ucast (drop_bit 32 (u64_join x y)) = x" "ucast (u64_join x y) = y"
  by (rule bit_word_eqI; auto simp: bit_u64_join bit_simps)+

lemma u16_be_of_be [simp]: "u16_be (u16_of_be a b) = [a, b]"
  by (simp add: u16_be_def u16_parts)

lemma u32_be_of_be [simp]: "u32_be (u32_of_be a b c d) = [a, b, c, d]"
  by (simp add: u32_be_def u32_of_be_def u32_halves_parts)

lemma u64_be_of_be [simp]: "u64_be (u64_of_be a b c d e f g h) = [a, b, c, d, e, f, g, h]"
  by (simp add: u64_be_def u64_of_be_def u64_halves_parts)

lemma u16_at_be [simp]:
  "u16_at (u16_be w) 0 = w" "u16_at (u16_be w @ r) 0 = w"
  by (simp_all add: u16_at_def u16_be_def)

lemma u32_at_be [simp]:
  "u32_at (u32_be w) 0 = w" "u32_at (u32_be w @ r) 0 = w"
  by (simp_all add: u32_at_def u32_be_def u32_of_be_def u16_be_def)

lemma u64_at_be [simp]:
  "u64_at (u64_be w) 0 = w" "u64_at (u64_be w @ r) 0 = w"
  by (simp_all add: u64_at_def u64_be_def u64_of_be_def u32_of_be_def u32_be_def u16_be_def)

section \<open>Evaluation of encoders and decoders on concatenated fields\<close>

text \<open>
  Encoders fill a zeroed buffer field by field; decoders read fixed offsets. The collection
  \<open>codec_simps\<close> turns the former into a concatenation of fields and resolves the latter
  on such a concatenation by comparing offsets with the lengths of the fields.
\<close>

lemma copy_into_replicate [codec_simps]:
  "i + length src \<le> n \<Longrightarrow>
     copy_into i src (replicate n z) = replicate i z @ src @ replicate (n - (i + length src)) z"
  by (simp add: copy_into_def)

lemma copy_into_left [codec_simps]:
  "i + length src \<le> length xs \<Longrightarrow> copy_into i src (xs @ ys) = copy_into i src xs @ ys"
  by (rule copy_into_append_left)

lemma copy_into_right [codec_simps]:
  "length xs \<le> i \<Longrightarrow> copy_into i src (xs @ ys) = xs @ copy_into (i - length xs) src ys"
  by (simp add: copy_into_def)

lemma copy_into_0 [codec_simps]: "copy_into 0 src dst = src @ drop (length src) dst"
  by (simp add: copy_into_def)

lemma copy_into_Cons [codec_simps]: "0 < i \<Longrightarrow> copy_into i src (x # dst) = x # copy_into (i - 1) src dst"
  by (cases i) (simp_all add: copy_into_def)

lemma replicate_numeral: "replicate (numeral k) x = x # replicate (pred_numeral k) x"
  by (simp add: numeral_eq_Suc)

lemma copy_into_Nil [codec_simps]: "copy_into i [] dst = dst"
  by (simp add: copy_into_def)

lemma list_update_copy_into [codec_simps]: "i < length xs \<Longrightarrow> xs[i := v] = copy_into i [v] xs"
  by (simp add: copy_into_def upd_conv_take_nth_drop)

lemma u16_at_left [codec_simps]: "i + 2 \<le> length xs \<Longrightarrow> u16_at (xs @ ys) i = u16_at xs i"
  by (simp add: u16_at_def nth_append)

lemma u16_at_right [codec_simps]:
  "length xs \<le> i \<Longrightarrow> u16_at (xs @ ys) i = u16_at ys (i - length xs)"
  by (simp add: u16_at_def nth_append Suc_diff_le)

lemma u16_at_Cons [codec_simps]: "0 < i \<Longrightarrow> u16_at (x # ys) i = u16_at ys (i - 1)"
  by (simp add: u16_at_def)

lemma u32_at_left [codec_simps]: "i + 4 \<le> length xs \<Longrightarrow> u32_at (xs @ ys) i = u32_at xs i"
  by (simp add: u32_at_def nth_append)

lemma u32_at_right [codec_simps]:
  "length xs \<le> i \<Longrightarrow> u32_at (xs @ ys) i = u32_at ys (i - length xs)"
  by (simp add: u32_at_def nth_append Suc_diff_le)

lemma u32_at_Cons [codec_simps]: "0 < i \<Longrightarrow> u32_at (x # ys) i = u32_at ys (i - 1)"
  by (simp add: u32_at_def nth_Cons')

lemma u64_at_left [codec_simps]: "i + 8 \<le> length xs \<Longrightarrow> u64_at (xs @ ys) i = u64_at xs i"
  by (simp add: u64_at_def nth_append)

lemma u64_at_right [codec_simps]:
  "length xs \<le> i \<Longrightarrow> u64_at (xs @ ys) i = u64_at ys (i - length xs)"
  by (simp add: u64_at_def nth_append Suc_diff_le)

lemma u64_at_Cons [codec_simps]: "0 < i \<Longrightarrow> u64_at (x # ys) i = u64_at ys (i - 1)"
  by (simp add: u64_at_def nth_Cons')

lemma slice_left [codec_simps]: "b \<le> length xs \<Longrightarrow> slice a b (xs @ ys) = slice a b xs"
  by (rule slice_append_left)

lemma slice_right [codec_simps]:
  "length xs \<le> a \<Longrightarrow> slice a b (xs @ ys) = slice (a - length xs) (b - length xs) ys"
  by (rule slice_append_right)

lemma slice_over [codec_simps]:
  "a < length xs \<Longrightarrow> length xs < b \<Longrightarrow> slice a b (xs @ ys) = slice a (length xs) xs @ slice 0 (b - length xs) ys"
  by (auto simp: slice_def)

lemma slice_Cons [codec_simps]:
  "0 < a \<Longrightarrow> slice a b (x # ys) = slice (a - 1) (b - 1) ys"
  "0 < b \<Longrightarrow> slice 0 b (x # ys) = x # slice 0 (b - 1) ys"
  by (cases a; simp add: slice_def) (cases b; simp add: slice_def)

lemma slice_whole [codec_simps]: "length xs = b \<Longrightarrow> slice 0 b xs = xs"
  by (simp add: slice_def)

lemma slice_empty [codec_simps]: "b \<le> a \<Longrightarrow> slice a b xs = []" "slice a b [] = []"
  by (simp_all add: slice_def)

lemma slice_replicate [codec_simps]: "slice a b (replicate n z) = replicate (min (b - a) (n - a)) z"
  by (simp add: slice_def min.commute)

lemma nth_right [codec_simps]: "length xs \<le> i \<Longrightarrow> (xs @ ys) ! i = ys ! (i - length xs)"
  by (simp add: nth_append)

lemma nth_left [codec_simps]: "i < length xs \<Longrightarrow> (xs @ ys) ! i = xs ! i"
  by (simp add: nth_append)

lemma get_range_slice: "a \<le> b \<Longrightarrow> b \<le> length xs \<Longrightarrow> get_range a b xs = Some (slice a b xs)"
  by (simp add: get_range_def)

lemma slice_conv_nth: "b \<le> length xs \<Longrightarrow> slice a b xs = map ((!) xs) [a..<b]"
  by (auto simp: list_eq_iff_nth_eq)

lemma u16_be_at: "i + 2 \<le> length bs \<Longrightarrow> u16_be (u16_at bs i) = slice i (i + 2) bs"
  by (simp add: slice_conv_nth u16_at_def upt_rec)

lemma u32_be_at: "i + 4 \<le> length bs \<Longrightarrow> u32_be (u32_at bs i) = slice i (i + 4) bs"
  by (simp add: slice_conv_nth u32_at_def upt_rec numeral_eq_Suc)

section \<open>Checked and saturating arithmetic\<close>

definition checked_add :: "'a::len word \<Rightarrow> 'a word \<Rightarrow> 'a word option" where
  "checked_add a b = (if unat a + unat b < 2 ^ LENGTH('a) then Some (a + b) else None)"

definition checked_mul :: "'a::len word \<Rightarrow> 'a word \<Rightarrow> 'a word option" where
  "checked_mul a b = (if unat a * unat b < 2 ^ LENGTH('a) then Some (a * b) else None)"

definition saturating_add :: "'a::len word \<Rightarrow> 'a word \<Rightarrow> 'a word" where
  "saturating_add a b = (if unat a + unat b < 2 ^ LENGTH('a) then a + b else - 1)"

definition saturating_sub :: "'a::len word \<Rightarrow> 'a word \<Rightarrow> 'a word" where
  "saturating_sub a b = (if b \<le> a then a - b else 0)"

definition saturating_mul :: "'a::len word \<Rightarrow> 'a word \<Rightarrow> 'a word" where
  "saturating_mul a b = (if unat a * unat b < 2 ^ LENGTH('a) then a * b else - 1)"

definition div_ceil :: "nat \<Rightarrow> nat \<Rightarrow> nat" where
  "div_ceil a b = (if a mod b = 0 then a div b else a div b + 1)"

lemma unat_bound: "unat a < 2 ^ LENGTH('a)" for a :: "'a::len word"
  by (rule unsigned_less)

lemma unat_le_max: "unat a \<le> 2 ^ LENGTH('a) - Suc 0" for a :: "'a::len word"
  using unat_bound [of a] by linarith

lemma unat_minus_one: "unat (- 1 :: 'a::len word) = 2 ^ LENGTH('a) - 1"
  by (simp add: unsigned_minus_1_eq_mask mask_eq_exp_minus_1)

lemma checked_add_Some:
  "checked_add a b = Some c \<longleftrightarrow> unat c = unat a + unat b"
  for a b c :: "'a::len word"
proof -
  have "unat c = unat a + unat b \<longleftrightarrow> unat a + unat b < 2 ^ LENGTH('a) \<and> c = a + b"
  proof
    assume eq: "unat c = unat a + unat b"
    then have small: "unat a + unat b < 2 ^ LENGTH('a)"
      using unat_bound [of c] by simp
    then have "unat (a + b) = unat c"
      using eq by (simp add: unat_word_ariths)
    then show "unat a + unat b < 2 ^ LENGTH('a) \<and> c = a + b"
      using small by (metis word_unat_eq_iff)
  next
    assume "unat a + unat b < 2 ^ LENGTH('a) \<and> c = a + b"
    then show "unat c = unat a + unat b" by (simp add: unat_word_ariths)
  qed
  then show ?thesis by (auto simp: checked_add_def)
qed

lemma unat_checked_add: "checked_add a b = Some c \<Longrightarrow> unat c = unat a + unat b"
  by (simp add: checked_add_Some)

lemma unat_checked_mul: "checked_mul a b = Some c \<Longrightarrow> unat c = unat a * unat b"
  by (auto simp: checked_mul_def unat_word_ariths split: if_splits)

lemma unat_saturating_add:
  "unat (saturating_add a b) = min (unat a + unat b) (2 ^ LENGTH('a) - 1)"
  for a b :: "'a::len word"
  by (auto simp: saturating_add_def unat_word_ariths unat_minus_one)

lemma saturating_add_ge: "a \<le> saturating_add a b"
  using unat_le_max [of a] by (simp add: word_le_nat_alt unat_saturating_add)

lemma saturating_add_mono: "a \<le> c \<Longrightarrow> saturating_add a b \<le> saturating_add c b"
  by (simp add: word_le_nat_alt unat_saturating_add min_def)

lemma unat_saturating_sub: "unat (saturating_sub a b) = unat a - unat b"
  by (auto simp: saturating_sub_def unat_sub word_le_nat_alt)

lemma div_ceil_bounds:
  assumes "0 < b"
  shows "a \<le> div_ceil a b * b \<and> div_ceil a b * b < a + b"
proof -
  have eq: "a div b * b + a mod b = a" and less: "a mod b < b"
    using assms by simp_all
  show ?thesis
  proof (cases "a mod b = 0")
    case True
    with eq assms show ?thesis by (simp add: div_ceil_def)
  next
    case False
    then have "div_ceil a b * b = a div b * b + b" by (simp add: div_ceil_def)
    with False eq less show ?thesis by linarith
  qed
qed

lemma in_map_filter: "y \<in> set (List.map_filter f xs) \<longleftrightarrow> (\<exists>x\<in>set xs. f x = Some y)"
  by (induction xs) (auto split: option.splits)

section \<open>Selection by key\<close>

text \<open>
  \<open>Iterator::min_by_key\<close> returns the first of several equal minima, \<open>max_by_key\<close> the last
  of several equal maxima.
\<close>

fun min_by_key :: "('a \<Rightarrow> 'k::linorder) \<Rightarrow> 'a list \<Rightarrow> 'a option" where
  "min_by_key f [] = None"
| "min_by_key f (x # xs) =
     (case min_by_key f xs of None \<Rightarrow> Some x | Some y \<Rightarrow> if f x \<le> f y then Some x else Some y)"

fun max_by_key :: "('a \<Rightarrow> 'k::linorder) \<Rightarrow> 'a list \<Rightarrow> 'a option" where
  "max_by_key f [] = None"
| "max_by_key f (x # xs) =
     (case max_by_key f xs of None \<Rightarrow> Some x | Some y \<Rightarrow> if f y < f x then Some x else Some y)"

lemma min_by_key_None [simp]: "min_by_key f xs = None \<longleftrightarrow> xs = []"
  by (cases xs) (auto split: option.splits)

lemma max_by_key_None [simp]: "max_by_key f xs = None \<longleftrightarrow> xs = []"
  by (cases xs) (auto split: option.splits)

lemma min_by_key_Some:
  "min_by_key f xs = Some y \<Longrightarrow> y \<in> set xs \<and> (\<forall>x\<in>set xs. f y \<le> f x)"
  by (induction xs arbitrary: y) (fastforce split: option.splits if_splits)+

lemma max_by_key_Some:
  "max_by_key f xs = Some y \<Longrightarrow> y \<in> set xs \<and> (\<forall>x\<in>set xs. f x \<le> f y)"
  by (induction xs arbitrary: y) (fastforce split: option.splits if_splits)+

lemma min_by_key_first:
  "min_by_key f xs = Some y \<Longrightarrow>
     \<exists>us vs. xs = us @ y # vs \<and> (\<forall>x\<in>set us. f y < f x) \<and> (\<forall>x\<in>set vs. f y \<le> f x)"
proof (induction xs arbitrary: y)
  case Nil
  then show ?case by simp
next
  case (Cons x xs)
  show ?case
  proof (cases "min_by_key f xs")
    case None
    with Cons.prems show ?thesis by (intro exI [of _ "[]"]) auto
  next
    case (Some z)
    show ?thesis
    proof (cases "f x \<le> f z")
      case True
      with Cons.prems Some have "y = x" by simp
      moreover have "\<forall>v\<in>set xs. f x \<le> f v"
        using min_by_key_Some [OF Some] True by fastforce
      ultimately show ?thesis by (intro exI [of _ "[]"] exI [of _ xs]) auto
    next
      case False
      with Cons.prems Some have y: "y = z" by simp
      from Cons.IH [OF Some] obtain us vs where
        "xs = us @ z # vs" "\<forall>u\<in>set us. f z < f u" "\<forall>v\<in>set vs. f z \<le> f v" by blast
      with False y show ?thesis
        by (intro exI [of _ "x # us"] exI [of _ vs]) auto
    qed
  qed
qed

text \<open>When no two elements share a key, neither selection depends on the order of the elements.\<close>

lemma max_by_key_same_set:
  assumes "set xs = set ys" "inj_on f (set xs)"
  shows "max_by_key f xs = max_by_key f ys"
proof (cases "max_by_key f xs")
  case None
  then show ?thesis using assms(1) by simp
next
  case (Some x)
  with assms(1) obtain y where y: "max_by_key f ys = Some y"
    by (metis max_by_key_None not_None_eq set_empty)
  from max_by_key_Some [OF Some] max_by_key_Some [OF y] assms(1)
  have "x \<in> set xs" "y \<in> set xs" "f x = f y" by (auto intro: antisym)
  with assms(2) have "x = y" by (auto dest: inj_onD)
  then show ?thesis by (simp add: Some y)
qed

lemma min_by_key_same_set:
  assumes "set xs = set ys" "inj_on f (set xs)"
  shows "min_by_key f xs = min_by_key f ys"
proof (cases "min_by_key f xs")
  case None
  then show ?thesis using assms(1) by simp
next
  case (Some x)
  with assms(1) obtain y where y: "min_by_key f ys = Some y"
    by (metis min_by_key_None not_None_eq set_empty)
  from min_by_key_Some [OF Some] min_by_key_Some [OF y] assms(1)
  have "x \<in> set xs" "y \<in> set xs" "f x = f y" by (auto intro: antisym)
  with assms(2) have "x = y" by (auto dest: inj_onD)
  then show ?thesis by (simp add: Some y)
qed

text \<open>\<open>std::cmp::Reverse\<close>: the opposite order on a wrapped key.\<close>

datatype 'a reverse = Reverse 'a

instantiation reverse :: (linorder) linorder
begin

fun less_eq_reverse :: "'a reverse \<Rightarrow> 'a reverse \<Rightarrow> bool" where
  "less_eq_reverse (Reverse a) (Reverse b) = (b \<le> a)"

fun less_reverse :: "'a reverse \<Rightarrow> 'a reverse \<Rightarrow> bool" where
  "less_reverse (Reverse a) (Reverse b) = (b < a)"

instance
proof
  fix x y z :: "'a reverse"
  show "(x < y) = (x \<le> y \<and> \<not> y \<le> x)" by (cases x; cases y) auto
  show "x \<le> x" by (cases x) simp
  show "x \<le> y \<Longrightarrow> y \<le> z \<Longrightarrow> x \<le> z" by (cases x; cases y; cases z) simp
  show "x \<le> y \<Longrightarrow> y \<le> x \<Longrightarrow> x = y" by (cases x; cases y) simp
  show "x \<le> y \<or> y \<le> x" by (cases x; cases y) auto
qed

end

end
