(* ===== verification/Machine.thy ===== *)
theory Machine
  imports Main
begin

text \<open>
  State machines of the development: a predicate on initial states, a step relation and an
  invariant. The components interpret \<open>invariant_system\<close> on their own operations and reach
  every state a run can produce through it.
\<close>

locale invariant_system =
  fixes init :: "'s \<Rightarrow> bool" and step :: "'s \<Rightarrow> 's \<Rightarrow> bool" and inv :: "'s \<Rightarrow> bool"
  assumes init_inv: "init s \<Longrightarrow> inv s"
    and step_inv: "inv s \<Longrightarrow> step s t \<Longrightarrow> inv t"
begin

lemma run_inv: "inv s \<Longrightarrow> rtranclp step s t \<Longrightarrow> inv t"
  by (rotate_tac 1, induction rule: rtranclp_induct) (auto intro: step_inv)

lemma reachable_inv: "init s \<Longrightarrow> rtranclp step s t \<Longrightarrow> inv t"
  using init_inv run_inv by blast

lemma run_mono:
  fixes m :: "'s \<Rightarrow> 'm::preorder"
  assumes "\<And>s t. inv s \<Longrightarrow> step s t \<Longrightarrow> m s \<le> m t"
  shows "rtranclp step s t \<Longrightarrow> inv s \<Longrightarrow> m s \<le> m t"
proof (induction rule: rtranclp_induct)
  case base
  show ?case by simp
next
  case (step t u)
  then have "m s \<le> m t" by simp
  also have "m t \<le> m u" using step run_inv assms by blast
  finally show ?case .
qed

end

end
