(* ===== verification/Sim_Queue.thy ===== *)
theory Sim_Queue
  imports Prelude Machine "HOL-Library.Multiset"
begin

text \<open>
  The crate \<open>rios-simulator\<close>, part one: identities, the virtual clock and the deterministic
  event queue (\<open>lib.rs\<close>, \<open>queue.rs\<close>).

  The standard library's \<open>BinaryHeap\<close> is a list of its elements; \<open>pop\<close> removes a greatest
  element of the element order. \<open>ScheduledEvent\<close> reverses the order of its key, so the
  greatest element is the one with the least \<open>(time, sequence)\<close>.
\<close>

section \<open>Identities and time\<close>

datatype DeviceId = DeviceId u64
datatype InterfaceId = InterfaceId u64
datatype LinkId = LinkId u64
datatype TimerId = TimerId u64

datatype LinkState = Down | Up

record InterfaceRef =
  ir_device :: DeviceId
  ir_interface :: InterfaceId

type_synonym SimTime = u64

definition SimTime_from_millis :: "u64 \<Rightarrow> SimTime" where
  "SimTime_from_millis ms = saturating_mul ms 1000"

definition SimTime_as_millis :: "SimTime \<Rightarrow> u64" where
  "SimTime_as_millis t = t div 1000"

section \<open>The event queue\<close>

datatype ScheduleError = Past | Overflow | PendingEvent

record 'e ScheduledEvent =
  se_time :: SimTime
  se_event :: 'e
  se_sequence :: u64

record 'e EventQueue =
  eq_now :: SimTime
  eq_next_sequence :: u64
  eq_pending :: "'e ScheduledEvent list"

definition se_key :: "'e ScheduledEvent \<Rightarrow> SimTime \<times> u64" where
  "se_key e = (se_time e, se_sequence e)"

definition heap_peek :: "('a \<Rightarrow> 'k::linorder) \<Rightarrow> 'a list \<Rightarrow> 'a option" where
  "heap_peek key h = min_by_key key h"

definition heap_push :: "'a \<Rightarrow> 'a list \<Rightarrow> 'a list" where
  "heap_push x h = x # h"

definition heap_pop :: "('a \<Rightarrow> 'k::linorder) \<Rightarrow> 'a list \<Rightarrow> ('a \<times> 'a list) option" where
  "heap_pop key h = (case heap_peek key h of None \<Rightarrow> None | Some x \<Rightarrow> Some (x, remove1 x h))"

definition EventQueue_default :: "'e EventQueue" where
  "EventQueue_default = \<lparr>eq_now = 0, eq_next_sequence = 0, eq_pending = []\<rparr>"

definition EventQueue_len :: "'e EventQueue \<Rightarrow> nat" where
  "EventQueue_len q = length (eq_pending q)"

definition EventQueue_is_empty :: "'e EventQueue \<Rightarrow> bool" where
  "EventQueue_is_empty q = (eq_pending q = [])"

definition EventQueue_next_time :: "'e EventQueue \<Rightarrow> SimTime option" where
  "EventQueue_next_time q = map_option se_time (heap_peek se_key (eq_pending q))"

definition EventQueue_schedule_at ::
  "'e EventQueue \<Rightarrow> SimTime \<Rightarrow> 'e \<Rightarrow> ScheduleError + 'e EventQueue" where
  "EventQueue_schedule_at q time event =
     (if time < eq_now q then Inl Past
      else case checked_add (eq_next_sequence q) 1 of
        None \<Rightarrow> Inl Overflow
      | Some next \<Rightarrow> Inr (q\<lparr>eq_pending :=
            heap_push \<lparr>se_time = time, se_event = event, se_sequence = eq_next_sequence q\<rparr> (eq_pending q),
          eq_next_sequence := next\<rparr>))"

definition EventQueue_schedule_after ::
  "'e EventQueue \<Rightarrow> u64 \<Rightarrow> 'e \<Rightarrow> ScheduleError + 'e EventQueue" where
  "EventQueue_schedule_after q delay_ms event =
     (case checked_mul delay_ms 1000 of
        None \<Rightarrow> Inl Overflow
      | Some d \<Rightarrow>
          (case checked_add (eq_now q) d of
             None \<Rightarrow> Inl Overflow
           | Some time \<Rightarrow> EventQueue_schedule_at q time event))"

definition EventQueue_step :: "'e EventQueue \<Rightarrow> ('e ScheduledEvent \<times> 'e EventQueue) option" where
  "EventQueue_step q =
     (case heap_pop se_key (eq_pending q) of
        None \<Rightarrow> None
      | Some (event, rest) \<Rightarrow> Some (event, q\<lparr>eq_pending := rest, eq_now := se_time event\<rparr>))"

definition EventQueue_advance_to :: "'e EventQueue \<Rightarrow> SimTime \<Rightarrow> ScheduleError + 'e EventQueue" where
  "EventQueue_advance_to q time =
     (if time < eq_now q then Inl Past
      else if (case EventQueue_next_time q of None \<Rightarrow> False | Some next \<Rightarrow> next \<le> time) then Inl PendingEvent
      else Inr (q\<lparr>eq_now := time\<rparr>))"

section \<open>The heap as a priority queue\<close>

locale min_heap =
  fixes push :: "'a \<Rightarrow> 'h \<Rightarrow> 'h" and peek :: "'h \<Rightarrow> 'a option"
    and pop :: "'h \<Rightarrow> ('a \<times> 'h) option" and elems :: "'h \<Rightarrow> 'a multiset"
    and key :: "'a \<Rightarrow> 'k::linorder"
  assumes elems_push: "elems (push x h) = add_mset x (elems h)"
    and peek_None: "peek h = None \<longleftrightarrow> elems h = {#}"
    and peek_min: "peek h = Some x \<Longrightarrow> x \<in># elems h \<and> (\<forall>y\<in>#elems h. key x \<le> key y)"
    and pop_peek: "map_option fst (pop h) = peek h"
    and elems_pop: "pop h = Some (x, h') \<Longrightarrow> elems h = add_mset x (elems h')"
begin

lemma pop_Some_peek: "pop h = Some (x, h') \<Longrightarrow> peek h = Some x"
  using pop_peek [of h] by auto

lemma pop_least: "pop h = Some (x, h') \<Longrightarrow> y \<in># elems h' \<Longrightarrow> key x \<le> key y"
  using peek_min [OF pop_Some_peek] elems_pop by fastforce

lemma pop_None: "pop h = None \<longleftrightarrow> elems h = {#}"
  using pop_peek [of h] peek_None [of h] by auto

lemma pop_size: "pop h = Some (x, h') \<Longrightarrow> size (elems h') < size (elems h)"
  by (simp add: elems_pop)

end

interpretation heap: min_heap heap_push "heap_peek key" "heap_pop key" mset key
  for key :: "'a \<Rightarrow> 'k::linorder"
proof unfold_locales
  fix x y :: 'a and h h' :: "'a list"
  show "mset (heap_push x h) = add_mset x (mset h)" by (simp add: heap_push_def)
  show "(heap_peek key h = None) = (mset h = {#})" by (simp add: heap_peek_def)
  show "x \<in># mset h \<and> (\<forall>y\<in>#mset h. key x \<le> key y)" if "heap_peek key h = Some x"
    using min_by_key_Some [of key h x] that by (simp add: heap_peek_def)
  show "map_option fst (heap_pop key h) = heap_peek key h"
    by (simp add: heap_pop_def split: option.splits)
  show "mset h = add_mset x (mset h')" if "heap_pop key h = Some (x, h')"
  proof -
    have "min_by_key key h = Some x" "h' = remove1 x h"
      using that by (auto simp: heap_pop_def heap_peek_def split: option.splits)
    then show ?thesis using min_by_key_Some [of key h x] by simp
  qed
qed

section \<open>Invariant\<close>

text \<open>
  Nothing is pending in the past, every pending event carries a sequence number below the
  next one, and no two pending events carry the same: the key order on pending events is total.
\<close>

definition queue_inv :: "'e EventQueue \<Rightarrow> bool" where
  "queue_inv q =
     ((\<forall>e\<in>set (eq_pending q). eq_now q \<le> se_time e \<and> se_sequence e < eq_next_sequence q) \<and>
      distinct (map se_sequence (eq_pending q)))"

lemma queue_inv_default: "queue_inv EventQueue_default"
  by (simp add: queue_inv_def EventQueue_default_def)

lemma checked_add_one_less: "checked_add n (1::u64) = Some m \<Longrightarrow> n < m"
  by (simp add: checked_add_Some word_less_nat_alt)

lemma schedule_at_Inr:
  "EventQueue_schedule_at q t e = Inr q' \<longleftrightarrow>
     eq_now q \<le> t \<and>
     (\<exists>next. checked_add (eq_next_sequence q) 1 = Some next \<and>
        q' = q\<lparr>eq_pending := \<lparr>se_time = t, se_event = e, se_sequence = eq_next_sequence q\<rparr> # eq_pending q,
               eq_next_sequence := next\<rparr>)"
  by (auto simp: EventQueue_schedule_at_def heap_push_def split: option.splits)

lemma queue_inv_schedule_at:
  assumes "queue_inv q" "EventQueue_schedule_at q t e = Inr q'"
  shows "queue_inv q'"
proof -
  obtain n where n: "checked_add (eq_next_sequence q) 1 = Some n" "eq_now q \<le> t"
    and q': "q' = q\<lparr>eq_pending := \<lparr>se_time = t, se_event = e, se_sequence = eq_next_sequence q\<rparr> # eq_pending q,
               eq_next_sequence := n\<rparr>"
    using assms(2) by (auto simp: schedule_at_Inr)
  have less: "eq_next_sequence q < n" using n(1) by (rule checked_add_one_less)
  then show ?thesis
    using assms(1) n(2) by (force simp: queue_inv_def q')
qed

lemma step_Some:
  assumes "EventQueue_step q = Some (e, q')"
  shows "e \<in> set (eq_pending q)" "\<forall>x\<in>set (eq_pending q). se_key e \<le> se_key x"
    "eq_pending q' = remove1 e (eq_pending q)" "eq_now q' = se_time e"
    "eq_next_sequence q' = eq_next_sequence q"
  using assms min_by_key_Some [of se_key "eq_pending q" e]
  by (auto simp: EventQueue_step_def heap_pop_def heap_peek_def split: option.splits)

lemma key_le_time: "se_key a \<le> se_key b \<Longrightarrow> se_time a \<le> se_time b"
  by (auto simp: se_key_def less_eq_prod_def)

lemma distinct_map_remove1: "distinct (map f xs) \<Longrightarrow> distinct (map f (remove1 x xs))"
  using set_remove1_subset by (induction xs) (simp, fastforce)

lemma remove1_map_neq:
  "distinct (map f xs) \<Longrightarrow> y \<in> set (remove1 x xs) \<Longrightarrow> x \<in> set xs \<Longrightarrow> f x \<noteq> f y"
  by (induction xs) (auto split: if_splits dest: notin_set_remove1 simp: rev_image_eqI)

lemma queue_inv_step:
  assumes "queue_inv q" "EventQueue_step q = Some (e, q')"
  shows "queue_inv q'"
  using assms(1) step_Some [OF assms(2)] key_le_time
  by (auto simp: queue_inv_def distinct_map_remove1 dest: notin_set_remove1 set_remove1_subset [THEN subsetD])

lemma queue_inv_advance_to:
  assumes "queue_inv q" "EventQueue_advance_to q t = Inr q'"
  shows "queue_inv q'"
proof -
  have q': "q' = q\<lparr>eq_now := t\<rparr>"
    and late: "\<forall>n. EventQueue_next_time q = Some n \<longrightarrow> t < n"
    using assms(2) by (auto simp: EventQueue_advance_to_def split: if_splits option.splits)
  have "t \<le> se_time e" if e: "e \<in> set (eq_pending q)" for e
  proof -
    obtain m where m: "min_by_key se_key (eq_pending q) = Some m"
      using e by (cases "min_by_key se_key (eq_pending q)") auto
    then have "t < se_time m" using late by (simp add: EventQueue_next_time_def heap_peek_def)
    moreover have "se_time m \<le> se_time e"
      using min_by_key_Some [OF m] e key_le_time by blast
    ultimately show ?thesis by simp
  qed
  then show ?thesis using assms(1) by (auto simp: queue_inv_def q')
qed

lemma schedule_after_Inr:
  "EventQueue_schedule_after q d e = Inr q' \<Longrightarrow>
     \<exists>t. unat t = unat (eq_now q) + unat d * 1000 \<and> EventQueue_schedule_at q t e = Inr q'"
  by (auto simp: EventQueue_schedule_after_def split: option.splits
      dest!: unat_checked_add unat_checked_mul)

section \<open>Runs\<close>

text \<open>The events a queue delivers when nothing more is scheduled.\<close>

function EventQueue_drain :: "'e EventQueue \<Rightarrow> 'e ScheduledEvent list" where
  "EventQueue_drain q =
     (case EventQueue_step q of None \<Rightarrow> [] | Some (e, q') \<Rightarrow> e # EventQueue_drain q')"
  by pat_completeness auto
termination
proof (relation "measure (\<lambda>q. length (eq_pending q))")
  fix q :: "'e EventQueue" and r :: "'e ScheduledEvent \<times> 'e EventQueue" and e q'
  assume "EventQueue_step q = Some r" "(e, q') = r"
  then have "EventQueue_step q = Some (e, q')" by simp
  from step_Some [OF this] have "length (eq_pending q') < length (eq_pending q)"
    by (metis One_nat_def Suc_pred length_pos_if_in_set length_remove1 lessI)
  then show "(q', q) \<in> measure (\<lambda>q. length (eq_pending q))" by simp
qed simp

declare EventQueue_drain.simps [simp del]

inductive queue_op :: "'e EventQueue \<Rightarrow> 'e EventQueue \<Rightarrow> bool" where
  schedule_at: "EventQueue_schedule_at q t e = Inr q' \<Longrightarrow> queue_op q q'"
| schedule_after: "EventQueue_schedule_after q d e = Inr q' \<Longrightarrow> queue_op q q'"
| step: "EventQueue_step q = Some (e, q') \<Longrightarrow> queue_op q q'"
| advance_to: "EventQueue_advance_to q t = Inr q' \<Longrightarrow> queue_op q q'"

lemma queue_op_inv: "queue_op q q' \<Longrightarrow> queue_inv q \<Longrightarrow> queue_inv q'"
  by (induction rule: queue_op.induct)
    (auto intro: queue_inv_schedule_at queue_inv_step queue_inv_advance_to dest: schedule_after_Inr)

lemma queue_op_now: "queue_op q q' \<Longrightarrow> queue_inv q \<Longrightarrow> eq_now q \<le> eq_now q'"
proof (induction rule: queue_op.induct)
  case (step q e q')
  then show ?case using step_Some [OF step(1)] by (simp add: queue_inv_def)
next
  case (schedule_after q d e q')
  from schedule_after_Inr [OF schedule_after(1)] show ?case by (auto simp: schedule_at_Inr)
qed (auto simp: schedule_at_Inr EventQueue_advance_to_def dest: schedule_after_Inr split: if_splits option.splits)

interpretation event_machine: invariant_system "\<lambda>q. q = EventQueue_default" queue_op queue_inv
  by unfold_locales (auto intro: queue_inv_default queue_op_inv)

lemma drain_props:
  assumes "queue_inv q"
  shows "mset (EventQueue_drain q) = mset (eq_pending q)"
    and "sorted_wrt (\<lambda>a b. se_key a < se_key b) (EventQueue_drain q)"
  using assms
proof (induction q rule: EventQueue_drain.induct)
  case (1 q)
  {
    case 1
    show ?case
    proof (cases "EventQueue_step q")
      case None
      then show ?thesis
        by (subst EventQueue_drain.simps)
          (auto simp: EventQueue_step_def heap.pop_None split: option.splits prod.splits)
    next
      case (Some r)
      obtain e q' where r: "r = (e, q')" by (cases r)
      note st = step_Some [OF Some [unfolded r]]
      have "mset (EventQueue_drain q') = mset (eq_pending q')"
        using "1.IH"(1) [OF Some r [symmetric]] queue_inv_step [OF 1 Some [unfolded r]] by simp
      then show ?thesis
        using st by (subst EventQueue_drain.simps) (simp add: Some r)
    qed
  next
    case 2
    show ?case
    proof (cases "EventQueue_step q")
      case None
      then show ?thesis by (subst EventQueue_drain.simps) simp
    next
      case (Some r)
      obtain e q' where r: "r = (e, q')" by (cases r)
      note st = step_Some [OF Some [unfolded r]]
      have inv': "queue_inv q'" using queue_inv_step [OF 2 Some [unfolded r]] .
      have "sorted_wrt (\<lambda>a b. se_key a < se_key b) (EventQueue_drain q')"
        and ms: "mset (EventQueue_drain q') = mset (eq_pending q')"
        using "1.IH" [OF Some r [symmetric]] inv' by simp_all
      moreover have "se_key e < se_key x" if "x \<in> set (EventQueue_drain q')" for x
      proof -
        have x: "x \<in> set (remove1 e (eq_pending q))"
          using that ms st(3) by (metis set_mset_mset)
        then have "se_key e \<le> se_key x" using st(2) by (metis notin_set_remove1)
        moreover have "se_sequence e \<noteq> se_sequence x"
          using 2 st(1) x remove1_map_neq by (fastforce simp: queue_inv_def)
        ultimately show ?thesis by (auto simp: se_key_def less_eq_prod_def less_prod_def)
      qed
      ultimately show ?thesis
        by (subst EventQueue_drain.simps) (simp add: Some r)
    qed
  }
qed

section \<open>Properties\<close>

text \<open>
  C3. From the empty queue, any sequence of \<open>schedule_at\<close>, \<open>schedule_after\<close>, \<open>step\<close> and
  \<open>advance_to\<close> calls leaves a queue that, when run to the end, delivers every pending event
  exactly once, in strictly increasing order of time and then of insertion, never before the
  current time. The simulation is therefore deterministic: events of the same time keep the order in which
  they were scheduled.
\<close>

theorem event_order_deterministic:
  assumes "queue_op\<^sup>*\<^sup>* EventQueue_default q"
  shows "mset (EventQueue_drain q) = mset (eq_pending q) \<and>
    sorted_wrt (\<lambda>a b. se_time a < se_time b \<or> se_time a = se_time b \<and> se_sequence a < se_sequence b) (EventQueue_drain q) \<and>
    (\<forall>e\<in>set (EventQueue_drain q). eq_now q \<le> se_time e)"
proof -
  have inv: "queue_inv q" using assms event_machine.reachable_inv by blast
  have "se_key a < se_key b \<longleftrightarrow> se_time a < se_time b \<or> se_time a = se_time b \<and> se_sequence a < se_sequence b"
    for a b :: "'a ScheduledEvent" by (auto simp: se_key_def less_prod_def')
  moreover have "set (EventQueue_drain q) = set (eq_pending q)"
    using drain_props(1) [OF inv] by (metis set_mset_mset)
  ultimately show ?thesis using drain_props [OF inv] inv by (simp add: queue_inv_def)
qed

text \<open>Two events at the same time, and one scheduled later for an earlier time.\<close>

definition sample_queue :: "nat EventQueue" where
  "sample_queue = EventQueue_default\<lparr>eq_next_sequence := 3, eq_pending :=
     [\<lparr>se_time = 2, se_event = 12, se_sequence = 2\<rparr>, \<lparr>se_time = 5, se_event = 11, se_sequence = 1\<rparr>,
      \<lparr>se_time = 5, se_event = 10, se_sequence = 0\<rparr>]\<rparr>"

theorem event_order_deterministic_witness:
  "queue_op\<^sup>*\<^sup>* EventQueue_default sample_queue \<and> map se_event (EventQueue_drain sample_queue) = [12, 10, 11] \<and>
   mset (EventQueue_drain sample_queue) = mset (eq_pending sample_queue)"
proof -
  have s: "queue_op q q'" if "EventQueue_schedule_at q t e = Inr q'" for q q' :: "nat EventQueue" and t e
    using that by (rule queue_op.schedule_at)
  let ?e = "\<lambda>t v n. \<lparr>se_time = t, se_event = v, se_sequence = n\<rparr> :: nat ScheduledEvent"
  let ?q1 = "EventQueue_default\<lparr>eq_next_sequence := 1, eq_pending := [?e 5 10 0]\<rparr>"
  let ?q2 = "EventQueue_default\<lparr>eq_next_sequence := 2, eq_pending := [?e 5 11 1, ?e 5 10 0]\<rparr>"
  have "queue_op EventQueue_default ?q1" "queue_op ?q1 ?q2" "queue_op ?q2 sample_queue"
    by (rule s [of _ 5 10] s [of _ 5 11] s [of _ 2 12];
        simp add: EventQueue_schedule_at_def EventQueue_default_def checked_add_def sample_queue_def heap_push_def)+
  then have run: "queue_op\<^sup>*\<^sup>* EventQueue_default sample_queue"
    by (meson converse_rtranclp_into_rtranclp rtranclp.rtrancl_refl)
  moreover have "EventQueue_drain sample_queue = [?e 2 12 2, ?e 5 10 0, ?e 5 11 1]"
    by (simp add: EventQueue_drain.simps EventQueue_step_def heap_pop_def heap_peek_def se_key_def sample_queue_def
        EventQueue_default_def)
  ultimately show ?thesis using event_order_deterministic [OF run] by (simp add: sample_queue_def EventQueue_default_def)
qed

text \<open>C0. Simulated time never runs backwards, whatever operations are interleaved.\<close>

theorem clock_monotone:
  assumes "queue_op\<^sup>*\<^sup>* EventQueue_default q" "queue_op\<^sup>*\<^sup>* q q'"
  shows "eq_now q \<le> eq_now q'"
proof (rule event_machine.run_mono [OF _ assms(2)])
  show "queue_inv q" using assms(1) event_machine.reachable_inv by blast
qed (rule queue_op_now)

theorem clock_monotone_witness:
  "eq_now (EventQueue_default :: nat EventQueue) \<le> eq_now (EventQueue_default\<lparr>eq_now := 7\<rparr> :: nat EventQueue)"
proof -
  have "queue_op (EventQueue_default :: nat EventQueue) (EventQueue_default\<lparr>eq_now := 7\<rparr>)"
    by (rule queue_op.advance_to [of _ 7])
      (simp add: EventQueue_advance_to_def EventQueue_next_time_def heap_peek_def EventQueue_default_def)
  from clock_monotone [OF rtranclp.rtrancl_refl r_into_rtranclp [of queue_op, OF this]] show ?thesis .
qed

end
