(* ===== verification/Sim_Bucket.thy ===== *)
theory Sim_Bucket
  imports Sim_Queue
begin

text \<open>
  The crate \<open>rios-simulator\<close>, part three: rate limits and the integer token bucket
  (\<open>qos/mod.rs\<close>, \<open>qos/bucket.rs\<close>). A \<open>u128\<close> credit is a natural number with the saturation of
  \<open>saturating_add\<close> written out; the products of two \<open>u64\<close> values fit a \<open>u128\<close>.
\<close>

record RateLimit =
  rl_bits_per_second :: u64
  rl_burst_bytes :: u64

definition RateLimit_valid :: "RateLimit \<Rightarrow> bool" where
  "RateLimit_valid r =
     (1 \<le> rl_bits_per_second r \<and> rl_bits_per_second r \<le> 1000000000000 \<and>
      1 \<le> rl_burst_bytes r \<and> rl_burst_bytes r \<le> 1073741824)"

definition BYTE_CREDITS :: nat where
  "BYTE_CREDITS = 8000000"

record TokenBucket =
  tb_rate :: RateLimit
  tb_credit :: nat
  tb_updated :: SimTime

definition tb_cap :: "TokenBucket \<Rightarrow> nat" where
  "tb_cap b = unat (rl_burst_bytes (tb_rate b)) * BYTE_CREDITS"

definition TokenBucket_new :: "RateLimit \<Rightarrow> SimTime \<Rightarrow> TokenBucket" where
  "TokenBucket_new rate now =
     \<lparr>tb_rate = rate, tb_credit = unat (rl_burst_bytes rate) * BYTE_CREDITS, tb_updated = now\<rparr>"

definition refill :: "SimTime \<Rightarrow> TokenBucket \<Rightarrow> TokenBucket" where
  "refill now b =
     (let elapsed = unat (saturating_sub now (tb_updated b))
      in b\<lparr>tb_credit := min (min (tb_credit b + elapsed * unat (rl_bits_per_second (tb_rate b))) (2 ^ 128 - 1))
                          (unat (rl_burst_bytes (tb_rate b)) * BYTE_CREDITS),
           tb_updated := max now (tb_updated b)\<rparr>)"

definition available :: "SimTime \<Rightarrow> nat \<Rightarrow> TokenBucket \<Rightarrow> bool \<times> TokenBucket" where
  "available now n b = (let b' = refill now b in (n * BYTE_CREDITS \<le> tb_credit b', b'))"

definition take_tokens :: "SimTime \<Rightarrow> nat \<Rightarrow> TokenBucket \<Rightarrow> bool \<times> TokenBucket" where
  "take_tokens now n b =
     (case available now n b of
        (False, b') \<Rightarrow> (False, b')
      | (True, b') \<Rightarrow> (True, b'\<lparr>tb_credit := tb_credit b' - n * BYTE_CREDITS\<rparr>))"

definition ready_at :: "SimTime \<Rightarrow> nat \<Rightarrow> TokenBucket \<Rightarrow> (ScheduleError + SimTime) \<times> TokenBucket" where
  "ready_at now n b =
     (let b' = refill now b;
          missing = n * BYTE_CREDITS - tb_credit b';
          wait = div_ceil missing (unat (rl_bits_per_second (tb_rate b')))
      in (if 2 ^ 64 \<le> wait then Inl Overflow
          else ok_or Overflow (checked_add now (of_nat wait)), b'))"

section \<open>Invariant\<close>

definition bucket_inv :: "TokenBucket \<Rightarrow> bool" where
  "bucket_inv b = (tb_credit b \<le> tb_cap b)"

lemma bucket_new_inv: "bucket_inv (TokenBucket_new rate now)"
  by (simp add: bucket_inv_def tb_cap_def TokenBucket_new_def)

lemma cap_below_max: "tb_cap b \<le> 2 ^ 128 - 1"
proof -
  have "unat (rl_burst_bytes (tb_rate b)) * 8000000 \<le> 2 ^ 64 * 8000000"
    using unat_bound [of "rl_burst_bytes (tb_rate b)"] by simp
  also have "\<dots> \<le> (2::nat) ^ 128 - 1" by simp
  finally show ?thesis by (simp add: tb_cap_def BYTE_CREDITS_def)
qed

text \<open>Saturation never fires before the cap does.\<close>

lemma refill_eq:
  "refill now b =
     b\<lparr>tb_credit := min (tb_credit b + (unat now - unat (tb_updated b)) * unat (rl_bits_per_second (tb_rate b))) (tb_cap b),
       tb_updated := max now (tb_updated b)\<rparr>"
proof -
  have "min (min x (2 ^ 128 - 1)) (tb_cap b) = min x (tb_cap b)" for x
    using cap_below_max [of b] by (simp add: min_def)
  then show ?thesis
    by (simp add: refill_def Let_def unat_saturating_sub flip: tb_cap_def)
qed

lemma refill_fields [simp]:
  "tb_rate (refill now b) = tb_rate b" "tb_updated (refill now b) = max now (tb_updated b)"
  "tb_cap (refill now b) = tb_cap b"
  by (simp_all add: refill_eq tb_cap_def)

lemma credit_refill:
  "tb_credit (refill now b) =
     min (tb_credit b + (unat now - unat (tb_updated b)) * unat (rl_bits_per_second (tb_rate b))) (tb_cap b)"
  by (simp add: refill_eq)

lemma refill_inv: "bucket_inv (refill now b)"
  by (simp add: bucket_inv_def credit_refill)

lemma available_snd [simp]: "snd (available now n b) = refill now b"
  by (simp add: available_def Let_def)

lemma available_fst: "fst (available now n b) \<longleftrightarrow> n * BYTE_CREDITS \<le> tb_credit (refill now b)"
  by (simp add: available_def Let_def)

lemma take_eq:
  "take_tokens now n b =
     (if n * BYTE_CREDITS \<le> tb_credit (refill now b)
      then (True, (refill now b)\<lparr>tb_credit := tb_credit (refill now b) - n * BYTE_CREDITS\<rparr>)
      else (False, refill now b))"
  by (simp add: take_tokens_def available_def Let_def)

lemma take_inv: "bucket_inv (snd (take_tokens now n b))"
  using refill_inv [of now b] by (auto simp: take_eq bucket_inv_def tb_cap_def intro: le_trans [OF diff_le_self])

lemma take_fields [simp]:
  "tb_rate (snd (take_tokens now n b)) = tb_rate b"
  "tb_updated (snd (take_tokens now n b)) = max now (tb_updated b)"
  by (simp_all add: take_eq)

section \<open>Waiting is exact\<close>

text \<open>
  \<open>ready_at\<close> names the first instant at which the bucket will cover the packet, provided the
  packet fits the burst and the clock does not run backwards.
\<close>

lemma div_ceil_le_iff:
  assumes "0 < r"
  shows "div_ceil m r \<le> k \<longleftrightarrow> m \<le> k * r"
proof
  assume "div_ceil m r \<le> k"
  then have "div_ceil m r * r \<le> k * r" by simp
  with div_ceil_bounds [OF assms, of m] show "m \<le> k * r" by linarith
next
  assume "m \<le> k * r"
  then have "div_ceil m r * r < (k + 1) * r" using div_ceil_bounds [OF assms, of m] by (simp add: algebra_simps)
  then have "div_ceil m r < k + 1" using assms by (metis mult_less_cancel2)
  then show "div_ceil m r \<le> k" by simp
qed

lemma ready_at_time:
  assumes "ready_at now n b = (Inr t, b')"
  shows "b' = refill now b"
    and "unat t = unat now + div_ceil (n * BYTE_CREDITS - tb_credit b') (unat (rl_bits_per_second (tb_rate b)))"
proof -
  let ?w = "div_ceil (n * BYTE_CREDITS - tb_credit (refill now b)) (unat (rl_bits_per_second (tb_rate b)))"
  have "?w < 2 ^ 64" "checked_add now (of_nat ?w) = Some t" and b': "b' = refill now b"
    using assms by (auto simp: ready_at_def Let_def ok_or_def split: if_splits option.splits)
  then show "b' = refill now b"
    "unat t = unat now + div_ceil (n * BYTE_CREDITS - tb_credit b') (unat (rl_bits_per_second (tb_rate b)))"
    by (simp_all add: checked_add_Some unat_of_nat)
qed

lemma ready_at_exact:
  assumes "ready_at now n b = (Inr t, b')" "tb_updated b \<le> now" "0 < rl_bits_per_second (tb_rate b)"
    and "n \<le> unat (rl_burst_bytes (tb_rate b))" "now \<le> u"
  shows "fst (available u n b') \<longleftrightarrow> t \<le> u"
proof -
  let ?r = "unat (rl_bits_per_second (tb_rate b))" and ?c = "tb_credit (refill now b)"
  have r: "0 < ?r" using assms(3) by (simp add: word_less_nat_alt)
  have upd: "tb_updated (refill now b) = now" using assms(2) by (simp add: max_def)
  have fits: "n * BYTE_CREDITS \<le> tb_cap b" using assms(4) by (simp add: tb_cap_def)
  have u: "unat now \<le> unat u" using assms(5) by (simp add: word_le_nat_alt)
  note ready = ready_at_time [OF assms(1)]
  have "fst (available u n b') \<longleftrightarrow> n * BYTE_CREDITS \<le> ?c + (unat u - unat now) * ?r"
    using fits upd by (simp add: available_fst ready(1) credit_refill [of u] del: refill_fields(2))
  also have "\<dots> \<longleftrightarrow> n * BYTE_CREDITS - ?c \<le> (unat u - unat now) * ?r" by linarith
  also have "\<dots> \<longleftrightarrow> div_ceil (n * BYTE_CREDITS - ?c) ?r \<le> unat u - unat now"
    by (simp only: div_ceil_le_iff [OF r])
  also have "\<dots> \<longleftrightarrow> unat t \<le> unat u" using ready u by auto
  finally show ?thesis by (simp only: word_le_nat_alt)
qed

section \<open>The long-run rate\<close>

text \<open>The sizes a bucket accepts from a sequence of attempts.\<close>

fun take_all :: "TokenBucket \<Rightarrow> (SimTime \<times> nat) list \<Rightarrow> nat list \<times> TokenBucket" where
  "take_all b [] = ([], b)"
| "take_all b ((now, n) # ops) =
     (let (ok, b') = take_tokens now n b; (out, b'') = take_all b' ops
      in (if ok then n # out else out, b''))"

lemma take_credit:
  "fst (take_tokens now n b) \<Longrightarrow>
     tb_credit (snd (take_tokens now n b)) + n * BYTE_CREDITS
       \<le> tb_credit b + (unat now - unat (tb_updated b)) * unat (rl_bits_per_second (tb_rate b))"
  "\<not> fst (take_tokens now n b) \<Longrightarrow>
     tb_credit (snd (take_tokens now n b))
       \<le> tb_credit b + (unat now - unat (tb_updated b)) * unat (rl_bits_per_second (tb_rate b))"
  by (auto simp: take_eq credit_refill split: if_splits)

lemma take_all_bound:
  assumes "take_all b ops = (out, b'')" "sorted (tb_updated b # map fst ops)" "\<forall>op\<in>set ops. fst op \<le> t" "tb_updated b \<le> t"
  shows "sum_list out * BYTE_CREDITS
    \<le> tb_credit b + (unat t - unat (tb_updated b)) * unat (rl_bits_per_second (tb_rate b))"
  using assms
proof (induction ops arbitrary: b out)
  case (Cons op ops)
  obtain now n where op: "op = (now, n)" by (cases op)
  let ?b = "snd (take_tokens now n b)" and ?r = "unat (rl_bits_per_second (tb_rate b))"
  obtain out' where rest: "take_all ?b ops = (out', b'')"
    and out: "out = (if fst (take_tokens now n b) then n # out' else out')"
    using Cons.prems(1) by (auto simp: op Let_def split: prod.splits)
  have upd: "tb_updated ?b = now" and now: "tb_updated b \<le> now" "now \<le> t"
    using Cons.prems(2,3) by (auto simp: op max_def)
  have IH: "sum_list out' * BYTE_CREDITS \<le> tb_credit ?b + (unat t - unat now) * ?r"
    using Cons.IH [OF rest] Cons.prems(2,3) now upd by (simp add: op del: take_fields(2))
  have time: "(unat t - unat (tb_updated b)) * ?r = (unat now - unat (tb_updated b)) * ?r + (unat t - unat now) * ?r"
    using now by (simp add: word_le_nat_alt flip: add_mult_distrib)
  show ?case
    using IH take_credit [of now n b] unfolding time out by (auto simp: algebra_simps)
qed simp

section \<open>Properties\<close>

text \<open>One kilobyte of burst at 8 Mbit/s, one byte per microsecond.\<close>

definition sample_bucket :: TokenBucket where
  "sample_bucket = TokenBucket_new \<lparr>rl_bits_per_second = 8000000, rl_burst_bytes = 1000\<rparr> 0"

lemmas bucket_eval =
  sample_bucket_def TokenBucket_new_def take_eq credit_refill tb_cap_def BYTE_CREDITS_def

text \<open>
  C4. The token bucket polices: over any sequence of requests in time order, the bytes granted up
  to time \<open>t\<close> never exceed the burst plus the rate times the elapsed time. The bound is exact in
  the bucket's own unit, millionths of a bit, so no rounding accumulates.
\<close>

theorem bucket_rate_bound:
  assumes "take_all (TokenBucket_new rate start) ops = (out, b)" "sorted (start # map fst ops)" "\<forall>op\<in>set ops. fst op \<le> t" "start \<le> t"
  shows "sum_list out * 8000000
    \<le> unat (rl_burst_bytes rate) * 8000000 + (unat t - unat start) * unat (rl_bits_per_second rate)"
  using take_all_bound [of "TokenBucket_new rate start" ops out b t] assms
  by (simp add: TokenBucket_new_def BYTE_CREDITS_def)

theorem bucket_rate_bound_witness:
  "fst (take_all sample_bucket [(0, 1000), (500, 600), (500, 400), (700, 300)]) = [1000, 400, 300] \<and>
   sum_list [1000, 400, 300] * 8000000 \<le> 1000 * 8000000 + 700 * (8000000 :: nat)"
proof -
  let ?ops = "[(0, 1000), (500, 600), (500, 400), (700, 300)] :: (SimTime \<times> nat) list"
  have "fst (take_all sample_bucket ?ops) = [1000, 400, 300]" by (simp add: bucket_eval max_def)
  moreover from this obtain b where "take_all sample_bucket ?ops = ([1000, 400, 300], b)" by (metis prod.collapse)
  ultimately show ?thesis
    using bucket_rate_bound [of "\<lparr>rl_bits_per_second = 8000000, rl_burst_bytes = 1000\<rparr>" 0 ?ops _ b 700]
    by (simp add: sample_bucket_def)
qed

text \<open>
  C25. The wake-up time the bucket computes is exact: a packet no larger than the burst conforms at
  every later time from \<open>t\<close> on and at none before it, so a scheduler that sleeps until \<open>t\<close>
  neither spins nor oversleeps.
\<close>

theorem bucket_wakeup_exact:
  assumes "ready_at now n b = (Inr t, b')" "tb_updated b \<le> now" "0 < rl_bits_per_second (tb_rate b)"
    and "n \<le> unat (rl_burst_bytes (tb_rate b))" "now \<le> u"
  shows "fst (available u n b') \<longleftrightarrow> t \<le> u"
  using assms by (rule ready_at_exact)

theorem bucket_wakeup_exact_witness:
  "fst (ready_at 0 600 (snd (take_tokens 0 1000 sample_bucket))) = Inr 600 \<and>
   \<not> fst (available 599 600 (snd (ready_at 0 600 (snd (take_tokens 0 1000 sample_bucket))))) \<and>
   fst (available 600 600 (snd (ready_at 0 600 (snd (take_tokens 0 1000 sample_bucket)))))"
proof -
  let ?b = "snd (take_tokens 0 1000 sample_bucket)"
  have "fst (ready_at 0 600 ?b) = Inr 600"
    by (simp add: bucket_eval ready_at_def Let_def div_ceil_def checked_add_def)
  moreover from this obtain b' where r: "ready_at 0 600 ?b = (Inr 600, b')" by (metis prod.collapse)
  ultimately show ?thesis
    using bucket_wakeup_exact [OF r, of 599] bucket_wakeup_exact [OF r, of 600] by (simp add: bucket_eval)
qed

end
