(* ===== verification/Sim_Qos.thy ===== *)
theory Sim_Qos
  imports Sim_Bucket
begin

text \<open>
  The crate \<open>rios-simulator\<close>, part four: the QoS scheduler (\<open>qos/mod.rs\<close>), a bounded set of
  class queues with policing, shaping, strict priority and weighted-fair finish tags. A \<open>u128\<close>
  tag is a natural number with the saturation written out.
\<close>

section \<open>Classes\<close>

record QueueClassConfig =
  qc_weight :: u64
  qc_priority :: "RateLimit option"
  qc_police :: "RateLimit option"
  qc_shape :: "RateLimit option"

definition QueueClassConfig_default :: QueueClassConfig where
  "QueueClassConfig_default = \<lparr>qc_weight = 1, qc_priority = None, qc_police = None, qc_shape = None\<rparr>"

datatype QueueRejectReason = QueueFull | Policed | PriorityExceeded | ShapeBurstExceeded | UnknownClass

record 'a QueueRejected =
  rj_reason :: QueueRejectReason
  rj_packet :: 'a

record QosClassCounters =
  cc_matched_packets :: u64
  cc_matched_bytes :: u64
  cc_transmitted_packets :: u64
  cc_transmitted_bytes :: u64
  cc_queue_drops :: u64
  cc_police_drops :: u64
  cc_priority_drops :: u64
  cc_shape_drops :: u64

definition QosClassCounters_default :: QosClassCounters where
  "QosClassCounters_default = \<lparr>cc_matched_packets = 0, cc_matched_bytes = 0, cc_transmitted_packets = 0,
     cc_transmitted_bytes = 0, cc_queue_drops = 0, cc_police_drops = 0, cc_priority_drops = 0, cc_shape_drops = 0\<rparr>"

record 'a Queued =
  qd_packet :: 'a
  qd_bytes :: nat
  qd_finish :: nat

record 'a Class =
  cl_config :: QueueClassConfig
  cl_priority :: "TokenBucket option"
  cl_police :: "TokenBucket option"
  cl_shape :: "TokenBucket option"
  cl_packets :: "'a Queued list"
  cl_last_finish :: nat
  cl_counters :: QosClassCounters

record 'a QosDeparture =
  de_class :: nat
  de_bytes :: nat
  de_packet :: 'a

record 'a QosScheduler =
  qs_classes :: "'a Class list"
  qs_capacity :: nat
  qs_length :: nat
  qs_virtual_time :: nat

section \<open>Construction\<close>

datatype QosConfigError = QosConfigError

definition bad_class :: "QueueClassConfig \<Rightarrow> bool" where
  "bad_class c =
     (\<not> (1 \<le> qc_weight c \<and> qc_weight c \<le> 1000000000000) \<or>
      list_ex (\<lambda>rate. \<not> RateLimit_valid rate)
        (List.map_filter (\<lambda>r. r) [qc_priority c, qc_police c, qc_shape c]))"

definition Class_new :: "SimTime \<Rightarrow> QueueClassConfig \<Rightarrow> 'a Class" where
  "Class_new now c =
     \<lparr>cl_config = c, cl_priority = map_option (\<lambda>r. TokenBucket_new r now) (qc_priority c),
      cl_police = map_option (\<lambda>r. TokenBucket_new r now) (qc_police c),
      cl_shape = map_option (\<lambda>r. TokenBucket_new r now) (qc_shape c),
      cl_packets = [], cl_last_finish = 0, cl_counters = QosClassCounters_default\<rparr>"

definition QosScheduler_new ::
  "QueueClassConfig list \<Rightarrow> nat \<Rightarrow> SimTime \<Rightarrow> QosConfigError + 'a QosScheduler" where
  "QosScheduler_new configs capacity now =
     (if configs = [] \<or> 64 < length configs \<or> \<not> (1 \<le> capacity \<and> capacity \<le> 1000000) \<or> list_ex bad_class configs
      then Inl QosConfigError
      else Inr \<lparr>qs_classes = map (Class_new now) configs, qs_capacity = capacity, qs_length = 0, qs_virtual_time = 0\<rparr>)"

definition QosScheduler_is_empty :: "'a QosScheduler \<Rightarrow> bool" where
  "QosScheduler_is_empty s = (qs_length s = 0)"

definition QosScheduler_statistics :: "'a QosScheduler \<Rightarrow> (QosClassCounters \<times> nat) list" where
  "QosScheduler_statistics s = map (\<lambda>c. (cl_counters c, length (cl_packets c))) (qs_classes s)"

section \<open>Admission\<close>

text \<open>\<open>bucket.as_mut().is_some_and(|b| !b.take(now, bytes))\<close> and the bucket it leaves.\<close>

definition throttled :: "SimTime \<Rightarrow> nat \<Rightarrow> TokenBucket option \<Rightarrow> bool \<times> TokenBucket option" where
  "throttled now n bucket =
     (case bucket of None \<Rightarrow> (False, None)
      | Some b \<Rightarrow> let (ok, b') = take_tokens now n b in (\<not> ok, Some b'))"

definition count_matched :: "nat \<Rightarrow> 'a Class \<Rightarrow> 'a Class" where
  "count_matched n c = c\<lparr>cl_counters := (cl_counters c)\<lparr>
     cc_matched_packets := saturating_add (cc_matched_packets (cl_counters c)) 1,
     cc_matched_bytes := saturating_add (cc_matched_bytes (cl_counters c)) (of_nat n)\<rparr>\<rparr>"

definition admit_class ::
  "SimTime \<Rightarrow> nat \<Rightarrow> bool \<Rightarrow> bool \<Rightarrow> 'a Class \<Rightarrow> QueueRejectReason option \<times> 'a Class" where
  "admit_class now n congested full c0 =
     (let c1 = count_matched n c0;
          (policed, police) = throttled now n (cl_police c1);
          c2 = c1\<lparr>cl_police := police\<rparr>
      in if policed then
           (Some Policed, c2\<lparr>cl_counters := (cl_counters c2)\<lparr>cc_police_drops :=
              saturating_add (cc_police_drops (cl_counters c2)) 1\<rparr>\<rparr>)
         else let (exceeded, priority) = throttled now n (cl_priority c2);
                  c3 = c2\<lparr>cl_priority := priority\<rparr>
         in if exceeded \<and> congested then
              (Some PriorityExceeded, c3\<lparr>cl_counters := (cl_counters c3)\<lparr>cc_priority_drops :=
                 saturating_add (cc_priority_drops (cl_counters c3)) 1\<rparr>\<rparr>)
            else if (case qc_shape (cl_config c3) of None \<Rightarrow> False | Some rate \<Rightarrow> unat (rl_burst_bytes rate) < n) then
              (Some ShapeBurstExceeded, c3\<lparr>cl_counters := (cl_counters c3)\<lparr>cc_shape_drops :=
                 saturating_add (cc_shape_drops (cl_counters c3)) 1\<rparr>\<rparr>)
            else if full then
              (Some QueueFull, c3\<lparr>cl_counters := (cl_counters c3)\<lparr>cc_queue_drops :=
                 saturating_add (cc_queue_drops (cl_counters c3)) 1\<rparr>\<rparr>)
            else (None, c3))"

definition finish_tag :: "nat \<Rightarrow> nat \<Rightarrow> 'a Class \<Rightarrow> nat" where
  "finish_tag virtual_time n c =
     min (max (cl_last_finish c) virtual_time + div_ceil (n * 1000000000000) (unat (qc_weight (cl_config c))))
       (2 ^ 128 - 1)"

definition push_packet :: "nat \<Rightarrow> 'a \<Rightarrow> nat \<Rightarrow> 'a Class \<Rightarrow> 'a Class" where
  "push_packet virtual_time packet n c =
     (let finish = finish_tag virtual_time n c
      in c\<lparr>cl_last_finish := finish,
           cl_packets := cl_packets c @ [\<lparr>qd_packet = packet, qd_bytes = n, qd_finish = finish\<rparr>]\<rparr>)"

definition restart_if_empty :: "'a QosScheduler \<Rightarrow> 'a QosScheduler" where
  "restart_if_empty s =
     (if QosScheduler_is_empty s
      then s\<lparr>qs_virtual_time := 0, qs_classes := map (\<lambda>c. c\<lparr>cl_last_finish := 0\<rparr>) (qs_classes s)\<rparr>
      else s)"

definition QosScheduler_enqueue ::
  "nat \<Rightarrow> SimTime \<Rightarrow> 'a \<Rightarrow> nat \<Rightarrow> nat \<Rightarrow> 'a QosScheduler \<Rightarrow> ('a QueueRejected + unit) \<times> 'a QosScheduler" where
  "QosScheduler_enqueue i now packet n in_flight s0 =
     (let s = restart_if_empty s0;
          congested = (0 < qs_length s \<or> 0 < in_flight)
      in case get_at i (qs_classes s) of
           None \<Rightarrow> (Inl \<lparr>rj_reason = UnknownClass, rj_packet = packet\<rparr>, s)
         | Some c \<Rightarrow>
             (case admit_class now n congested (qs_capacity s \<le> qs_length s + in_flight) c of
                (Some reason, c') \<Rightarrow>
                  (Inl \<lparr>rj_reason = reason, rj_packet = packet\<rparr>, s\<lparr>qs_classes := (qs_classes s)[i := c']\<rparr>)
              | (None, c') \<Rightarrow>
                  (Inr (), s\<lparr>qs_classes := (qs_classes s)[i := push_packet (qs_virtual_time s) packet n c'],
                             qs_length := qs_length s + 1\<rparr>)))"

section \<open>Service\<close>

fun next_ready_loop ::
  "SimTime \<Rightarrow> SimTime option \<Rightarrow> 'a Class list \<Rightarrow> (ScheduleError + SimTime option) \<times> 'a Class list" where
  "next_ready_loop now next [] = (Inr next, [])"
| "next_ready_loop now next (c # cs) =
     (case cl_packets c of
        [] \<Rightarrow> (let (r, cs') = next_ready_loop now next cs in (r, c # cs'))
      | p # _ \<Rightarrow>
          (case (case cl_shape c of None \<Rightarrow> (Inr now, None)
                 | Some b \<Rightarrow> let (r, b') = ready_at now (qd_bytes p) b in (r, Some b')) of
             (Inl e, b') \<Rightarrow> (Inl e, c\<lparr>cl_shape := b'\<rparr> # cs)
           | (Inr time, b') \<Rightarrow>
               (let next' = Some (case next of None \<Rightarrow> time | Some old \<Rightarrow> min old time);
                    (r, cs') = next_ready_loop now next' cs
                in (r, c\<lparr>cl_shape := b'\<rparr> # cs'))))"

definition QosScheduler_next_ready ::
  "SimTime \<Rightarrow> 'a QosScheduler \<Rightarrow> (ScheduleError + SimTime option) \<times> 'a QosScheduler" where
  "QosScheduler_next_ready now s =
     (let (r, cs) = next_ready_loop now None (qs_classes s) in (r, s\<lparr>qs_classes := cs\<rparr>))"

text \<open>One class of the selection: its key when its head may leave, and its refilled shaper.\<close>

definition class_key :: "nat \<Rightarrow> 'a Class \<Rightarrow> 'a Queued \<Rightarrow> bool \<times> nat \<times> nat" where
  "class_key i c p =
     (cl_priority c = None, if cl_priority c \<noteq> None then 0 else qd_finish p, i)"

definition visit :: "SimTime \<Rightarrow> nat \<times> 'a Class \<Rightarrow> ((bool \<times> nat \<times> nat) \<times> nat) option \<times> 'a Class" where
  "visit now = (\<lambda>(i, c).
     case cl_packets c of
       [] \<Rightarrow> (None, c)
     | p # _ \<Rightarrow>
         (case cl_shape c of
            None \<Rightarrow> (Some (class_key i c p, i), c)
          | Some b \<Rightarrow>
              let (ok, b') = available now (qd_bytes p) b; c' = c\<lparr>cl_shape := Some b'\<rparr>
              in (if ok then Some (class_key i c p, i) else None, c')))"

definition count_transmitted :: "nat \<Rightarrow> 'a Class \<Rightarrow> 'a Class" where
  "count_transmitted n c = c\<lparr>cl_counters := (cl_counters c)\<lparr>
     cc_transmitted_packets := saturating_add (cc_transmitted_packets (cl_counters c)) 1,
     cc_transmitted_bytes := saturating_add (cc_transmitted_bytes (cl_counters c)) (of_nat n)\<rparr>\<rparr>"

definition QosScheduler_dequeue_ready ::
  "SimTime \<Rightarrow> 'a QosScheduler \<Rightarrow> 'a QosDeparture option \<times> 'a QosScheduler" where
  "QosScheduler_dequeue_ready now s0 =
     (let visited = map (visit now) (enumerate 0 (qs_classes s0));
          s = s0\<lparr>qs_classes := map snd visited\<rparr>
      in case min_by_key fst (List.map_filter fst visited) of
           None \<Rightarrow> (None, s)
         | Some (_, selected) \<Rightarrow>
             let c = qs_classes s ! selected
             in (case cl_packets c of
                   [] \<Rightarrow> (None, s)
                 | p # rest \<Rightarrow>
                     let c1 = c\<lparr>cl_packets := rest,
                                cl_shape := map_option (\<lambda>b. snd (take_tokens now (qd_bytes p) b)) (cl_shape c)\<rparr>;
                         c2 = count_transmitted (qd_bytes p) c1
                     in (Some \<lparr>de_class = selected, de_bytes = qd_bytes p, de_packet = qd_packet p\<rparr>,
                         s\<lparr>qs_classes := (qs_classes s)[selected := c2],
                           qs_virtual_time := (if cl_priority c = None then max (qs_virtual_time s) (qd_finish p)
                                               else qs_virtual_time s),
                           qs_length := qs_length s - 1\<rparr>)))"

definition QosScheduler_drain :: "'a QosScheduler \<Rightarrow> 'a list \<times> 'a QosScheduler" where
  "QosScheduler_drain s =
     (concat (map (\<lambda>c. map qd_packet (cl_packets c)) (qs_classes s)),
      s\<lparr>qs_length := 0, qs_classes := map (\<lambda>c. c\<lparr>cl_packets := []\<rparr>) (qs_classes s)\<rparr>)"

section \<open>Invariant\<close>

text \<open>
  Within a class the finish tags rise towards the newest packet, no packet exceeds the shaper's
  burst, and the shaper runs at the configured rate. The stored length counts the packets and
  stays within the capacity.
\<close>

definition class_inv :: "'a Class \<Rightarrow> bool" where
  "class_inv c =
     (sorted (map qd_finish (cl_packets c)) \<and>
      (\<forall>p\<in>set (cl_packets c). qd_finish p \<le> cl_last_finish c) \<and> cl_last_finish c \<le> 2 ^ 128 - 1 \<and>
      map_option tb_rate (cl_shape c) = qc_shape (cl_config c) \<and>
      (\<forall>rate. qc_shape (cl_config c) = Some rate \<longrightarrow>
         0 < rl_bits_per_second rate \<and> (\<forall>p\<in>set (cl_packets c). qd_bytes p \<le> unat (rl_burst_bytes rate))))"

definition waiting :: "'a QosScheduler \<Rightarrow> nat" where
  "waiting s = (\<Sum>c\<leftarrow>qs_classes s. length (cl_packets c))"

definition qos_inv :: "'a QosScheduler \<Rightarrow> bool" where
  "qos_inv s = (qs_length s = waiting s \<and> qs_length s \<le> qs_capacity s \<and> (\<forall>c\<in>set (qs_classes s). class_inv c))"

lemma valid_rate_pos: "RateLimit_valid r \<Longrightarrow> 0 < rl_bits_per_second r"
  by (auto simp: RateLimit_valid_def word_le_nat_alt word_less_nat_alt)

lemma class_new_inv: "\<not> bad_class c \<Longrightarrow> class_inv (Class_new now c)"
  by (auto simp: class_inv_def Class_new_def bad_class_def option.map_comp comp_def TokenBucket_new_def
      valid_rate_pos option.map_id0 map_option.id split: option.splits)

lemma qos_new_inv: "QosScheduler_new configs capacity now = Inr s \<Longrightarrow> qos_inv s"
proof -
  assume "QosScheduler_new configs capacity now = Inr s"
  then have s: "s = \<lparr>qs_classes = map (Class_new now) configs, qs_capacity = capacity, qs_length = 0, qs_virtual_time = 0\<rparr>"
    and good: "\<forall>c\<in>set configs. \<not> bad_class c"
    by (auto simp: QosScheduler_new_def list_ex_iff split: if_splits)
  have "waiting s = 0" by (simp add: s waiting_def Class_new_def comp_def sum_list_0)
  then show ?thesis using good class_new_inv by (auto simp: qos_inv_def s)
qed

text \<open>What an admission leaves of a class: only its counters and its two policing buckets change.\<close>

lemma admit_class_same:
  assumes "admit_class now n congested full c = (reason, c')"
  shows "cl_config c' = cl_config c" "cl_shape c' = cl_shape c" "cl_packets c' = cl_packets c"
    "cl_last_finish c' = cl_last_finish c"
  using assms by (auto simp: admit_class_def count_matched_def Let_def split: prod.splits if_splits)

lemma admit_class_None:
  assumes "admit_class now n congested full c = (None, c')"
  shows "\<not> full" "qc_shape (cl_config c) = Some rate \<Longrightarrow> n \<le> unat (rl_burst_bytes rate)"
  using assms by (auto simp: admit_class_def count_matched_def Let_def split: prod.splits if_splits option.splits)

lemma class_inv_same:
  "class_inv c \<Longrightarrow> cl_config c' = cl_config c \<Longrightarrow> cl_shape c' = cl_shape c \<Longrightarrow> cl_packets c' = cl_packets c \<Longrightarrow>
     cl_last_finish c' = cl_last_finish c \<Longrightarrow> class_inv c'"
  by (simp add: class_inv_def)

lemma finish_tag_ge: "cl_last_finish c \<le> 2 ^ 128 - 1 \<Longrightarrow> cl_last_finish c \<le> finish_tag v n c"
  by (simp add: finish_tag_def)

lemma push_packet_inv:
  assumes "class_inv c" "\<And>rate. qc_shape (cl_config c) = Some rate \<Longrightarrow> n \<le> unat (rl_burst_bytes rate)"
  shows "class_inv (push_packet v packet n c)"
proof -
  have ge: "cl_last_finish c \<le> finish_tag v n c" using assms(1) finish_tag_ge by (auto simp: class_inv_def)
  have "finish_tag v n c \<le> 2 ^ 128 - 1" by (simp add: finish_tag_def)
  then show ?thesis
    using assms ge by (auto simp: class_inv_def push_packet_def Let_def sorted_append intro: order_trans)
qed

lemma waiting_update:
  assumes "i < length (qs_classes s)"
  shows "waiting (s\<lparr>qs_classes := (qs_classes s)[i := c]\<rparr>) + length (cl_packets (qs_classes s ! i)) =
    waiting s + length (cl_packets c)"
proof -
  let ?f = "\<lambda>c. length (cl_packets c)"
  have "sum_list (map ?f (xs[i := c])) + ?f (xs ! i) = sum_list (map ?f xs) + ?f c" if "i < length xs" for xs
    using that by (induction xs arbitrary: i) (auto split: nat.splits)
  then show ?thesis using assms by (simp add: waiting_def)
qed

lemma restart_inv: "qos_inv s \<Longrightarrow> qos_inv (restart_if_empty s)"
proof -
  assume inv: "qos_inv s"
  have "cl_packets c = []" if "QosScheduler_is_empty s" "c \<in> set (qs_classes s)" for c
    using inv that by (auto simp: qos_inv_def QosScheduler_is_empty_def waiting_def)
  then show ?thesis
    using inv by (auto simp: restart_if_empty_def qos_inv_def waiting_def class_inv_def comp_def)
qed

lemma restart_same:
  "qs_capacity (restart_if_empty s) = qs_capacity s" "qs_length (restart_if_empty s) = qs_length s"
  "map cl_packets (qs_classes (restart_if_empty s)) = map cl_packets (qs_classes s)"
  "length (qs_classes (restart_if_empty s)) = length (qs_classes s)"
  by (simp_all add: restart_if_empty_def)

lemma enqueue_inv:
  assumes "qos_inv s" "QosScheduler_enqueue i now packet n in_flight s = (r, s')"
  shows "qos_inv s'"
proof -
  let ?s = "restart_if_empty s"
  note inv = restart_inv [OF assms(1)]
  show ?thesis
  proof (cases "i < length (qs_classes ?s)")
    case False
    then show ?thesis using assms(2) inv by (simp add: QosScheduler_enqueue_def Let_def get_at_def)
  next
    case True
    let ?c = "qs_classes ?s ! i"
    obtain reason c' where adm:
      "admit_class now n (0 < qs_length ?s \<or> 0 < in_flight) (qs_capacity ?s \<le> qs_length ?s + in_flight) ?c = (reason, c')"
      by (metis surj_pair)
    note same = admit_class_same [OF adm]
    have c: "class_inv ?c" using inv True by (simp add: qos_inv_def)
    then have c': "class_inv c'" by (rule class_inv_same) (simp_all add: same)
    have others: "class_inv d" if "class_inv e" "d \<in> set ((qs_classes ?s)[i := e])" for d e
      using that inv set_update_subset_insert [of "qs_classes ?s" i e] by (auto simp: qos_inv_def)
    show ?thesis
    proof (cases reason)
      case (Some x)
      then have s': "s' = ?s\<lparr>qs_classes := (qs_classes ?s)[i := c']\<rparr>"
        using assms(2) True adm by (simp add: QosScheduler_enqueue_def Let_def get_at_def)
      then show ?thesis
        using inv waiting_update [OF True, of c'] others [OF c'] by (auto simp: qos_inv_def same)
    next
      case None
      let ?p = "push_packet (qs_virtual_time ?s) packet n c'"
      have s': "s' = ?s\<lparr>qs_classes := (qs_classes ?s)[i := ?p], qs_length := qs_length ?s + 1\<rparr>"
        using assms(2) True adm None by (simp add: QosScheduler_enqueue_def Let_def get_at_def)
      note ok = admit_class_None [OF adm [unfolded None]]
      have p: "class_inv ?p" using c' ok(2) by (intro push_packet_inv) (simp_all add: same)
      have "length (cl_packets ?p) = length (cl_packets ?c) + 1" by (simp add: push_packet_def Let_def same)
      then show ?thesis
        using inv waiting_update [OF True, of ?p] others [OF p] ok(1)
        by (auto simp: qos_inv_def s' waiting_def)
    qed
  qed
qed

text \<open>Looking for work only refills shapers.\<close>

definition refreshed :: "'a Class \<Rightarrow> 'a Class \<Rightarrow> bool" where
  "refreshed c c' = (c' = c\<lparr>cl_shape := cl_shape c'\<rparr> \<and> map_option tb_rate (cl_shape c') = map_option tb_rate (cl_shape c))"

lemma refreshedI:
  "map_option tb_rate b = map_option tb_rate (cl_shape c) \<Longrightarrow> refreshed c (c\<lparr>cl_shape := b\<rparr>)"
  by (simp add: refreshed_def)

lemma refreshed_refl [simp]: "refreshed c c"
  by (simp add: refreshed_def)

lemma refreshed_same:
  assumes "refreshed c c'"
  shows "cl_config c' = cl_config c" "cl_packets c' = cl_packets c" "cl_last_finish c' = cl_last_finish c"
    "cl_priority c' = cl_priority c" "map_option tb_rate (cl_shape c') = map_option tb_rate (cl_shape c)"
proof -
  have eq: "c' = c\<lparr>cl_shape := cl_shape c'\<rparr>" using assms by (simp add: refreshed_def)
  show "cl_config c' = cl_config c" "cl_packets c' = cl_packets c" "cl_last_finish c' = cl_last_finish c"
    "cl_priority c' = cl_priority c" by (subst eq, simp)+
  show "map_option tb_rate (cl_shape c') = map_option tb_rate (cl_shape c)"
    using assms by (simp add: refreshed_def)
qed

lemma refreshed_inv: "refreshed c c' \<Longrightarrow> class_inv c \<Longrightarrow> class_inv c'"
  by (simp add: class_inv_def refreshed_same [of c c'])

lemma refreshed_all:
  assumes "list_all2 refreshed cs cs'"
  shows "map cl_packets cs' = map cl_packets cs" "\<forall>c\<in>set cs. class_inv c \<Longrightarrow> \<forall>c\<in>set cs'. class_inv c"
  using assms by (induction rule: list_all2_induct) (auto simp: refreshed_same intro: refreshed_inv)

lemma qos_inv_refreshed:
  assumes "qos_inv s" "list_all2 refreshed (qs_classes s) cs"
  shows "qos_inv (s\<lparr>qs_classes := cs\<rparr>)"
proof -
  have "waiting (s\<lparr>qs_classes := cs\<rparr>) = waiting s"
    using arg_cong [OF refreshed_all(1) [OF assms(2)], of "\<lambda>ps. sum_list (map length ps)"]
    by (simp add: waiting_def comp_def)
  then show ?thesis using assms(1) refreshed_all(2) [OF assms(2)] by (simp add: qos_inv_def)
qed

lemma ready_at_rate: "tb_rate (snd (ready_at now n b)) = tb_rate b"
  by (simp add: ready_at_def Let_def)

lemma next_ready_refreshed: "list_all2 refreshed cs (snd (next_ready_loop now next cs))"
proof (induction cs arbitrary: "next")
  case (Cons c cs)
  have refill: "refreshed c (c\<lparr>cl_shape := None\<rparr>)" if "cl_shape c = None"
    using that by (intro refreshedI) simp
  have shape: "refreshed c (c\<lparr>cl_shape := Some b'\<rparr>)" if "cl_shape c = Some b" "ready_at now n b = (r, b')" for b b' n r
    using that ready_at_rate [of now n b] by (intro refreshedI) simp
  show ?case
    using Cons shape refill
    by (auto simp: Let_def list.rel_refl split: list.splits option.splits prod.splits sum.splits) (metis snd_conv)+
qed simp

lemma visit_refreshed: "refreshed c (snd (visit now (i, c)))"
  by (auto simp: visit_def Let_def available_def intro!: refreshedI split: list.splits option.splits)

lemma visited_classes: "list_all2 refreshed cs (map snd (map (visit now) (enumerate k cs)))"
  by (induction cs arbitrary: k) (simp_all add: visit_refreshed)

lemma next_ready_inv: "qos_inv s \<Longrightarrow> qos_inv (snd (QosScheduler_next_ready now s))"
  using qos_inv_refreshed [OF _ next_ready_refreshed, of s now None]
  by (simp add: QosScheduler_next_ready_def case_prod_beta)

lemma drain_inv: "qos_inv s \<Longrightarrow> qos_inv (snd (QosScheduler_drain s))"
  by (auto simp: qos_inv_def QosScheduler_drain_def waiting_def class_inv_def comp_def)

section \<open>Selection\<close>

definition eligible :: "SimTime \<Rightarrow> 'a Class \<Rightarrow> bool" where
  "eligible now c =
     (case cl_packets c of [] \<Rightarrow> False
      | p # _ \<Rightarrow> (case cl_shape c of None \<Rightarrow> True | Some b \<Rightarrow> fst (available now (qd_bytes p) b)))"

lemma visit_fst:
  "fst (visit now (i, c)) =
     (if eligible now c then Some (class_key i c (hd (cl_packets c)), i) else None)"
  by (auto simp: visit_def eligible_def Let_def available_def split: list.splits option.splits)

definition candidates :: "SimTime \<Rightarrow> 'a Class list \<Rightarrow> ((bool \<times> nat \<times> nat) \<times> nat) list" where
  "candidates now cs = List.map_filter fst (map (visit now) (enumerate 0 cs))"

lemma set_candidates:
  "(k, i) \<in> set (candidates now cs) \<longleftrightarrow>
     i < length cs \<and> eligible now (cs ! i) \<and> k = class_key i (cs ! i) (hd (cl_packets (cs ! i)))"
proof -
  have "(k, i) \<in> set (candidates now cs) \<longleftrightarrow> (\<exists>x\<in>set (enumerate 0 cs). fst (visit now x) = Some (k, i))"
    by (simp add: candidates_def in_map_filter)
  also have "\<dots> \<longleftrightarrow> (\<exists>j < length cs. fst (visit now (j, cs ! j)) = Some (k, i))"
    by (auto simp: in_set_enumerate_eq Bex_def)
  finally show ?thesis by (auto simp: visit_fst)
qed

lemma dequeue_cases:
  assumes "QosScheduler_dequeue_ready now s = (d, s')"
  obtains (none) "d = None" "\<forall>i < length (qs_classes s). \<not> eligible now (qs_classes s ! i)"
      "s' = s\<lparr>qs_classes := map snd (map (visit now) (enumerate 0 (qs_classes s)))\<rparr>"
  | (some) i c p rest where
      "i < length (qs_classes s)" "c = snd (visit now (i, qs_classes s ! i))" "eligible now (qs_classes s ! i)"
      "cl_packets (qs_classes s ! i) = p # rest" "d = Some \<lparr>de_class = i, de_bytes = qd_bytes p, de_packet = qd_packet p\<rparr>"
      "\<forall>j < length (qs_classes s). eligible now (qs_classes s ! j) \<longrightarrow>
         class_key i (qs_classes s ! i) p \<le> class_key j (qs_classes s ! j) (hd (cl_packets (qs_classes s ! j)))"
      "s' = s\<lparr>qs_classes := (map snd (map (visit now) (enumerate 0 (qs_classes s))))[i :=
               count_transmitted (qd_bytes p) (c\<lparr>cl_packets := rest,
                 cl_shape := map_option (\<lambda>b. snd (take_tokens now (qd_bytes p) b)) (cl_shape c)\<rparr>)],
             qs_virtual_time := (if cl_priority c = None then max (qs_virtual_time s) (qd_finish p)
                                 else qs_virtual_time s),
             qs_length := qs_length s - 1\<rparr>"
proof (cases "min_by_key fst (candidates now (qs_classes s))")
  case None
  then have "candidates now (qs_classes s) = []" by simp
  then have "\<forall>i < length (qs_classes s). \<not> eligible now (qs_classes s ! i)"
    using set_candidates [of _ _ now "qs_classes s"] by (metis empty_iff list.set(1))
  moreover have "d = None \<and> s' = s\<lparr>qs_classes := map snd (map (visit now) (enumerate 0 (qs_classes s)))\<rparr>"
    using assms None by (simp add: QosScheduler_dequeue_ready_def Let_def candidates_def)
  ultimately show thesis using none by blast
next
  case (Some x)
  obtain k i where x: "x = (k, i)" by (cases x)
  note least = min_by_key_Some [OF Some]
  from least x have i: "i < length (qs_classes s)" "eligible now (qs_classes s ! i)"
    and k: "k = class_key i (qs_classes s ! i) (hd (cl_packets (qs_classes s ! i)))"
    by (auto simp: set_candidates)
  have min: "k \<le> class_key j (qs_classes s ! j) (hd (cl_packets (qs_classes s ! j)))"
    if "j < length (qs_classes s)" "eligible now (qs_classes s ! j)" for j
    using least that unfolding x by (metis fst_conv set_candidates)
  obtain p rest where p: "cl_packets (qs_classes s ! i) = p # rest"
    using i(2) by (auto simp: eligible_def split: list.splits)
  let ?c = "snd (visit now (i, qs_classes s ! i))"
  have c: "map snd (map (visit now) (enumerate 0 (qs_classes s))) ! i = ?c"
    using i(1) by (simp add: nth_enumerate_eq)
  have "cl_packets ?c = p # rest"
    using visit_refreshed [of "qs_classes s ! i" now i] p by (simp add: refreshed_same)
  then show thesis
    using assms Some x c i p k min
    by (intro some [of i ?c p rest])
      (simp_all add: QosScheduler_dequeue_ready_def Let_def candidates_def cong: if_cong)
qed

lemma dequeue_inv:
  assumes "qos_inv s" "QosScheduler_dequeue_ready now s = (d, s')"
  shows "qos_inv s'"
  using assms(2)
proof (cases rule: dequeue_cases)
  case none
  then show ?thesis using qos_inv_refreshed [OF assms(1) visited_classes] by simp
next
  case (some i c p rest)
  let ?cs = "map snd (map (visit now) (enumerate 0 (qs_classes s)))"
  let ?c = "count_transmitted (qd_bytes p) (c\<lparr>cl_packets := rest,
    cl_shape := map_option (\<lambda>b. snd (take_tokens now (qd_bytes p) b)) (cl_shape c)\<rparr>)"
  let ?t = "s\<lparr>qs_classes := ?cs\<rparr>"
  have inv: "qos_inv ?t" by (rule qos_inv_refreshed [OF assms(1) visited_classes])
  have nth: "?cs ! i = c" "i < length ?cs" using some(1,2) by (simp_all add: nth_enumerate_eq)
  then have c: "class_inv c" using inv by (auto simp: qos_inv_def simp del: map_map)
  have pk: "cl_packets c = p # rest"
    using visit_refreshed [of "qs_classes s ! i" now i] some(2,4) by (simp add: refreshed_same)
  have c': "class_inv ?c"
    using c pk by (auto simp: class_inv_def count_transmitted_def option.map_comp comp_def)
  have "waiting (?t\<lparr>qs_classes := (qs_classes ?t)[i := ?c]\<rparr>) + length (cl_packets (qs_classes ?t ! i)) =
      waiting ?t + length (cl_packets ?c)"
    using nth by (intro waiting_update) simp
  then have "waiting s' + 1 = waiting ?t"
    using nth pk some(7) by (simp add: waiting_def count_transmitted_def)
  moreover have "\<forall>e\<in>set (?cs[i := ?c]). class_inv e"
    using inv c' set_update_subset_insert [of ?cs i ?c] by (auto simp: qos_inv_def simp del: map_map)
  ultimately show ?thesis using inv some(7) by (auto simp: qos_inv_def simp del: map_map)
qed

inductive qos_op :: "'a QosScheduler \<Rightarrow> 'a QosScheduler \<Rightarrow> bool" where
  enqueue: "QosScheduler_enqueue i now packet n in_flight s = (r, s') \<Longrightarrow> qos_op s s'"
| next_ready: "QosScheduler_next_ready now s = (r, s') \<Longrightarrow> qos_op s s'"
| dequeue_ready: "QosScheduler_dequeue_ready now s = (d, s') \<Longrightarrow> qos_op s s'"
| drain: "QosScheduler_drain s = (ps, s') \<Longrightarrow> qos_op s s'"

lemma qos_op_inv: "qos_op s s' \<Longrightarrow> qos_inv s \<Longrightarrow> qos_inv s'"
proof (induction rule: qos_op.induct)
  case (enqueue i now packet n in_flight s r s')
  from enqueue_inv [OF enqueue(2,1)] show ?case .
next
  case (next_ready now s r s')
  then show ?case using next_ready_inv [of s now] by simp
next
  case (dequeue_ready now s d s')
  from dequeue_inv [OF dequeue_ready(2,1)] show ?case .
next
  case (drain s ps s')
  then show ?case using drain_inv [of s] by simp
qed

interpretation qos_machine: invariant_system
  "\<lambda>s. \<exists>configs capacity now. QosScheduler_new configs capacity now = Inr s" qos_op qos_inv
  by unfold_locales (auto intro: qos_new_inv qos_op_inv)

section \<open>The wake-up time is exact\<close>

definition clocks_at :: "SimTime \<Rightarrow> 'a Class \<Rightarrow> bool" where
  "clocks_at now c = (\<forall>b. cl_shape c = Some b \<longrightarrow> tb_updated b \<le> now)"

lemma ready_class:
  assumes "class_inv c" "clocks_at now c" "cl_packets c = p # ps" "now \<le> u"
    and "(case cl_shape c of None \<Rightarrow> (Inr now, None)
          | Some b \<Rightarrow> let (r, b') = ready_at now (qd_bytes p) b in (r, Some b')) = (Inr t, b')"
  shows "eligible u (c\<lparr>cl_shape := b'\<rparr>) \<longleftrightarrow> t \<le> u"
proof (cases "cl_shape c")
  case None
  then show ?thesis using assms by (auto simp: eligible_def)
next
  case (Some b)
  then obtain b1 where b1: "ready_at now (qd_bytes p) b = (Inr t, b1)" "b' = Some b1"
    using assms(5) by (auto simp: Let_def split: prod.splits)
  have "qc_shape (cl_config c) = Some (tb_rate b)" using assms(1) Some by (auto simp: class_inv_def)
  then have "0 < rl_bits_per_second (tb_rate b)" "qd_bytes p \<le> unat (rl_burst_bytes (tb_rate b))"
    using assms(1,3) by (auto simp: class_inv_def)
  then have "fst (available u (qd_bytes p) b1) \<longleftrightarrow> t \<le> u"
    using assms(2,4) Some b1(1) by (intro ready_at_exact) (auto simp: clocks_at_def)
  then show ?thesis using assms(3) b1(2) by (simp add: eligible_def)
qed

lemma next_ready_exact:
  assumes "next_ready_loop now next cs = (Inr res, cs')" "\<forall>c\<in>set cs. class_inv c \<and> clocks_at now c" "now \<le> u"
  shows "(\<exists>t. next = Some t \<and> t \<le> u) \<or> (\<exists>c\<in>set cs'. eligible u c) \<longleftrightarrow> (\<exists>t. res = Some t \<and> t \<le> u)"
  using assms(1,2)
proof (induction cs arbitrary: "next" cs')
  case (Cons c cs)
  show ?case
  proof (cases "cl_packets c")
    case Nil
    then obtain cs1 where "next_ready_loop now next cs = (Inr res, cs1)" "cs' = c # cs1"
      using Cons.prems(1) by (auto split: prod.splits)
    moreover have "\<not> eligible u c" using Nil by (simp add: eligible_def)
    ultimately show ?thesis using Cons.IH [of "next" cs1] Cons.prems(2) by auto
  next
    case (Cons p ps)
    obtain r b' where rb: "(case cl_shape c of None \<Rightarrow> (Inr now, None)
        | Some b \<Rightarrow> let (r, b') = ready_at now (qd_bytes p) b in (r, Some b')) = (r, b')"
      by (metis surj_pair)
    then obtain t where r: "r = Inr t" using Cons.prems(1) Cons by (cases r) auto
    let ?next = "Some (case next of None \<Rightarrow> t | Some old \<Rightarrow> min old t)"
    obtain cs1 where rest: "next_ready_loop now ?next cs = (Inr res, cs1)" "cs' = c\<lparr>cl_shape := b'\<rparr> # cs1"
      using Cons.prems(1) Cons rb r by (auto simp: Let_def split: prod.splits)
    have "eligible u (c\<lparr>cl_shape := b'\<rparr>) \<longleftrightarrow> t \<le> u"
      using Cons.prems(2) Cons rb r assms(3) by (intro ready_class) auto
    moreover have "(\<exists>x. ?next = Some x \<and> x \<le> u) \<longleftrightarrow> (\<exists>x. next = Some x \<and> x \<le> u) \<or> t \<le> u"
      by (auto simp: min_le_iff_disj split: option.splits)
    ultimately show ?thesis using Cons.IH [OF rest(1)] Cons.prems(2) rest(2) by auto
  qed
qed auto

lemma dequeue_Some_iff:
  "(\<exists>d s'. QosScheduler_dequeue_ready now s = (Some d, s')) \<longleftrightarrow> (\<exists>c\<in>set (qs_classes s). eligible now c)"
proof -
  obtain d s' where d: "QosScheduler_dequeue_ready now s = (d, s')" by (metis surj_pair)
  then show ?thesis
  proof (cases rule: dequeue_cases)
    case none
    then show ?thesis using d by (auto simp: in_set_conv_nth)
  next
    case (some i c p rest)
    have "qs_classes s ! i \<in> set (qs_classes s)" using some(1) by simp
    then show ?thesis using d some(3,5) by blast
  qed
qed

lemma wakeup_exact:
  assumes "qos_inv s" "\<forall>c\<in>set (qs_classes s). clocks_at now c"
    and "QosScheduler_next_ready now s = (Inr res, s')" "now \<le> u"
  shows "(\<exists>d s''. QosScheduler_dequeue_ready u s' = (Some d, s'')) \<longleftrightarrow> (\<exists>t. res = Some t \<and> t \<le> u)"
proof -
  obtain cs' where "next_ready_loop now None (qs_classes s) = (Inr res, cs')" "qs_classes s' = cs'"
    using assms(3) by (auto simp: QosScheduler_next_ready_def split: prod.splits)
  then show ?thesis
    using next_ready_exact [of now None "qs_classes s" res cs' u] assms
    by (auto simp: dequeue_Some_iff qos_inv_def)
qed

section \<open>Properties\<close>

text \<open>A scheduler of two plain classes, and the same scheduler with one packet waiting in class 1.\<close>

definition sample_qos :: "nat QosScheduler" where
  "sample_qos = \<lparr>qs_classes = map (Class_new 0) [QueueClassConfig_default, QueueClassConfig_default],
     qs_capacity = 4, qs_length = 0, qs_virtual_time = 0\<rparr>"

definition busy_qos :: "nat QosScheduler" where
  "busy_qos = snd (QosScheduler_enqueue 1 0 42 100 0 sample_qos)"

lemma sample_qos_new: "QosScheduler_new [QueueClassConfig_default, QueueClassConfig_default] 4 0 = Inr sample_qos"
  by (simp add: QosScheduler_new_def sample_qos_def QueueClassConfig_default_def bad_class_def)

lemma busy_qos_reach: "qos_op\<^sup>*\<^sup>* sample_qos busy_qos"
  unfolding busy_qos_def by (rule r_into_rtranclp, rule qos_op.enqueue) (rule prod.collapse [symmetric])

lemma busy_qos_eq:
  "map cl_packets (qs_classes busy_qos) = [[], [\<lparr>qd_packet = 42, qd_bytes = 100, qd_finish = 100000000000000\<rparr>]]"
  "map cl_shape (qs_classes busy_qos) = [None, None]" "qs_length busy_qos = 1" "qs_capacity busy_qos = 4"
  by (simp_all add: busy_qos_def sample_qos_def QosScheduler_enqueue_def restart_if_empty_def QosScheduler_is_empty_def
      Class_new_def QueueClassConfig_default_def get_at_def admit_class_def count_matched_def throttled_def
      push_packet_def finish_tag_def div_ceil_def)

text \<open>
  C21. In every state a scheduler can reach from a valid configuration, the advertised length is
  the number of packets actually waiting, it never exceeds the capacity, the finish tags of every
  class are in order, and no shaped class holds a packet larger than its burst.
\<close>

theorem qos_reachable_inv:
  assumes "QosScheduler_new configs capacity now = Inr s0" "qos_op\<^sup>*\<^sup>* s0 s"
  shows "qs_length s = waiting s \<and> qs_length s \<le> qs_capacity s \<and> (\<forall>c\<in>set (qs_classes s). class_inv c)"
proof -
  have "qos_inv s" using assms qos_machine.reachable_inv by blast
  then show ?thesis by (simp add: qos_inv_def)
qed

theorem qos_reachable_inv_witness:
  "qs_length busy_qos = 1 \<and> waiting busy_qos = 1 \<and> list_all class_inv (qs_classes busy_qos)"
  using qos_reachable_inv [OF sample_qos_new busy_qos_reach] by (simp add: busy_qos_eq list_all_iff)

text \<open>The order of the classes spelled out: low latency first by index, then weighted by finish tag and index.\<close>

lemma class_key_le:
  "class_key i c p \<le> class_key j c' q \<longleftrightarrow>
     (if cl_priority c \<noteq> None then cl_priority c' \<noteq> None \<longrightarrow> i \<le> j
      else cl_priority c' = None \<and> (qd_finish p < qd_finish q \<or> qd_finish p = qd_finish q \<and> i \<le> j))"
  by (auto simp: class_key_def)

lemma dequeue_packets:
  assumes "i < length cs" "cl_packets c = rest"
  shows "map cl_packets ((map snd (map (visit now) (enumerate 0 cs)))[i := c]) = (map cl_packets cs)[i := rest]"
proof -
  have "map cl_packets (map snd (map (visit now) (enumerate 0 cs))) = map cl_packets cs"
    using visited_classes [of cs now 0] by (auto simp: list_all2_conv_all_nth refreshed_same intro!: nth_equalityI)
  then show ?thesis using assms by (simp only: map_update)
qed

text \<open>
  C23. A departure takes the head of its class and leaves every other queue as it is; the class is one whose
  shaper admits its head now. A departing low-latency class has the least index of the admitted low-latency
  classes. A weighted class departs only when no low-latency class is admitted, and its head has the least
  finish tag of the admitted weighted classes, with the least index among equal tags. Nothing is dequeued
  exactly when no head is admitted.
\<close>

theorem qos_departure_order:
  assumes "QosScheduler_dequeue_ready now s = (d, s')"
  shows "case d of
      None \<Rightarrow> \<forall>c\<in>set (qs_classes s). \<not> eligible now c
    | Some dep \<Rightarrow> \<exists>c p rest. de_class dep < length (qs_classes s) \<and> c = qs_classes s ! de_class dep \<and>
        eligible now c \<and> cl_packets c = p # rest \<and> de_packet dep = qd_packet p \<and> de_bytes dep = qd_bytes p \<and>
        map cl_packets (qs_classes s') = (map cl_packets (qs_classes s))[de_class dep := rest] \<and>
        (\<forall>j < length (qs_classes s). eligible now (qs_classes s ! j) \<longrightarrow>
           (if cl_priority c \<noteq> None then cl_priority (qs_classes s ! j) \<noteq> None \<longrightarrow> de_class dep \<le> j
            else cl_priority (qs_classes s ! j) = None \<and>
              (qd_finish p < qd_finish (hd (cl_packets (qs_classes s ! j))) \<or>
               qd_finish p = qd_finish (hd (cl_packets (qs_classes s ! j))) \<and> de_class dep \<le> j)))"
  using assms
proof (cases rule: dequeue_cases)
  case none
  then show ?thesis by (auto simp: in_set_conv_nth)
next
  case (some i c p rest)
  let ?c = "count_transmitted (qd_bytes p) (c\<lparr>cl_packets := rest, cl_shape := map_option (\<lambda>b. snd (take_tokens now (qd_bytes p) b)) (cl_shape c)\<rparr>)"
  have "qs_classes s' = (map snd (map (visit now) (enumerate 0 (qs_classes s))))[i := ?c]" unfolding some(7) by simp
  moreover have "cl_packets ?c = rest" by (simp add: count_transmitted_def)
  ultimately have left: "map cl_packets (qs_classes s') = (map cl_packets (qs_classes s))[i := rest]"
    using dequeue_packets [OF some(1), of ?c rest now] by metis
  have least: "\<forall>j < length (qs_classes s). eligible now (qs_classes s ! j) \<longrightarrow>
      (if cl_priority (qs_classes s ! i) \<noteq> None then cl_priority (qs_classes s ! j) \<noteq> None \<longrightarrow> i \<le> j
       else cl_priority (qs_classes s ! j) = None \<and>
         (qd_finish p < qd_finish (hd (cl_packets (qs_classes s ! j))) \<or>
          qd_finish p = qd_finish (hd (cl_packets (qs_classes s ! j))) \<and> i \<le> j))"
    using some(6) unfolding class_key_le .
  show ?thesis
    unfolding some(5) option.case QosDeparture.simps
    by (rule exI [of _ "qs_classes s ! i"], rule exI [of _ p], rule exI [of _ rest]) (intro conjI refl some(1, 3, 4) left least)
qed

lemmas qos_eval =
  busy_qos_def sample_qos_def QosScheduler_enqueue_def restart_if_empty_def QosScheduler_is_empty_def
  Class_new_def QueueClassConfig_default_def get_at_def admit_class_def count_matched_def throttled_def
  push_packet_def finish_tag_def div_ceil_def

theorem qos_departure_order_witness:
  "fst (QosScheduler_dequeue_ready 0 busy_qos) = Some \<lparr>de_class = 1, de_bytes = 100, de_packet = 42\<rparr> \<and>
   eligible 0 (qs_classes busy_qos ! 1)"
proof -
  have d: "fst (QosScheduler_dequeue_ready 0 busy_qos) = Some \<lparr>de_class = 1, de_bytes = 100, de_packet = 42\<rparr>"
    by (simp add: QosScheduler_dequeue_ready_def qos_eval visit_def class_key_def)
  then have "QosScheduler_dequeue_ready 0 busy_qos =
      (Some \<lparr>de_class = 1, de_bytes = 100, de_packet = 42\<rparr>, snd (QosScheduler_dequeue_ready 0 busy_qos))"
    by (metis prod.collapse)
  from qos_departure_order [OF this] d show ?thesis by simp
qed

text \<open>
  C22. The wake-up time is exact: with shaper clocks not ahead of \<open>now\<close>, the scheduler can release
  a packet at a later time \<open>u\<close> exactly when the reported time is at most \<open>u\<close>, and reports none
  exactly when nothing is waiting to become ready.
\<close>

theorem qos_wakeup_exact:
  assumes "qos_inv s" "\<forall>c\<in>set (qs_classes s). clocks_at now c"
    and "QosScheduler_next_ready now s = (Inr res, s')" "now \<le> u"
  shows "(\<exists>d s''. QosScheduler_dequeue_ready u s' = (Some d, s'')) \<longleftrightarrow> (\<exists>t. res = Some t \<and> t \<le> u)"
  using assms by (rule wakeup_exact)

theorem qos_wakeup_exact_witness:
  "\<exists>d s''. QosScheduler_dequeue_ready 5 (snd (QosScheduler_next_ready 0 busy_qos)) = (Some d, s'')"
proof -
  have "fst (QosScheduler_next_ready 0 busy_qos) = Inr (Some 0)"
    by (simp add: QosScheduler_next_ready_def qos_eval)
  then have n: "QosScheduler_next_ready 0 busy_qos = (Inr (Some 0), snd (QosScheduler_next_ready 0 busy_qos))"
    by (metis prod.collapse)
  have "\<forall>c\<in>set (qs_classes busy_qos). cl_shape c = None"
    using busy_qos_eq(2) by (auto simp: map_eq_Cons_conv)
  then have clocks: "\<forall>c\<in>set (qs_classes busy_qos). clocks_at 0 c" by (simp add: clocks_at_def)
  have "qos_inv busy_qos" using busy_qos_reach qos_machine.reachable_inv sample_qos_new by blast
  from qos_wakeup_exact [OF this clocks n, of 5] show ?thesis by simp
qed

end
