(* ===== verification/Sim_Link.thy ===== *)
theory Sim_Link
  imports Sim_Queue
begin

text \<open>
  The crate \<open>rios-simulator\<close>, part two: link rates, the link policy, and the transmitter of one
  direction of a cable (\<open>link.rs\<close>). Intermediate \<open>u128\<close> values are natural numbers: the
  largest, \<open>usize::MAX * 8000000\<close>, is below \<open>2 ^ 128\<close>.
\<close>

section \<open>Policy\<close>

datatype Bandwidth = Bandwidth u64

fun bits_per_second :: "Bandwidth \<Rightarrow> u64" where
  "bits_per_second (Bandwidth r) = r"

definition Bandwidth_new :: "u64 \<Rightarrow> Bandwidth option" where
  "Bandwidth_new r = (if r = 0 then None else Some (Bandwidth r))"

definition serialization_us :: "Bandwidth \<Rightarrow> nat \<Rightarrow> ScheduleError + u64" where
  "serialization_us rate n =
     (let duration = div_ceil (n * 8 * 1000000) (unat (bits_per_second rate))
      in if duration < 2 ^ 64 then Inr (of_nat duration) else Inl Overflow)"

record LinkConfig =
  lc_bandwidth :: "Bandwidth option"
  lc_delay_us :: u64
  lc_jitter_us :: u64
  lc_loss_ppm :: u32
  lc_queue_packets :: nat

definition LinkConfig_default :: LinkConfig where
  "LinkConfig_default =
     \<lparr>lc_bandwidth = None, lc_delay_us = 1000, lc_jitter_us = 0, lc_loss_ppm = 0, lc_queue_packets = 100\<rparr>"

datatype LinkConfigError = LossRange | QueueRange | JitterRange

definition LinkConfig_validate :: "LinkConfig \<Rightarrow> LinkConfigError + unit" where
  "LinkConfig_validate c =
     (if 1000000 < lc_loss_ppm c then Inl LossRange
      else if lc_queue_packets c = 0 \<or> 1000000 < lc_queue_packets c then Inl QueueRange
      else if (2 ^ 64 - 1 - 1) div 2 < unat (lc_jitter_us c) then Inl JitterRange
      else Inr ())"

section \<open>The transmitter\<close>

record LinkCounters =
  ct_tx_packets :: u64
  ct_tx_bytes :: u64
  ct_rx_packets :: u64
  ct_rx_bytes :: u64
  ct_queue_drops :: u64
  ct_loss_drops :: u64
  ct_changed_drops :: u64

record DirectionalLinkRuntime =
  dl_finishes :: "SimTime list"
  dl_last_arrival :: SimTime
  dl_counters :: LinkCounters

definition LinkCounters_default :: LinkCounters where
  "LinkCounters_default = \<lparr>ct_tx_packets = 0, ct_tx_bytes = 0, ct_rx_packets = 0, ct_rx_bytes = 0,
     ct_queue_drops = 0, ct_loss_drops = 0, ct_changed_drops = 0\<rparr>"

definition DirectionalLinkRuntime_default :: DirectionalLinkRuntime where
  "DirectionalLinkRuntime_default =
     \<lparr>dl_finishes = [], dl_last_arrival = 0, dl_counters = LinkCounters_default\<rparr>"

datatype Admission = Full | Scheduled SimTime bool

definition back_or :: "SimTime \<Rightarrow> SimTime list \<Rightarrow> SimTime" where
  "back_or now fs = (if fs = [] then now else last fs)"

definition available_at :: "DirectionalLinkRuntime \<Rightarrow> SimTime \<Rightarrow> SimTime" where
  "available_at r now = max (back_or now (dl_finishes r)) now"

definition queued :: "DirectionalLinkRuntime \<Rightarrow> SimTime \<Rightarrow> nat" where
  "queued r now = length (filter (\<lambda>finish. now < finish) (dl_finishes r))"

definition reset :: "DirectionalLinkRuntime \<Rightarrow> DirectionalLinkRuntime" where
  "reset r = r\<lparr>dl_finishes := [], dl_last_arrival := 0\<rparr>"

definition admit ::
  "LinkConfig \<Rightarrow> SimTime \<Rightarrow> nat \<Rightarrow> u64 \<Rightarrow> u64 \<Rightarrow> DirectionalLinkRuntime \<Rightarrow>
     (ScheduleError + Admission) \<times> DirectionalLinkRuntime" where
  "admit config now n jitter_sample loss_sample r0 =
     (let r = r0\<lparr>dl_finishes := dropWhile (\<lambda>finish. finish \<le> now) (dl_finishes r0)\<rparr>
      in if lc_queue_packets config \<le> length (dl_finishes r) then
           (Inr Full, r\<lparr>dl_counters := (dl_counters r)\<lparr>ct_queue_drops :=
              saturating_add (ct_queue_drops (dl_counters r)) 1\<rparr>\<rparr>)
         else let start = max (back_or now (dl_finishes r)) now
         in case (case lc_bandwidth config of None \<Rightarrow> Inr 0 | Some rate \<Rightarrow> serialization_us rate n) of
              Inl e \<Rightarrow> (Inl e, r)
            | Inr serialization \<Rightarrow>
                (case checked_add start serialization of
                   None \<Rightarrow> (Inl Overflow, r)
                 | Some finish \<Rightarrow>
                     let jitter = jitter_sample mod (lc_jitter_us config * 2 + 1);
                         propagation = (unat (lc_delay_us config) + unat jitter) - unat (lc_jitter_us config)
                     in if 2 ^ 64 \<le> unat finish + propagation then (Inl Overflow, r)
                        else let arrival = max (of_nat (unat finish + propagation)) (dl_last_arrival r)
                        in (Inr (Scheduled arrival (loss_sample mod 1000000 < ucast (lc_loss_ppm config))),
                            r\<lparr>dl_finishes := dl_finishes r @ [finish], dl_last_arrival := arrival,
                              dl_counters := (dl_counters r)\<lparr>
                                ct_tx_packets := saturating_add (ct_tx_packets (dl_counters r)) 1,
                                ct_tx_bytes := saturating_add (ct_tx_bytes (dl_counters r)) (of_nat n)\<rparr>\<rparr>)))"

section \<open>The random stream\<close>

text \<open>SplitMix64: the state and the sample it yields.\<close>

definition SimulationRng_sample :: "u64 \<Rightarrow> u64 \<times> u64" where
  "SimulationRng_sample s =
     (let s' = s + 0x9e3779b97f4a7c15;
          v1 = (s' XOR drop_bit 30 s') * 0xbf58476d1ce4e5b9;
          v2 = (v1 XOR drop_bit 27 v1) * 0x94d049bb133111eb
      in (v2 XOR drop_bit 31 v2, s'))"

section \<open>One admission\<close>

lemma serialization_bounds:
  assumes "serialization_us rate n = Inr d" "bits_per_second rate \<noteq> 0"
  shows "n * 8000000 \<le> unat d * unat (bits_per_second rate)"
    and "unat d * unat (bits_per_second rate) < n * 8000000 + unat (bits_per_second rate)"
proof -
  let ?r = "unat (bits_per_second rate)"
  have r: "0 < ?r" using assms(2) by (simp add: unat_gt_0)
  have "unat d = div_ceil (n * 8000000) ?r"
    using assms(1) by (auto simp: serialization_us_def Let_def unat_of_nat mult.assoc split: if_splits)
  then show "n * 8000000 \<le> unat d * ?r" "unat d * ?r < n * 8000000 + ?r"
    using div_ceil_bounds [OF r, of "n * 8000000"] by simp_all
qed

lemma unat_max: "unat (max a b) = max (unat a) (unat b)" for a b :: "'a::len word"
  by (simp add: max_def word_le_nat_alt)

lemma admit_finishes:
  assumes "admit config now n js ls r = (res, r')"
  shows "dl_finishes r' = dropWhile (\<lambda>f. f \<le> now) (dl_finishes r) \<or>
    length (dropWhile (\<lambda>f. f \<le> now) (dl_finishes r)) < lc_queue_packets config \<and>
    (\<exists>f. dl_finishes r' = dropWhile (\<lambda>f. f \<le> now) (dl_finishes r) @ [f] \<and>
      back_or now (dropWhile (\<lambda>f. f \<le> now) (dl_finishes r)) \<le> f \<and> now \<le> f)"
  using assms
  by (auto simp: admit_def Let_def checked_add_Some unat_max word_le_nat_alt split: if_splits sum.splits option.splits)

lemma admit_Scheduled:
  assumes "admit config now n js ls r = (Inr (Scheduled arrival lost), r')"
  obtains serialization finish where
    "(case lc_bandwidth config of None \<Rightarrow> Inr 0 | Some rate \<Rightarrow> serialization_us rate n) = Inr serialization"
    "dl_finishes r' = dropWhile (\<lambda>f. f \<le> now) (dl_finishes r) @ [finish]"
    "unat finish = max (unat (back_or now (dropWhile (\<lambda>f. f \<le> now) (dl_finishes r)))) (unat now) + unat serialization"
    "finish \<le> arrival" "dl_last_arrival r \<le> arrival" "dl_last_arrival r' = arrival"
proof -
  let ?fs = "dropWhile (\<lambda>f. f \<le> now) (dl_finishes r)"
  obtain serialization where s:
    "(case lc_bandwidth config of None \<Rightarrow> Inr 0 | Some rate \<Rightarrow> serialization_us rate n) = Inr serialization"
    using assms by (auto simp: admit_def Let_def split: if_splits sum.splits)
  obtain finish where f: "checked_add (max (back_or now ?fs) now) serialization = Some finish"
    using assms s by (auto simp: admit_def Let_def split: if_splits option.splits)
  define p where "p = unat (lc_delay_us config) + unat (js mod (lc_jitter_us config * 2 + 1)) - unat (lc_jitter_us config)"
  have rest: "\<not> 2 ^ 64 \<le> unat finish + p" "arrival = max (of_nat (unat finish + p)) (dl_last_arrival r)"
    "dl_finishes r' = ?fs @ [finish]" "dl_last_arrival r' = arrival"
    using assms s f by (auto simp: admit_def Let_def p_def split: if_splits)
  have "finish \<le> of_nat (unat finish + p)"
    using rest(1) by (simp add: word_le_nat_alt unat_of_nat del: of_nat_add)
  then have "finish \<le> arrival" "dl_last_arrival r \<le> arrival" by (simp_all add: rest(2) max.coboundedI1 del: of_nat_add)
  moreover have "unat finish = max (unat (back_or now ?fs)) (unat now) + unat serialization"
    using f by (simp add: checked_add_Some unat_max)
  ultimately show thesis using that [OF s rest(3)] rest(4) by simp
qed

section \<open>Invariant\<close>

text \<open>Reservations are in FIFO order and never outnumber the configured queue.\<close>

definition link_inv :: "LinkConfig \<Rightarrow> DirectionalLinkRuntime \<Rightarrow> bool" where
  "link_inv config r = (sorted (dl_finishes r) \<and> length (dl_finishes r) \<le> lc_queue_packets config)"

inductive link_op :: "LinkConfig \<Rightarrow> DirectionalLinkRuntime \<Rightarrow> DirectionalLinkRuntime \<Rightarrow> bool" for config where
  admit: "admit config now n js ls r = (res, r') \<Longrightarrow> link_op config r r'"
| reset: "link_op config r (reset r)"

lemma sorted_append_last: "sorted fs \<Longrightarrow> fs = [] \<or> last fs \<le> x \<Longrightarrow> sorted (fs @ [x])"
proof (induction fs)
  case (Cons a fs)
  show ?case
  proof (cases "fs = []")
    case True
    then show ?thesis using Cons.prems by simp
  next
    case False
    then have "a \<le> last fs" "last fs \<le> x" "sorted (fs @ [x])" using Cons by auto
    then show ?thesis using Cons.prems by auto
  qed
qed simp

lemma link_op_inv: "link_inv config r \<Longrightarrow> link_op config r r' \<Longrightarrow> link_inv config r'"
proof (erule link_op.cases)
  fix now n js ls q q' res
  assume inv: "link_inv config r" and eq: "r = q" "r' = q'" and adm: "admit config now n js ls q = (res, q')"
  let ?fs = "dropWhile (\<lambda>f. f \<le> now) (dl_finishes q)"
  have fs: "sorted ?fs" "length ?fs \<le> lc_queue_packets config"
    using inv length_dropWhile_le [of "\<lambda>f. f \<le> now" "dl_finishes q"]
    by (auto simp: link_inv_def eq sorted_dropWhile)
  from admit_finishes [OF adm] show "link_inv config r'"
  proof
    assume "dl_finishes q' = ?fs"
    then show ?thesis using fs by (simp add: link_inv_def eq)
  next
    assume "length ?fs < lc_queue_packets config \<and>
      (\<exists>f. dl_finishes q' = ?fs @ [f] \<and> back_or now ?fs \<le> f \<and> now \<le> f)"
    then obtain f where "length ?fs < lc_queue_packets config" "dl_finishes q' = ?fs @ [f]" "?fs = [] \<or> last ?fs \<le> f"
      by (auto simp: back_or_def split: if_splits)
    then show ?thesis using fs sorted_append_last [of ?fs f] by (simp add: link_inv_def eq)
  qed
qed (simp add: link_inv_def reset_def)

interpretation link_machine: invariant_system "\<lambda>r. r = DirectionalLinkRuntime_default" "link_op config" "link_inv config"
  for config
proof unfold_locales
  show "link_inv config r" if "r = DirectionalLinkRuntime_default" for r
    using that by (simp add: link_inv_def DirectionalLinkRuntime_default_def)
qed (rule link_op_inv)

lemma queued_available:
  assumes "link_inv config r"
  shows "queued r now \<le> lc_queue_packets config"
  using assms length_filter_le [of "\<lambda>f. now < f" "dl_finishes r"] unfolding link_inv_def queued_def by linarith

section \<open>Runs of one transmitter\<close>

text \<open>A run of offered frames \<open>(now, bytes, jitter_sample, loss_sample)\<close> and the frames it scheduled.\<close>

fun admit_all ::
  "LinkConfig \<Rightarrow> DirectionalLinkRuntime \<Rightarrow> (SimTime \<times> nat \<times> u64 \<times> u64) list \<Rightarrow>
     (nat \<times> SimTime) list \<times> DirectionalLinkRuntime" where
  "admit_all config r [] = ([], r)"
| "admit_all config r ((now, n, js, ls) # ops) =
     (case admit config now n js ls r of
        (Inr (Scheduled arrival lost), r') \<Rightarrow>
          (let (out, r'') = admit_all config r' ops in ((n, arrival) # out, r''))
      | (_, r') \<Rightarrow> admit_all config r' ops)"

lemma admit_other:
  assumes "admit config now n js ls r = (res, r')" "\<And>a l. res \<noteq> Inr (Scheduled a l)"
  shows "dl_finishes r' = dropWhile (\<lambda>f. f \<le> now) (dl_finishes r)" "dl_last_arrival r' = dl_last_arrival r"
  using assms by (auto simp: admit_def Let_def split: if_splits sum.splits option.splits)

lemma admit_all_step:
  assumes "admit_all config r ((now, n, js, ls) # ops) = (out, r'')"
  obtains (scheduled) arrival lost r' out' where
    "admit config now n js ls r = (Inr (Scheduled arrival lost), r')"
    "admit_all config r' ops = (out', r'')" "out = (n, arrival) # out'"
  | (other) res r' where
    "admit config now n js ls r = (res, r')" "\<And>a l. res \<noteq> Inr (Scheduled a l)"
    "admit_all config r' ops = (out, r'')"
  using assms by (auto split: prod.splits sum.splits Admission.splits)

text \<open>Frames arrive in the order they were admitted.\<close>

lemma arrivals_fifo:
  assumes "admit_all config r ops = (out, r'')"
  shows "sorted (dl_last_arrival r # map snd out)"
  using assms
proof (induction ops arbitrary: r out)
  case (Cons op ops)
  obtain now n js ls where op: "op = (now, n, js, ls)" by (cases op)
  from Cons.prems [unfolded op] show ?case
  proof (cases rule: admit_all_step)
    case (scheduled arrival lost r' out')
    then show ?thesis using Cons.IH [OF scheduled(2)] by (auto elim!: admit_Scheduled)
  next
    case (other res r')
    then show ?thesis using Cons.IH [OF other(3)] admit_other(2) [OF other(1,2)] by simp
  qed
qed simp

text \<open>
  A transmitter offered frames at non-decreasing times never beats its rate: the bits of all
  scheduled frames fit between the first offer and the last arrival.
\<close>

definition last_finish_ok :: "nat \<Rightarrow> SimTime list \<Rightarrow> SimTime \<Rightarrow> bool" where
  "last_finish_ok L fs t = (if fs = [] then L \<le> unat t else L \<le> unat (last fs))"

lemma last_finish_ok_drop:
  assumes "last_finish_ok L fs t" "t \<le> now"
  shows "L \<le> max (unat (back_or now (dropWhile (\<lambda>f. f \<le> now) fs))) (unat now)"
    and "last_finish_ok L (dropWhile (\<lambda>f. f \<le> now) fs) now"
proof -
  have "last_finish_ok L (dropWhile (\<lambda>f. f \<le> now) fs) now"
  proof (cases "dropWhile (\<lambda>f. f \<le> now) fs = []")
    case True
    then have "\<forall>f\<in>set fs. f \<le> now" by (simp add: dropWhile_eq_Nil_conv)
    then have "fs \<noteq> [] \<Longrightarrow> unat (last fs) \<le> unat now" by (simp add: word_le_nat_alt)
    moreover have "unat t \<le> unat now" using assms(2) by (simp add: word_le_nat_alt)
    ultimately have "L \<le> unat now"
      using assms(1) unfolding last_finish_ok_def by (cases "fs = []") (metis order_trans)+
    then show ?thesis using True by (simp add: last_finish_ok_def)
  next
    case False
    then have "last (dropWhile (\<lambda>f. f \<le> now) fs) = last fs" by (metis last_appendR takeWhile_dropWhile_id)
    moreover have "fs \<noteq> []" using False by auto
    ultimately show ?thesis using False assms(1) unfolding last_finish_ok_def by presburger
  qed
  then show "last_finish_ok L (dropWhile (\<lambda>f. f \<le> now) fs) now"
    "L \<le> max (unat (back_or now (dropWhile (\<lambda>f. f \<le> now) fs))) (unat now)"
    by (auto simp: last_finish_ok_def back_or_def split: if_splits)
qed

lemma rate_run:
  assumes "admit_all config r ops = (out, r'')" "lc_bandwidth config = Some rate" "bits_per_second rate \<noteq> 0"
    and "sorted (t # map fst ops)" "last_finish_ok L (dl_finishes r) t" "L \<le> unat (dl_last_arrival r)"
  shows "(\<Sum>(n, _)\<leftarrow>out. n * 8000000) + L * unat (bits_per_second rate)
    \<le> unat (dl_last_arrival r'') * unat (bits_per_second rate)"
  using assms(1,4-)
proof (induction ops arbitrary: r out t L)
  case (Cons op ops)
  obtain now n js ls where op: "op = (now, n, js, ls)" by (cases op)
  have t: "t \<le> now" "sorted (now # map fst ops)" using Cons.prems(2) by (auto simp: op)
  note drop = last_finish_ok_drop [OF Cons.prems(3) t(1)]
  from Cons.prems(1) [unfolded op] show ?case
  proof (cases rule: admit_all_step)
    case (scheduled arrival lost r' out')
    from scheduled(1) obtain d f where adm: "serialization_us rate n = Inr d"
      "dl_finishes r' = dropWhile (\<lambda>f. f \<le> now) (dl_finishes r) @ [f]"
      "unat f = max (unat (back_or now (dropWhile (\<lambda>f. f \<le> now) (dl_finishes r)))) (unat now) + unat d"
      "f \<le> arrival" "dl_last_arrival r' = arrival"
      by (rule admit_Scheduled) (simp add: assms(2))
    have "L + unat d \<le> unat f" using drop(1) adm(3) by linarith
    then have "(L + unat d) * unat (bits_per_second rate) \<le> unat f * unat (bits_per_second rate)"
      by (rule mult_le_mono1)
    moreover have "(\<Sum>(n, _)\<leftarrow>out'. n * 8000000) + unat f * unat (bits_per_second rate)
        \<le> unat (dl_last_arrival r'') * unat (bits_per_second rate)"
      using adm by (intro Cons.IH [OF scheduled(2) t(2)]) (simp_all add: last_finish_ok_def word_le_nat_alt)
    moreover have "n * 8000000 \<le> unat d * unat (bits_per_second rate)"
      by (rule serialization_bounds(1) [OF adm(1) assms(3)])
    ultimately show ?thesis unfolding scheduled(3) by (simp add: algebra_simps)
  next
    case (other res r')
    note same = admit_other [OF other(1,2)]
    show ?thesis
      using drop(2) Cons.prems(4) by (intro Cons.IH [OF other(3) t(2)]) (simp_all add: same)
  qed
qed (simp add: mult_le_mono1)

section \<open>Properties\<close>

text \<open>
  C24. A directional link is a FIFO pipe of bounded rate. Over any run of \<open>admit\<close> calls in time
  order, arrivals are delivered in the order of admission whatever jitter was sampled, and the
  bits carried until the last arrival never exceed the bandwidth times that arrival time.
\<close>

theorem link_fifo_rate:
  assumes "admit_all config DirectionalLinkRuntime_default ops = (out, r)" "sorted (map fst ops)"
    and "lc_bandwidth config = Some rate" "bits_per_second rate \<noteq> 0"
  shows "sorted (map snd out) \<and>
    (\<Sum>(n, _)\<leftarrow>out. n * 8000000) \<le> unat (dl_last_arrival r) * unat (bits_per_second rate)"
proof
  show "sorted (map snd out)" using arrivals_fifo [OF assms(1)] by simp
  show "(\<Sum>(n, _)\<leftarrow>out. n * 8000000) \<le> unat (dl_last_arrival r) * unat (bits_per_second rate)"
    using rate_run [OF assms(1,3,4), of 0 0] assms(2)
    by (simp add: last_finish_ok_def DirectionalLinkRuntime_default_def)
qed

text \<open>Two 1000-byte packets on a 1 Mbit/s link whose second jitter sample is the smaller one.\<close>

definition sample_link :: LinkConfig where
  "sample_link = LinkConfig_default\<lparr>lc_bandwidth := Some (Bandwidth 1000000), lc_jitter_us := 500\<rparr>"

theorem link_fifo_rate_witness:
  "fst (admit_all sample_link DirectionalLinkRuntime_default [(0, 1000, 1000, 7), (10, 1000, 0, 7)]) =
     [(1000, 9500), (1000, 16500)] \<and>
   sorted (map snd [(1000::nat, 9500::SimTime), (1000, 16500)]) \<and> (2000 * 8000000 \<le> 16500 * (1000000::nat))"
proof -
  let ?ops = "[(0, 1000, 1000, 7), (10, 1000, 0, 7)] :: (SimTime \<times> nat \<times> u64 \<times> u64) list"
  let ?out = "[(1000, 9500), (1000, 16500)] :: (nat \<times> SimTime) list"
  let ?r = "snd (admit_all sample_link DirectionalLinkRuntime_default ?ops)"
  have run: "fst (admit_all sample_link DirectionalLinkRuntime_default ?ops) = ?out \<and> dl_last_arrival ?r = 16500"
    by (simp add: sample_link_def LinkConfig_default_def DirectionalLinkRuntime_default_def admit_def Let_def back_or_def
        serialization_us_def div_ceil_def checked_add_def max_def LinkCounters_default_def)
  then have "admit_all sample_link DirectionalLinkRuntime_default ?ops = (?out, ?r)" by (metis prod.collapse)
  from link_fifo_rate [OF this, of "Bandwidth 1000000"] run show ?thesis
    by (simp add: sample_link_def LinkConfig_default_def)
qed

text \<open>The transmit queue of a link never holds more packets than its configuration admits, in any state
  that admissions and resets can reach, and its finish times are in order.\<close>

theorem link_queue_bounded:
  assumes "(link_op config)\<^sup>*\<^sup>* DirectionalLinkRuntime_default r"
  shows "queued r now \<le> lc_queue_packets config \<and> sorted (dl_finishes r)"
proof -
  have "link_inv config r" using assms link_machine.reachable_inv by blast
  then show ?thesis using queued_available by (auto simp: link_inv_def)
qed

theorem link_queue_bounded_witness:
  "queued (reset DirectionalLinkRuntime_default) 0 \<le> lc_queue_packets sample_link \<and>
   sorted (dl_finishes (reset DirectionalLinkRuntime_default))"
  by (rule link_queue_bounded) (rule r_into_rtranclp, rule link_op.reset)

end
