(* ===== verification/Codec.thy ===== *)
theory Codec
  imports Prelude
begin

text \<open>
  Interfaces of the wire formats. \<open>fixed_codec\<close> is the contract of a fixed-width field, such
  as an address or a 20-byte header, of which a packet carries a run; \<open>wire_codec\<close> is the
  contract of a message with a fallible encoder and decoder; \<open>codec_stack\<close> combines an
  envelope with the message it carries. The codecs of the later theories interpret them.
\<close>

section \<open>Runs of fixed-width fields\<close>

locale fixed_codec =
  fixes enc :: "'a \<Rightarrow> 'b list" and dec :: "'b list \<Rightarrow> 'a" and width :: nat
  assumes width_pos: "0 < width"
    and enc_length: "length (enc x) = width"
    and dec_enc: "dec (enc x) = x"
begin

lemma chunks_run: "as_chunks width (concat (map enc xs)) = map enc xs"
  by (rule as_chunks_concat) (auto simp: width_pos enc_length)

lemma decode_run: "map dec (as_chunks width (concat (map enc xs))) = xs"
  by (simp add: chunks_run comp_def dec_enc)

lemma length_run: "length (concat (map enc xs)) = width * length xs"
  by (rule concat_map_length) (simp add: enc_length)

lemma run_inj: "concat (map enc xs) = concat (map enc ys) \<Longrightarrow> xs = ys"
  by (metis decode_run)

lemma enc_inj: "enc x = enc y \<Longrightarrow> x = y"
  by (metis dec_enc)

end

text \<open>A fixed-width field whose decoder validates.\<close>

locale checked_fixed_codec =
  fixes enc :: "'a \<Rightarrow> 'b list" and dec :: "'b list \<Rightarrow> 'e + 'a" and width :: nat
    and valid :: "'a \<Rightarrow> bool"
  assumes width_pos: "0 < width"
    and enc_length: "length (enc x) = width"
    and dec_enc: "valid x \<Longrightarrow> dec (enc x) = Inr x"
begin

lemma chunks_run: "as_chunks width (concat (map enc xs)) = map enc xs"
  by (rule as_chunks_concat) (auto simp: width_pos enc_length)

lemma length_run: "length (concat (map enc xs)) = width * length xs"
  by (rule concat_map_length) (simp add: enc_length)

lemma decode_run:
  assumes "\<forall>x\<in>set xs. valid x"
  shows "collect_results (map dec (as_chunks width (concat (map enc xs)))) = Inr xs"
proof -
  have "map (dec \<circ> enc) xs = map Inr xs"
    using assms by (simp add: dec_enc)
  then show ?thesis by (simp only: chunks_run map_map collect_results_map_Inr)
qed

end

section \<open>Messages\<close>

locale wire_codec =
  fixes encode :: "'a \<Rightarrow> 'e + bytes" and decode :: "bytes \<Rightarrow> 'f + 'a" and valid :: "'a \<Rightarrow> bool"
  assumes encode_total: "valid x \<Longrightarrow> \<exists>bs. encode x = Inr bs"
    and decode_encode: "valid x \<Longrightarrow> encode x = Inr bs \<Longrightarrow> decode bs = Inr x"
begin

lemma round_trip: "valid x \<Longrightarrow> \<exists>bs. encode x = Inr bs \<and> decode bs = Inr x"
  using encode_total decode_encode by blast

lemma encode_inj:
  "valid x \<Longrightarrow> valid y \<Longrightarrow> encode x = Inr bs \<Longrightarrow> encode y = Inr bs \<Longrightarrow> x = y"
  by (metis decode_encode sum.inject(2))

end

text \<open>
  An inner message carried as the payload of an outer one: \<open>wrap\<close> builds the envelope,
  \<open>payload\<close> reads it back.
\<close>

locale codec_stack =
  outer: wire_codec o_encode o_decode o_valid + inner: wire_codec i_encode i_decode i_valid
  for o_encode :: "'a \<Rightarrow> 'e + bytes" and o_decode :: "bytes \<Rightarrow> 'f + 'a" and o_valid :: "'a \<Rightarrow> bool"
    and i_encode :: "'b \<Rightarrow> 'g + bytes" and i_decode :: "bytes \<Rightarrow> 'h + 'b" and i_valid :: "'b \<Rightarrow> bool" +
  fixes wrap :: "'c \<Rightarrow> bytes \<Rightarrow> 'a" and payload :: "'a \<Rightarrow> bytes" and fits :: "'c \<Rightarrow> 'b \<Rightarrow> bool"
  assumes payload_wrap: "payload (wrap h p) = p"
    and wrap_valid: "fits h x \<Longrightarrow> i_encode x = Inr p \<Longrightarrow> o_valid (wrap h p)"
begin

lemma delivers:
  assumes "i_valid x" "fits h x"
  shows "\<exists>p w f. i_encode x = Inr p \<and> o_encode (wrap h p) = Inr w \<and>
    o_decode w = Inr f \<and> i_decode (payload f) = Inr x"
proof -
  obtain p where p: "i_encode x = Inr p" "i_decode p = Inr x"
    using inner.round_trip [OF assms(1)] by blast
  obtain w where "o_encode (wrap h p) = Inr w" "o_decode w = Inr (wrap h p)"
    using outer.round_trip [OF wrap_valid [OF assms(2) p(1)]] by blast
  with p show ?thesis by (simp add: payload_wrap)
qed

end

section \<open>IPv4 addresses on the wire\<close>

text \<open>\<open>Ipv4Addr::octets\<close> and \<open>Ipv4Addr::new\<close>: an address is its 32-bit value.\<close>

definition octets :: "ipv4 \<Rightarrow> bytes" where
  "octets a = u32_be a"

definition ip_of :: "bytes \<Rightarrow> ipv4" where
  "ip_of b = u32_at b 0"

definition is_unspecified :: "ipv4 \<Rightarrow> bool" where
  "is_unspecified a = (a = 0)"

definition is_multicast :: "ipv4 \<Rightarrow> bool" where
  "is_multicast a = (drop_bit 28 a = 14)"

definition is_broadcast :: "ipv4 \<Rightarrow> bool" where
  "is_broadcast a = (a = - 1)"

lemma length_octets [simp]: "length (octets a) = 4"
  by (simp add: octets_def)

lemma ip_of_octets [simp]: "ip_of (octets a) = a" "ip_of (octets a @ r) = a"
  by (simp_all add: octets_def ip_of_def)

lemma u32_at_octets [simp]: "u32_at (octets a) 0 = a" "u32_at (octets a @ r) 0 = a"
  by (simp_all add: octets_def)

interpretation ip_run: fixed_codec octets ip_of 4
  by unfold_locales simp_all

interpretation u32_run: fixed_codec u32_be "\<lambda>b. u32_at b 0" 4
  by unfold_locales simp_all

interpretation u16_run: fixed_codec u16_be "\<lambda>b. u16_at b 0" 2
  by unfold_locales simp_all

end
