(* ===== verification/Ethernet.thy ===== *)
theory Ethernet
  imports Codec
begin

text \<open>
  The crate \<open>rios-ethernet\<close>: MAC addresses with their textual form, VLAN identifiers, Ethernet
  II and IEEE 802.3 frames, and single 802.1Q tags.
\<close>

section \<open>Addresses and VLAN identifiers\<close>

datatype MacAddress = MacAddress u8 u8 u8 u8 u8 u8

fun Mac_octets :: "MacAddress \<Rightarrow> bytes" where
  "Mac_octets (MacAddress a b c d e f) = [a, b, c, d, e, f]"

definition Mac_of :: "bytes \<Rightarrow> MacAddress" where
  "Mac_of b = MacAddress (b ! 0) (b ! 1) (b ! 2) (b ! 3) (b ! 4) (b ! 5)"

definition MacAddress_BROADCAST :: MacAddress where
  "MacAddress_BROADCAST = MacAddress 0xff 0xff 0xff 0xff 0xff 0xff"

definition MacAddress_is_multicast :: "MacAddress \<Rightarrow> bool" where
  "MacAddress_is_multicast m = (Mac_octets m ! 0 AND 1 \<noteq> 0)"

datatype VlanId = VlanId (VlanId_get: u16)

datatype InvalidVlanId = InvalidVlanId

definition VlanId_DEFAULT :: VlanId where
  "VlanId_DEFAULT = VlanId 1"

definition VlanId_new :: "u16 \<Rightarrow> InvalidVlanId + VlanId" where
  "VlanId_new v = (if 1 \<le> v \<and> v \<le> 4094 then Inr (VlanId v) else Inl InvalidVlanId)"

section \<open>Textual form of a MAC address\<close>

datatype InvalidMacAddress = InvalidMacAddress

definition hex_digits :: string where
  "hex_digits = ''0123456789abcdef''"

fun find_index :: "nat \<Rightarrow> 'a \<Rightarrow> 'a list \<Rightarrow> nat option" where
  "find_index i c [] = None"
| "find_index i c (x # xs) = (if x = c then Some i else find_index (Suc i) c xs)"

definition hex_value :: "char \<Rightarrow> nat option" where
  "hex_value c =
     (case find_index 0 c ''0123456789abcdef'' of Some n \<Rightarrow> Some n
      | None \<Rightarrow> find_index 10 c ''ABCDEF'')"

definition is_ascii_hexdigit :: "char \<Rightarrow> bool" where
  "is_ascii_hexdigit c = (hex_value c \<noteq> None)"

fun from_str_radix16 :: "string \<Rightarrow> u8 option" where
  "from_str_radix16 [a, b] =
     (case (hex_value a, hex_value b) of
        (Some x, Some y) \<Rightarrow> Some (of_nat (16 * x + y)) | _ \<Rightarrow> None)"
| "from_str_radix16 _ = None"

definition mac_part :: "string \<Rightarrow> InvalidMacAddress + u8" where
  "mac_part part =
     (if length part \<noteq> 2 \<or> \<not> list_all is_ascii_hexdigit part then Inl InvalidMacAddress
      else ok_or InvalidMacAddress (from_str_radix16 part))"

definition MacAddress_from_str :: "string \<Rightarrow> InvalidMacAddress + MacAddress" where
  "MacAddress_from_str s =
     (let parts = split_on CHR '':'' s
      in if length parts \<noteq> 6 then Inl InvalidMacAddress
         else and_then (collect_results (map mac_part parts)) (\<lambda>b. Inr (Mac_of b)))"

definition hex2 :: "u8 \<Rightarrow> string" where
  "hex2 b = [hex_digits ! (unat b div 16), hex_digits ! (unat b mod 16)]"

definition MacAddress_display :: "MacAddress \<Rightarrow> string" where
  "MacAddress_display m =
     (let b = Mac_octets m
      in hex2 (b ! 0) @ '':'' @ hex2 (b ! 1) @ '':'' @ hex2 (b ! 2) @ '':'' @
         hex2 (b ! 3) @ '':'' @ hex2 (b ! 4) @ '':'' @ hex2 (b ! 5))"

section \<open>Frames\<close>

datatype EtherType = Ipv4 | Ipv6 | Arp | Dot1Q | Other u16 | Length u16

definition EtherType_from :: "u16 \<Rightarrow> EtherType" where
  "EtherType_from v =
     (if v = 0x0800 then Ipv4 else if v = 0x86dd then Ipv6 else if v = 0x0806 then Arp
      else if v = 0x8100 then Dot1Q else if 3 \<le> v \<and> v \<le> 1500 then Length v else Other v)"

fun EtherType_code :: "EtherType \<Rightarrow> u16" where
  "EtherType_code Ipv4 = 0x0800"
| "EtherType_code Ipv6 = 0x86dd"
| "EtherType_code Arp = 0x0806"
| "EtherType_code Dot1Q = 0x8100"
| "EtherType_code (Other v) = v"
| "EtherType_code (Length v) = v"

record EthernetFrame =
  ef_destination :: MacAddress
  ef_source :: MacAddress
  ef_ethertype :: EtherType
  ef_payload :: bytes

datatype FrameError = FrameTruncated | LengthField | InvalidVlanTag

definition valid_length_or_type :: "EthernetFrame \<Rightarrow> bool" where
  "valid_length_or_type f =
     (case ef_ethertype f of
        Length n \<Rightarrow> 3 \<le> n \<and> n \<le> 1500 \<and> unat n = length (ef_payload f)
      | t \<Rightarrow> 1536 \<le> EtherType_code t)"

definition EthernetFrame_len :: "EthernetFrame \<Rightarrow> nat" where
  "EthernetFrame_len f = 14 + length (ef_payload f)"

definition EthernetFrame_encode :: "EthernetFrame \<Rightarrow> FrameError + bytes" where
  "EthernetFrame_encode f =
     (if \<not> valid_length_or_type f then Inl LengthField
      else Inr (Mac_octets (ef_destination f) @ Mac_octets (ef_source f) @
                u16_be (EtherType_code (ef_ethertype f)) @ ef_payload f))"

definition EthernetFrame_decode :: "bytes \<Rightarrow> FrameError + EthernetFrame" where
  "EthernetFrame_decode bs =
     (if length bs < 14 then Inl FrameTruncated
      else let ether = u16_at bs 12
      in and_then
           (if 3 \<le> ether \<and> ether \<le> 1500
            then ok_or FrameTruncated (get_range 14 (14 + unat ether) bs)
            else if ether \<le> 1535 then Inl LengthField
            else Inr (drop 14 bs))
           (\<lambda>payload. Inr \<lparr>ef_destination = Mac_of (take 6 bs), ef_source = Mac_of (slice 6 12 bs),
              ef_ethertype = EtherType_from ether, ef_payload = payload\<rparr>))"

definition EthernetFrame_tagged :: "EthernetFrame \<Rightarrow> VlanId \<Rightarrow> EthernetFrame" where
  "EthernetFrame_tagged f vlan =
     \<lparr>ef_destination = ef_destination f, ef_source = ef_source f, ef_ethertype = Dot1Q,
      ef_payload = u16_be (VlanId_get vlan) @ u16_be (EtherType_code (ef_ethertype f)) @ ef_payload f\<rparr>"

definition EthernetFrame_untagged :: "EthernetFrame \<Rightarrow> FrameError + (VlanId \<times> EthernetFrame)" where
  "EthernetFrame_untagged f =
     (if ef_ethertype f \<noteq> Dot1Q \<or> length (ef_payload f) < 4 then Inl InvalidVlanTag
      else case VlanId_new (u16_at (ef_payload f) 0 AND 0x0fff) of
        Inl _ \<Rightarrow> Inl InvalidVlanTag
      | Inr vlan \<Rightarrow>
          (let inner = u16_at (ef_payload f) 2
           in if inner < 0x0600 \<and>
                 (\<not> (3 \<le> inner \<and> inner \<le> 1500) \<or> unat inner \<noteq> length (ef_payload f) - 4) \<or>
                 inner = EtherType_code Dot1Q
              then Inl InvalidVlanTag
              else Inr (vlan, \<lparr>ef_destination = ef_destination f, ef_source = ef_source f,
                     ef_ethertype = EtherType_from inner, ef_payload = drop 4 (ef_payload f)\<rparr>)))"

section \<open>Lemmas\<close>

text \<open>
  An \<open>EtherType\<close> value is canonical when it is the one its code decodes to: \<open>Other 0x0800\<close>
  is representable but reads back as \<open>Ipv4\<close>.
\<close>

definition canonical_ethertype :: "EtherType \<Rightarrow> bool" where
  "canonical_ethertype t = (EtherType_from (EtherType_code t) = t)"

definition wire_frame :: "EthernetFrame \<Rightarrow> bool" where
  "wire_frame f = (canonical_ethertype (ef_ethertype f) \<and> valid_length_or_type f)"

definition wire_vlan :: "VlanId \<Rightarrow> bool" where
  "wire_vlan v = (VlanId_new (VlanId_get v) = Inr v)"

lemma length_Mac_octets [simp]: "length (Mac_octets m) = 6"
  by (cases m) simp

lemma Mac_of_octets [simp]: "Mac_of (Mac_octets m) = m"
  by (cases m) (simp add: Mac_of_def)

lemma Mac_octets_of: "length b = 6 \<Longrightarrow> Mac_octets (Mac_of b) = b"
  by (auto simp: Mac_of_def list_eq_iff_nth_eq nth_Cons' less_Suc_eq numeral_eq_Suc)

lemma EtherType_code_from [simp]: "EtherType_code (EtherType_from v) = v"
  by (simp add: EtherType_from_def)

lemma canonical_from [simp]: "canonical_ethertype (EtherType_from v)"
  by (simp add: canonical_ethertype_def)

lemma valid_from_iff:
  "valid_length_or_type f \<longleftrightarrow>
     (if 3 \<le> v \<and> v \<le> 1500 then unat v = length (ef_payload f) else 1536 \<le> v)"
  if "ef_ethertype f = EtherType_from v" for f v
  using that by (auto simp: valid_length_or_type_def EtherType_from_def split: if_splits)

lemma canonical_frame_cases:
  assumes "wire_frame f"
  defines "v \<equiv> EtherType_code (ef_ethertype f)"
  shows "ef_ethertype f = EtherType_from v"
    "if 3 \<le> v \<and> v \<le> 1500 then unat v = length (ef_payload f) else 1536 \<le> v"
proof -
  show eq: "ef_ethertype f = EtherType_from v"
    using assms by (simp add: wire_frame_def canonical_ethertype_def)
  have "valid_length_or_type f" using assms(1) by (simp add: wire_frame_def)
  then show "if 3 \<le> v \<and> v \<le> 1500 then unat v = length (ef_payload f) else 1536 \<le> v"
    by (simp only: valid_from_iff [OF eq])
qed

lemma frame_decode_encode:
  assumes "wire_frame f" "EthernetFrame_encode f = Inr bs"
  shows "EthernetFrame_decode bs = Inr f"
proof -
  let ?v = "EtherType_code (ef_ethertype f)"
  note cases = canonical_frame_cases [OF assms(1)]
  have bs: "bs = Mac_octets (ef_destination f) @ Mac_octets (ef_source f) @ u16_be ?v @ ef_payload f"
    using assms by (simp add: EthernetFrame_encode_def wire_frame_def)
  have ether: "u16_at bs 12 = ?v" by (simp add: bs codec_simps)
  have dest: "Mac_of (take 6 bs) = ef_destination f" by (simp add: bs)
  have src: "Mac_of (slice 6 12 bs) = ef_source f" by (simp add: bs codec_simps)
  have pay: "drop 14 bs = ef_payload f" by (simp add: bs)
  have sl: "slice 14 (14 + n) bs = take n (ef_payload f)" for n by (simp add: slice_def pay)
  have len: "length bs = 14 + length (ef_payload f)" by (simp add: bs)
  have not_low: "\<not> (?v \<le> 1535)" if "1536 \<le> ?v"
    using that by (simp add: word_le_nat_alt)
  show ?thesis
    using cases not_low
    by (auto simp: EthernetFrame_decode_def ether dest src pay sl len get_range_def Let_def
        split: if_splits)
qed

lemma frame_decode_wire:
  assumes "EthernetFrame_decode bs = Inr f"
  shows "wire_frame f"
proof -
  let ?v = "u16_at bs 12"
  have hi: "1536 \<le> ?v" if "\<not> (?v \<le> 1535)"
    using that by (simp add: word_le_nat_alt)
  have "ef_ethertype f = EtherType_from ?v"
    using assms by (auto simp: EthernetFrame_decode_def Let_def and_then_Inr_iff split: if_splits)
  moreover have "if 3 \<le> ?v \<and> ?v \<le> 1500 then unat ?v = length (ef_payload f) else 1536 \<le> ?v"
    using assms hi
    by (auto simp: EthernetFrame_decode_def Let_def and_then_Inr_iff get_range_def slice_def
        split: if_splits)
  ultimately show ?thesis
    by (simp add: wire_frame_def valid_from_iff)
qed

lemma frame_encode_decode:
  assumes "EthernetFrame_decode bs = Inr f"
  shows "EthernetFrame_encode f = Inr (take (EthernetFrame_len f) bs)"
proof -
  let ?v = "u16_at bs 12"
  have len: "14 \<le> length bs" using assms by (simp add: EthernetFrame_decode_def split: if_splits)
  have v: "EtherType_code (ef_ethertype f) = ?v"
    and d: "ef_destination f = Mac_of (take 6 bs)" and s: "ef_source f = Mac_of (slice 6 12 bs)"
    and p: "ef_payload f = take (length (ef_payload f)) (drop 14 bs)"
    using assms by (auto simp: EthernetFrame_decode_def Let_def and_then_Inr_iff get_range_def slice_def
        split: if_splits)
  have "u16_be ?v = slice 12 14 bs"
    using len u16_be_at [of 12 bs] by simp
  moreover have "take (14 + length (ef_payload f)) bs =
      take 6 bs @ slice 6 12 bs @ slice 12 14 bs @ take (length (ef_payload f)) (drop 14 bs)"
    using slice_join [of 0 6 12 bs] slice_join [of 0 12 14 bs]
      slice_join [of 0 14 "14 + length (ef_payload f)" bs]
    by (simp add: slice_def flip: append_assoc)
  ultimately show ?thesis
    using len frame_decode_wire [OF assms] p
    by (simp add: EthernetFrame_encode_def wire_frame_def v d s Mac_octets_of EthernetFrame_len_def)
qed

lemma frame_encode_total: "wire_frame f \<Longrightarrow> \<exists>bs. EthernetFrame_encode f = Inr bs"
  by (simp add: EthernetFrame_encode_def wire_frame_def)

interpretation frame: wire_codec EthernetFrame_encode EthernetFrame_decode wire_frame
  by unfold_locales (auto intro: frame_encode_total frame_decode_encode)

lemma vlan_mask: "v \<le> 4094 \<Longrightarrow> v AND 0x0fff = (v::u16)"
proof -
  assume "v \<le> 4094"
  then have "unat v < 2 ^ 12" by (simp add: word_le_nat_alt)
  then have "take_bit 12 v = v"
    by (metis take_bit_nat_eq_self unsigned_take_bit_eq word_unat_eq_iff)
  then show ?thesis by (simp add: take_bit_eq_mask mask_eq_exp_minus_1)
qed

lemma untagged_tagged:
  assumes "wire_vlan vlan" "wire_frame f" "ef_ethertype f \<noteq> Dot1Q"
  shows "EthernetFrame_untagged (EthernetFrame_tagged f vlan) = Inr (vlan, f)"
proof -
  let ?v = "EtherType_code (ef_ethertype f)"
  note cases = canonical_frame_cases [OF assms(2)]
  have range: "1 \<le> VlanId_get vlan" "VlanId_get vlan \<le> 4094"
    using assms(1) by (auto simp: wire_vlan_def VlanId_new_def split: if_splits)
  then have tag: "VlanId_new (VlanId_get vlan AND 0x0fff) = Inr vlan"
    using assms(1) by (simp add: vlan_mask wire_vlan_def)
  have "?v \<noteq> EtherType_code Dot1Q"
    using cases(1) assms(3) by (auto simp: EtherType_from_def)
  moreover have "\<not> ?v < 0x0600" if "1536 \<le> ?v" using that by simp
  ultimately show ?thesis
    using tag cases
    by (auto simp: EthernetFrame_untagged_def EthernetFrame_tagged_def codec_simps Let_def split: if_splits)
qed

section \<open>The textual form\<close>

lemma hex_digits_table:
  "list_all (\<lambda>n. hex_value (hex_digits ! n) = Some n \<and> hex_digits ! n \<noteq> CHR '':'') [0..<16]"
  by code_simp

lemma hex_value_digit: "n < 16 \<Longrightarrow> hex_value (hex_digits ! n) = Some n"
  and hex_digit_not_colon: "n < 16 \<Longrightarrow> hex_digits ! n \<noteq> CHR '':''"
  using hex_digits_table by (simp_all add: list_all_iff)

lemma mac_part_hex2: "mac_part (hex2 b) = Inr b"
proof -
  have "unat b < 256" using unat_bound [of b] by simp
  then have "unat b div 16 < 16" "unat b mod 16 < 16" by auto
  moreover have "(of_nat (16 * (unat b div 16) + unat b mod 16) :: u8) = b"
    by (simp only: mult_div_mod_eq) simp
  ultimately show ?thesis
    by (simp add: mac_part_def hex2_def is_ascii_hexdigit_def hex_value_digit)
qed

lemma split_on_hex2:
  "split_on CHR '':'' (hex2 b @ CHR '':'' # r) = hex2 b # split_on CHR '':'' r"
  "split_on CHR '':'' (hex2 b) = [hex2 b]"
proof -
  have "unat b < 256" using unat_bound [of b] by simp
  then have "unat b div 16 < 16" "unat b mod 16 < 16" by auto
  then show "split_on CHR '':'' (hex2 b @ CHR '':'' # r) = hex2 b # split_on CHR '':'' r"
    "split_on CHR '':'' (hex2 b) = [hex2 b]"
    by (simp_all add: hex2_def hex_digit_not_colon)
qed

lemma MacAddress_parse_display: "MacAddress_from_str (MacAddress_display m) = Inr m"
  by (cases m)
    (simp add: MacAddress_from_str_def MacAddress_display_def split_on_hex2 mac_part_hex2 Mac_of_def)

section \<open>Properties\<close>

text \<open>
  C36. Ethernet framing loses nothing in either direction: a frame that can be put on the wire is
  read back unchanged, and a frame that was read from the wire re-encodes to exactly the octets it
  occupied, the padding of a length-typed frame excepted. Everything the decoder returns can be sent again.
\<close>

theorem frame_round_trip:
  "(wire_frame f \<longrightarrow> (\<exists>bs. EthernetFrame_encode f = Inr bs \<and> EthernetFrame_decode bs = Inr f)) \<and>
   (EthernetFrame_decode w = Inr g \<longrightarrow> wire_frame g \<and> EthernetFrame_encode g = Inr (take (EthernetFrame_len g) w))"
  using frame.round_trip [of f] frame_decode_wire [of w g] frame_encode_decode [of w g] by blast

definition sample_frame :: EthernetFrame where
  "sample_frame = \<lparr>ef_destination = MacAddress 1 2 3 4 5 6, ef_source = MacAddress 2 0 0 0 0 1,
     ef_ethertype = Ipv4, ef_payload = [69, 0]\<rparr>"

lemma sample_frame_wire: "wire_frame sample_frame"
  by code_simp

theorem frame_round_trip_witness:
  "\<exists>bs. EthernetFrame_encode sample_frame = Inr bs \<and> EthernetFrame_decode bs = Inr sample_frame"
  using frame_round_trip [of sample_frame] sample_frame_wire by blast

text \<open>An 802.1Q tag is transparent: untagging a tagged frame returns the VLAN and the original frame.\<close>

theorem vlan_tag_round_trip:
  assumes "wire_vlan vlan" "wire_frame f" "ef_ethertype f \<noteq> Dot1Q"
  shows "EthernetFrame_untagged (EthernetFrame_tagged f vlan) = Inr (vlan, f)"
  using assms by (rule untagged_tagged)

theorem vlan_tag_round_trip_witness:
  "EthernetFrame_untagged (EthernetFrame_tagged sample_frame (VlanId 100)) = Inr (VlanId 100, sample_frame)"
  by (rule vlan_tag_round_trip [OF _ sample_frame_wire]) (code_simp, simp add: sample_frame_def)

end
