(* ===== verification/Ipv4_Route.thy ===== *)
theory Ipv4_Route
  imports Codec Sim_Queue
begin

text \<open>
  The crate \<open>rios-ipv4\<close>, addressing and routing (\<open>lib.rs\<close>, \<open>routing.rs\<close>): interface
  addresses with validated prefixes, normalised networks and the longest-prefix routing table.
  An \<open>Ipv4Addr\<close> is its 32-bit value, whose unsigned order is the order of the octets.
\<close>

section \<open>Interface addresses\<close>

record Ipv4InterfaceConfig =
  ic_address :: ipv4
  ic_prefix_len :: u8

datatype AddressError = InvalidPrefix | InvalidMask

definition leading_ones :: "u32 \<Rightarrow> nat" where
  "leading_ones w = length (takeWhile (bit w) (rev [0..<32]))"

text \<open>\<open>if len == 0 { 0 } else { u32::MAX << (32 - len) }\<close>, shared by the three places that compute it.\<close>

definition prefix_mask :: "u8 \<Rightarrow> u32" where
  "prefix_mask len = (if len = 0 then 0 else push_bit (32 - unat len) (- 1))"

definition Ipv4InterfaceConfig_new :: "ipv4 \<Rightarrow> u8 \<Rightarrow> AddressError + Ipv4InterfaceConfig" where
  "Ipv4InterfaceConfig_new address prefix_len =
     (if 32 < prefix_len then Inl InvalidPrefix
      else Inr \<lparr>ic_address = address, ic_prefix_len = prefix_len\<rparr>)"

definition Ipv4InterfaceConfig_mask :: "Ipv4InterfaceConfig \<Rightarrow> ipv4" where
  "Ipv4InterfaceConfig_mask c = prefix_mask (ic_prefix_len c)"

definition Ipv4InterfaceConfig_from_mask :: "ipv4 \<Rightarrow> ipv4 \<Rightarrow> AddressError + Ipv4InterfaceConfig" where
  "Ipv4InterfaceConfig_from_mask address netmask =
     and_then (Ipv4InterfaceConfig_new address (of_nat (leading_ones netmask)))
       (\<lambda>result. if Ipv4InterfaceConfig_mask result \<noteq> netmask then Inl InvalidMask else Inr result)"

section \<open>Networks\<close>

record Ipv4Network =
  nw_address :: ipv4
  nw_prefix_len :: u8

definition Ipv4Network_new :: "ipv4 \<Rightarrow> u8 \<Rightarrow> AddressError + Ipv4Network" where
  "Ipv4Network_new address prefix_len =
     (if prefix_len = 0 then Inr \<lparr>nw_address = address AND 0, nw_prefix_len = prefix_len\<rparr>
      else if prefix_len \<le> 32
      then Inr \<lparr>nw_address = address AND push_bit (32 - unat prefix_len) (- 1), nw_prefix_len = prefix_len\<rparr>
      else Inl InvalidPrefix)"

definition Ipv4Network_mask :: "Ipv4Network \<Rightarrow> ipv4" where
  "Ipv4Network_mask n = prefix_mask (nw_prefix_len n)"

definition Ipv4Network_broadcast :: "Ipv4Network \<Rightarrow> ipv4" where
  "Ipv4Network_broadcast n = nw_address n OR NOT (Ipv4Network_mask n)"

definition Ipv4Network_contains :: "Ipv4Network \<Rightarrow> ipv4 \<Rightarrow> bool" where
  "Ipv4Network_contains n address =
     (case Ipv4Network_new address (nw_prefix_len n) of Inl _ \<Rightarrow> False | Inr network \<Rightarrow> network = n)"

section \<open>Routes\<close>

datatype RouteSource =
  Connected | Static | Ospf | OspfInterArea | OspfExternal1 | OspfExternal2 | Rip | Bgp

record Route =
  rt_prefix :: Ipv4Network
  rt_next_hop :: "ipv4 option"
  rt_outgoing_interface :: "InterfaceId option"
  rt_administrative_distance :: u8
  rt_metric :: u32
  rt_source :: RouteSource

type_synonym RoutingTable = "Route list"

definition RoutingTable_insert :: "RoutingTable \<Rightarrow> Route \<Rightarrow> RoutingTable" where
  "RoutingTable_insert t route = t @ [route]"

definition route_key :: "Route \<Rightarrow> u8 reverse \<times> u8 \<times> u32" where
  "route_key r = (Reverse (nw_prefix_len (rt_prefix r)), rt_administrative_distance r, rt_metric r)"

definition RoutingTable_lookup :: "RoutingTable \<Rightarrow> ipv4 \<Rightarrow> Route option" where
  "RoutingTable_lookup t address =
     min_by_key route_key (filter (\<lambda>r. Ipv4Network_contains (rt_prefix r) address) t)"

section \<open>Prefix arithmetic\<close>

text \<open>A network as the constructor builds it: a prefix of at most 32 bits, host bits cleared.\<close>

definition wf_network :: "Ipv4Network \<Rightarrow> bool" where
  "wf_network n = (nw_prefix_len n \<le> 32 \<and> nw_address n AND prefix_mask (nw_prefix_len n) = nw_address n)"

lemma prefix_mask_eq: "len \<le> 32 \<Longrightarrow> prefix_mask len = push_bit (32 - unat len) (- 1)"
  by (auto simp: prefix_mask_def push_bit_eq_mult word_le_nat_alt)

lemma and_prefix_mask:
  "len \<le> 32 \<Longrightarrow> a AND prefix_mask len = push_bit (32 - unat len) (drop_bit (32 - unat len) a)"
  by (rule bit_word_eqI) (auto simp: prefix_mask_eq bit_simps)

lemma unat_push_drop: "unat (push_bit k (drop_bit k a)) = unat a div 2 ^ k * 2 ^ k" for a :: ipv4
proof -
  have "unat a div 2 ^ k * 2 ^ k < 2 ^ 32"
    using unat_bound [of a] by (simp add: le_less_trans [OF div_times_less_eq_dividend])
  moreover have "unat (push_bit k (drop_bit k a)) = take_bit 32 (push_bit k (drop_bit k (unat a)))"
    by (simp add: unsigned_push_bit_eq unat_drop_bit_eq)
  ultimately show ?thesis
    by (simp only: drop_bit_eq_div push_bit_eq_mult take_bit_nat_eq_self)
qed

lemma unat_mask32: "k \<le> 32 \<Longrightarrow> unat (mask k :: u32) = 2 ^ k - 1"
proof -
  assume "k \<le> 32"
  then have "unat (take_bit k (- 1) :: u32) = mask k"
    by (simp only: unsigned_take_bit_eq unsigned_minus_1_eq_mask take_bit_of_mask) (simp add: min_def)
  then show ?thesis by (simp add: mask_eq_exp_minus_1)
qed

lemma Ipv4Network_new_eq:
  "Ipv4Network_new a len =
     (if len \<le> 32 then Inr \<lparr>nw_address = a AND prefix_mask len, nw_prefix_len = len\<rparr> else Inl InvalidPrefix)"
  by (auto simp: Ipv4Network_new_def prefix_mask_def word_le_nat_alt)

lemma new_wf: "Ipv4Network_new a len = Inr n \<Longrightarrow> wf_network n"
  by (auto simp: Ipv4Network_new_eq wf_network_def and.assoc split: if_splits)

lemma contains_iff_mask:
  "wf_network n \<Longrightarrow>
     Ipv4Network_contains n a \<longleftrightarrow> a AND prefix_mask (nw_prefix_len n) = nw_address n"
  by (cases n) (auto simp: Ipv4Network_contains_def Ipv4Network_new_eq wf_network_def)

lemma contains_network_address: "wf_network n \<Longrightarrow> Ipv4Network_contains n (nw_address n)"
  by (simp add: contains_iff_mask wf_network_def)

lemma new_contains: "Ipv4Network_new a len = Inr n \<Longrightarrow> Ipv4Network_contains n a"
  by (auto simp: Ipv4Network_contains_def Ipv4Network_new_eq split: if_splits)

lemma contains_iff_nat:
  assumes "wf_network n"
  defines "k \<equiv> 32 - unat (nw_prefix_len n)"
  shows "Ipv4Network_contains n a \<longleftrightarrow> unat a div 2 ^ k = unat (nw_address n) div 2 ^ k"
    and "unat (nw_address n) = unat (nw_address n) div 2 ^ k * 2 ^ k"
proof -
  have len: "nw_prefix_len n \<le> 32" and norm: "nw_address n AND prefix_mask (nw_prefix_len n) = nw_address n"
    using assms(1) by (auto simp: wf_network_def)
  show addr: "unat (nw_address n) = unat (nw_address n) div 2 ^ k * 2 ^ k"
    using norm unat_push_drop [of k "nw_address n"] by (simp add: and_prefix_mask [OF len] k_def)
  have "Ipv4Network_contains n a \<longleftrightarrow> unat (push_bit k (drop_bit k a)) = unat (nw_address n)"
    by (simp add: contains_iff_mask [OF assms(1)] and_prefix_mask [OF len] word_unat_eq_iff k_def)
  also have "\<dots> \<longleftrightarrow> unat a div 2 ^ k = unat (nw_address n) div 2 ^ k"
    using addr by (simp only: unat_push_drop) (metis mult_cancel2 power_not_zero zero_neq_numeral)
  finally show "Ipv4Network_contains n a \<longleftrightarrow> unat a div 2 ^ k = unat (nw_address n) div 2 ^ k" .
qed

lemma not_prefix_mask: "len \<le> 32 \<Longrightarrow> NOT (prefix_mask len) = mask (32 - unat len)"
  by (rule bit_word_eqI) (auto simp: prefix_mask_eq bit_simps)

lemma unat_broadcast:
  assumes "wf_network n"
  defines "k \<equiv> 32 - unat (nw_prefix_len n)"
  shows "unat (Ipv4Network_broadcast n) = unat (nw_address n) + (2 ^ k - 1)"
proof -
  have len: "nw_prefix_len n \<le> 32" and norm: "nw_address n AND prefix_mask (nw_prefix_len n) = nw_address n"
    using assms(1) by (auto simp: wf_network_def)
  have k: "k \<le> 32" by (simp add: k_def)
  have "unat (Ipv4Network_broadcast n) = unat (nw_address n) OR (2 ^ k - 1)"
    using k by (simp add: Ipv4Network_broadcast_def Ipv4Network_mask_def not_prefix_mask [OF len]
        unsigned_or_eq unat_mask32 flip: k_def)
  also have "\<dots> = push_bit k (unat (nw_address n) div 2 ^ k) OR mask k"
    using contains_iff_nat(2) [OF assms(1)] by (simp add: push_bit_eq_mult mask_eq_exp_minus_1 k_def)
  also have "\<dots> = push_bit k (unat (nw_address n) div 2 ^ k) + mask k"
    by (rule disjunctive_add [symmetric]) (auto simp: bit_simps)
  also have "\<dots> = unat (nw_address n) + (2 ^ k - 1)"
    using contains_iff_nat(2) [OF assms(1)] by (simp add: push_bit_eq_mult mask_eq_exp_minus_1 k_def)
  finally show ?thesis .
qed

lemma div_interval:
  fixes a b m :: nat
  assumes "0 < m" "b = b div m * m"
  shows "a div m = b div m \<longleftrightarrow> b \<le> a \<and> a \<le> b + (m - 1)"
proof
  assume eq: "a div m = b div m"
  have "a = b + a mod m" using eq assms(2) by (metis div_mult_mod_eq)
  moreover have "a mod m < m" using assms(1) by simp
  ultimately show "b \<le> a \<and> a \<le> b + (m - 1)" by linarith
next
  assume "b \<le> a \<and> a \<le> b + (m - 1)"
  then obtain r where "a = b div m * m + r" "r < m"
    using assms by (metis add_diff_inverse_nat less_imp_diff_less nat_add_left_cancel_le not_less
        le_imp_less_Suc Suc_diff_1 Suc_eq_plus1 add_leD1 le_add_diff_inverse)
  then show "a div m = b div m" by simp
qed

lemma contains_interval:
  assumes "wf_network n"
  shows "Ipv4Network_contains n a \<longleftrightarrow> nw_address n \<le> a \<and> a \<le> Ipv4Network_broadcast n"
  using contains_iff_nat [OF assms] div_interval [of "2 ^ (32 - unat (nw_prefix_len n))" "unat (nw_address n)" "unat a"]
  by (simp add: word_le_nat_alt unat_broadcast [OF assms])

lemma leading_ones_mask:
  assumes "len \<le> 32"
  shows "leading_ones (prefix_mask len) = unat len"
proof -
  let ?k = "32 - unat len"
  have len: "unat len \<le> 32" using assms by (simp add: word_le_nat_alt)
  have bits: "bit (prefix_mask len) i \<longleftrightarrow> ?k \<le> i" if "i < 32" for i
    using that by (simp add: prefix_mask_eq [OF assms] bit_simps not_less)
  have "rev [0..<32] = rev [?k..<32] @ rev [0..<?k]"
    using len upt_add_eq_append [of 0 ?k "unat len"] by (simp flip: rev_append)
  moreover have "takeWhile (bit (prefix_mask len)) (rev [?k..<32] @ rev [0..<?k]) =
      rev [?k..<32] @ takeWhile (bit (prefix_mask len)) (rev [0..<?k])"
    by (rule takeWhile_append2) (simp add: bits)
  moreover have "takeWhile (bit (prefix_mask len)) (rev [0..<?k]) = []"
  proof -
    have "\<forall>i\<in>set (rev [0..<?k]). \<not> bit (prefix_mask len) i" by (simp add: bits)
    then show ?thesis by (metis hd_in_set takeWhile_eq_Nil_iff)
  qed
  ultimately show ?thesis using len by (simp add: leading_ones_def)
qed

lemma from_mask_mask:
  assumes "len \<le> 32"
  shows "Ipv4InterfaceConfig_from_mask a (prefix_mask len) = Inr \<lparr>ic_address = a, ic_prefix_len = len\<rparr>"
proof -
  have "(of_nat (unat len) :: u8) = len" by simp
  then show ?thesis
    using assms by (simp add: Ipv4InterfaceConfig_from_mask_def leading_ones_mask Ipv4InterfaceConfig_new_def
        Ipv4InterfaceConfig_mask_def not_less)
qed

lemma from_mask_Inr:
  "Ipv4InterfaceConfig_from_mask a m = Inr c \<longleftrightarrow>
     (\<exists>len. len \<le> 32 \<and> m = prefix_mask len \<and> c = \<lparr>ic_address = a, ic_prefix_len = len\<rparr>)"
proof
  assume "Ipv4InterfaceConfig_from_mask a m = Inr c"
  then show "\<exists>len. len \<le> 32 \<and> m = prefix_mask len \<and> c = \<lparr>ic_address = a, ic_prefix_len = len\<rparr>"
    by (auto simp: Ipv4InterfaceConfig_from_mask_def and_then_Inr_iff Ipv4InterfaceConfig_new_def
        Ipv4InterfaceConfig_mask_def not_less split: if_splits)
qed (auto simp: from_mask_mask)

section \<open>Longest prefix match\<close>

lemma route_key_le:
  "route_key r \<le> route_key s \<longleftrightarrow>
     nw_prefix_len (rt_prefix s) < nw_prefix_len (rt_prefix r) \<or>
     nw_prefix_len (rt_prefix s) = nw_prefix_len (rt_prefix r) \<and>
       (rt_administrative_distance r < rt_administrative_distance s \<or>
        rt_administrative_distance r = rt_administrative_distance s \<and> rt_metric r \<le> rt_metric s)"
  by (auto simp: route_key_def less_eq_prod_def)

lemma lookup_None:
  "RoutingTable_lookup t a = None \<longleftrightarrow> (\<forall>r\<in>set t. \<not> Ipv4Network_contains (rt_prefix r) a)"
  by (simp add: RoutingTable_lookup_def filter_empty_conv)

lemma lookup_Some:
  assumes "RoutingTable_lookup t a = Some r"
  shows "r \<in> set t" "Ipv4Network_contains (rt_prefix r) a"
    "\<And>s. s \<in> set t \<Longrightarrow> Ipv4Network_contains (rt_prefix s) a \<Longrightarrow> route_key r \<le> route_key s"
  using min_by_key_Some [OF assms [unfolded RoutingTable_lookup_def]] by auto

section \<open>Properties\<close>

text \<open>
  C5. Longest-prefix match: lookup returns nothing exactly when no route contains the address, and
  otherwise a route of the table that contains it, such that every other containing route has a
  shorter prefix, or the same length and a higher distance, or the same distance and no lower metric.
\<close>

theorem lookup_longest_prefix:
  "case RoutingTable_lookup t a of
     None \<Rightarrow> \<forall>r\<in>set t. \<not> Ipv4Network_contains (rt_prefix r) a
   | Some r \<Rightarrow> r \<in> set t \<and> Ipv4Network_contains (rt_prefix r) a \<and>
       (\<forall>s\<in>set t. Ipv4Network_contains (rt_prefix s) a \<longrightarrow>
          nw_prefix_len (rt_prefix s) < nw_prefix_len (rt_prefix r) \<or>
          nw_prefix_len (rt_prefix s) = nw_prefix_len (rt_prefix r) \<and>
            (rt_administrative_distance r < rt_administrative_distance s \<or>
             rt_administrative_distance r = rt_administrative_distance s \<and> rt_metric r \<le> rt_metric s))"
  using lookup_None [of t a] lookup_Some [of t a]
  by (auto simp: route_key_le split: option.splits)

definition sample_route :: "ipv4 \<Rightarrow> u8 \<Rightarrow> u8 \<Rightarrow> Route" where
  "sample_route a len distance = \<lparr>rt_prefix = \<lparr>nw_address = a, nw_prefix_len = len\<rparr>, rt_next_hop = Some 1,
     rt_outgoing_interface = None, rt_administrative_distance = distance, rt_metric = 0, rt_source = Static\<rparr>"

theorem lookup_longest_prefix_witness:
  "RoutingTable_lookup [sample_route 0 0 1, sample_route 0x0a000000 8 110, sample_route 0x0a000000 8 90] 0x0a010203 =
     Some (sample_route 0x0a000000 8 90) \<and>
   Ipv4Network_contains \<lparr>nw_address = 0x0a000000, nw_prefix_len = 8\<rparr> 0x0a010203"
proof -
  let ?t = "[sample_route 0 0 1, sample_route 0x0a000000 8 110, sample_route 0x0a000000 8 90]"
  have "RoutingTable_lookup ?t 0x0a010203 = Some (sample_route 0x0a000000 8 90)" by code_simp
  with lookup_longest_prefix [of ?t "0x0a010203"] show ?thesis by (simp add: sample_route_def)
qed

text \<open>
  C0. A network is an interval of addresses: membership, computed with masks, is lying between the
  network address and the broadcast address, in the order of 32-bit addresses.
\<close>

theorem network_is_interval:
  assumes "Ipv4Network_new a len = Inr n"
  shows "Ipv4Network_contains n b \<longleftrightarrow> nw_address n \<le> b \<and> b \<le> Ipv4Network_broadcast n"
  using assms by (intro contains_interval) (rule new_wf)

theorem network_is_interval_witness:
  "Ipv4Network_contains \<lparr>nw_address = 0x0a000100, nw_prefix_len = 24\<rparr> 0x0a0001ff \<longleftrightarrow>
     0x0a000100 \<le> (0x0a0001ff :: ipv4) \<and> 0x0a0001ff \<le> Ipv4Network_broadcast \<lparr>nw_address = 0x0a000100, nw_prefix_len = 24\<rparr>"
proof -
  have "Ipv4Network_new 0x0a000105 24 = Inr \<lparr>nw_address = 0x0a000100, nw_prefix_len = 24\<rparr>" by code_simp
  from network_is_interval [OF this, of "0x0a0001ff"] show ?thesis by simp
qed

end
