(* ===== verification/Ipv4_Packet.thy ===== *)
theory Ipv4_Packet
  imports Ipv4_Route
begin

text \<open>
  The crate \<open>rios-ipv4\<close>, packets (\<open>packet.rs\<close>): the Internet checksum and the 20-byte IPv4
  header without options or fragmentation.
\<close>

section \<open>The Internet checksum\<close>

fun be_words :: "bytes \<Rightarrow> u16 list" where
  "be_words [] = []"
| "be_words [a] = [u16_of_be a 0]"
| "be_words (a # b # r) = u16_of_be a b # be_words r"

definition checksum_sum :: "bytes \<Rightarrow> u32" where
  "checksum_sum bs = foldl (\<lambda>sum word. sum + ucast word) 0 (be_words bs)"

lemma carry_less:
  assumes "65536 \<le> (n::nat)"
  shows "n mod 65536 + n div 65536 < n"
proof -
  have "n = n div 65536 * 65536 + n mod 65536" by simp
  moreover have "1 \<le> n div 65536" using div_le_mono [OF assms, of 65536] by simp
  ultimately show ?thesis by linarith
qed

lemma unat_drop_16: "unat (drop_bit 16 s) = unat s div 65536" for s :: u32
proof -
  have "unat (drop_bit 16 s) = drop_bit 16 (unat s)" by (rule unat_drop_bit_eq)
  also have "\<dots> = unat s div 65536" by (simp add: drop_bit_eq_div)
  finally show ?thesis .
qed

lemma unat_and_ffff: "unat (s AND 0xffff) = unat s mod 65536" for s :: u32
proof -
  have "unat (s AND 0xffff) = unat (take_bit 16 s)" by (simp add: take_bit_eq_mask mask_eq_exp_minus_1)
  also have "\<dots> = take_bit 16 (unat s)" by (rule unsigned_take_bit_eq)
  also have "\<dots> = unat s mod 65536" by (simp add: take_bit_eq_mod)
  finally show ?thesis .
qed

lemma unat_carry_step:
  fixes s :: u32
  shows "unat ((s AND 0xffff) + drop_bit 16 s) = unat s mod 65536 + unat s div 65536"
proof -
  have "unat s < 4294967296" using unat_bound [of s] by simp
  then have "unat s mod 65536 + unat s div 65536 < 4294967296"
    using carry_less [of "unat s"] by (cases "unat s < 65536") auto
  then show ?thesis by (simp only: unat_word_ariths unat_and_ffff unat_drop_16) simp
qed

lemma drop_16_zero: "drop_bit 16 s = 0 \<longleftrightarrow> unat s < 65536" for s :: u32
proof -
  have "drop_bit 16 s = 0 \<longleftrightarrow> unat (drop_bit 16 s) = 0" by (simp only: unat_eq_zero)
  also have "\<dots> \<longleftrightarrow> unat s div 65536 = 0" by (simp only: unat_drop_16)
  finally show ?thesis by (simp add: div_eq_0_iff)
qed

function fold_carry :: "u32 \<Rightarrow> u32" where
  "fold_carry acc =
     (if drop_bit 16 acc \<noteq> 0 then fold_carry ((acc AND 0xffff) + drop_bit 16 acc) else acc)"
  by pat_completeness auto
termination
proof (relation "measure unat")
  fix s :: u32
  assume "drop_bit 16 s \<noteq> 0"
  then have "65536 \<le> unat s" by (simp add: drop_16_zero)
  then have "unat s mod 65536 + unat s div 65536 < unat s" by (rule carry_less)
  then show "((s AND 0xffff) + drop_bit 16 s, s) \<in> measure unat"
    by (simp only: in_measure unat_carry_step)
qed simp

declare fold_carry.simps [simp del]

definition checksum :: "bytes \<Rightarrow> u16" where
  "checksum bs = NOT (ucast (fold_carry (checksum_sum bs)))"

subsection \<open>The sum as a number\<close>

definition word_sum :: "bytes \<Rightarrow> nat" where
  "word_sum bs = sum_list (map unat (be_words bs))"

lemma word_sum_append: "even (length xs) \<Longrightarrow> word_sum (xs @ ys) = word_sum xs + word_sum ys"
  by (induction xs rule: be_words.induct) (simp_all add: word_sum_def)

lemma word_sum_pair: "word_sum (u16_be w) = unat w"
  by (simp add: word_sum_def u16_be_def)

lemma word_sum_zero_pair: "word_sum [0, 0] = 0"
  by (simp add: word_sum_def u16_of_be_def)

lemma length_be_words: "length (be_words bs) = (length bs + 1) div 2"
  by (induction bs rule: be_words.induct) simp_all

lemma foldl_words:
  "unat (foldl (\<lambda>sum word. sum + ucast word) s ws) = (unat s + sum_list (map unat ws)) mod 2 ^ 32"
  for s :: u32 and ws :: "u16 list"
proof (induction ws arbitrary: s)
  case Nil
  show ?case using unat_bound [of s] by simp
next
  case (Cons w ws)
  have "unat (ucast w :: u32) = unat w"
    using unat_bound [of w] by (simp add: unsigned_ucast_eq take_bit_nat_eq_self)
  then show ?case
    using Cons.IH [of "s + ucast w"] by (simp add: unat_word_ariths mod_add_left_eq add.assoc)
qed

lemma sum_words_bound: "sum_list (map unat (ws :: u16 list)) \<le> 65535 * length ws"
proof (induction ws)
  case (Cons w ws)
  then show ?case using unat_bound [of w] by simp
qed simp

lemma unat_checksum_sum: "length bs \<le> 131072 \<Longrightarrow> unat (checksum_sum bs) = word_sum bs"
proof -
  assume "length bs \<le> 131072"
  then have "length (be_words bs) \<le> 65536" by (simp add: length_be_words)
  then have "word_sum bs < 2 ^ 32"
    using sum_words_bound [of "be_words bs"] by (simp add: word_sum_def)
  then show ?thesis by (simp add: checksum_sum_def foldl_words word_sum_def)
qed

lemma carry_mod: "(n mod 65536 + n div 65536) mod 65535 = n mod (65535::nat)"
proof -
  have "n = 65535 * (n div 65536) + (n mod 65536 + n div 65536)"
    by (simp add: algebra_simps)
  then show ?thesis by (metis mod_mult_self4)
qed

lemma fold_carry_props:
  "unat (fold_carry s) < 65536 \<and> unat (fold_carry s) mod 65535 = unat s mod 65535 \<and>
   (unat (fold_carry s) = 0 \<longleftrightarrow> unat s = 0)"
proof (induction s rule: fold_carry.induct)
  case (1 s)
  show ?case
  proof (cases "drop_bit 16 s = 0")
    case True
    then show ?thesis by (simp add: fold_carry.simps [of s] drop_16_zero)
  next
    case False
    have "unat s mod 65536 + unat s div 65536 = 0 \<longleftrightarrow> unat s = 0" by auto
    then show ?thesis
      using "1.IH" [OF False] False carry_mod [of "unat s"]
      by (simp only: fold_carry.simps [of s] unat_carry_step) simp
  qed
qed

lemma unat_checksum: "unat (checksum bs) = 65535 - unat (fold_carry (checksum_sum bs))"
proof -
  let ?f = "fold_carry (checksum_sum bs)"
  have small: "unat ?f < 65536" using fold_carry_props by blast
  then have u: "unat (ucast ?f :: u16) = unat ?f"
    by (simp add: unsigned_ucast_eq take_bit_nat_eq_self)
  have "NOT (ucast ?f :: u16) = - 1 - ucast ?f" by (simp add: not_eq_complement)
  then have "unat (NOT (ucast ?f :: u16)) = unat (- 1 :: u16) - unat (ucast ?f :: u16)"
    by (simp only: unat_sub word_order.extremum)
  then show ?thesis by (simp add: checksum_def u unat_minus_one)
qed

lemma checksum_zero_iff:
  assumes "length bs \<le> 131072"
  shows "checksum bs = 0 \<longleftrightarrow> word_sum bs \<noteq> 0 \<and> word_sum bs mod 65535 = 0"
proof -
  let ?f = "unat (fold_carry (checksum_sum bs))"
  have f: "?f < 65536" "?f mod 65535 = word_sum bs mod 65535" "?f = 0 \<longleftrightarrow> word_sum bs = 0"
    using fold_carry_props [of "checksum_sum bs"] unat_checksum_sum [OF assms] by auto
  have "checksum bs = 0 \<longleftrightarrow> 65535 - ?f = 0" by (simp only: unat_checksum flip: unat_eq_zero)
  also have "\<dots> \<longleftrightarrow> ?f = 65535" using f(1) by linarith
  also have "\<dots> \<longleftrightarrow> ?f \<noteq> 0 \<and> ?f mod 65535 = 0"
  proof
    assume "?f \<noteq> 0 \<and> ?f mod 65535 = 0"
    then show "?f = 65535" using f(1) by (auto elim!: dvdE simp: mod_eq_0_iff_dvd)
  qed simp
  finally show ?thesis using f by simp
qed

text \<open>
  Storing the checksum of a message in a zeroed, aligned field makes the checksum of the
  message zero: what every encoder relies on and every decoder tests.
\<close>

lemma word_sum_insert:
  assumes "even i" "i + 2 \<le> length bs" "slice i (i + 2) bs = [0, 0]"
  shows "word_sum (copy_into i (u16_be c) bs) = word_sum bs + unat c"
proof -
  have bs: "bs = take i bs @ [0, 0] @ drop (i + 2) bs"
    using assms(3) by (metis add_diff_cancel_left' append_take_drop_id drop_drop slice_def add.commute)
  have l: "length (take i bs) = i" using assms(2) by simp
  have "word_sum (copy_into i (u16_be c) bs) = word_sum (take i bs) + (unat c + word_sum (drop (i + 2) bs))"
    using assms(1) l by (simp add: copy_into_def word_sum_append word_sum_pair)
  moreover have "word_sum bs = word_sum (take i bs) + word_sum (drop (i + 2) bs)"
    using assms(1) l by (subst bs) (simp add: word_sum_append word_sum_zero_pair del: append_take_drop_id append_Cons append_Nil)
  ultimately show ?thesis by simp
qed

lemma checksum_insert:
  assumes "even i" "i + 2 \<le> length bs" "slice i (i + 2) bs = [0, 0]" "length bs \<le> 131072"
  shows "checksum (copy_into i (u16_be (checksum bs)) bs) = 0"
proof -
  let ?f = "unat (fold_carry (checksum_sum bs))"
  have f: "?f < 65536" "?f mod 65535 = word_sum bs mod 65535" "?f = 0 \<longleftrightarrow> word_sum bs = 0"
    using fold_carry_props [of "checksum_sum bs"] unat_checksum_sum [OF assms(4)] by auto
  let ?s = "word_sum bs + (65535 - ?f)"
  have s: "word_sum (copy_into i (u16_be (checksum bs)) bs) = ?s"
    by (simp only: word_sum_insert [OF assms(1-3)] unat_checksum)
  have "?s \<noteq> 0" using f by auto
  moreover have "?s mod 65535 = 0"
  proof -
    have "?s mod 65535 = (?f + (65535 - ?f)) mod 65535" using f(2) by (metis mod_add_left_eq)
    also have "\<dots> = 0" using f(1) by simp
    finally show ?thesis .
  qed
  ultimately show ?thesis
    using assms by (subst checksum_zero_iff) (simp_all add: s)
qed

section \<open>Packets\<close>

datatype IpProtocol = Icmp | Tcp | Udp | OspfProtocol | OtherProtocol u8

definition IpProtocol_from :: "u8 \<Rightarrow> IpProtocol" where
  "IpProtocol_from v =
     (if v = 1 then Icmp else if v = 6 then Tcp else if v = 17 then Udp else if v = 89 then OspfProtocol
      else OtherProtocol v)"

fun IpProtocol_code :: "IpProtocol \<Rightarrow> u8" where
  "IpProtocol_code Icmp = 1"
| "IpProtocol_code Tcp = 6"
| "IpProtocol_code Udp = 17"
| "IpProtocol_code OspfProtocol = 89"
| "IpProtocol_code (OtherProtocol v) = v"

record Ipv4Packet =
  ip_dscp_ecn :: u8
  ip_source :: ipv4
  ip_destination :: ipv4
  ip_ttl :: u8
  ip_protocol :: IpProtocol
  ip_payload :: bytes

datatype PacketError = PacketTruncated | UnsupportedHeader | InvalidLength | InvalidChecksum | Expired

definition Ipv4Packet_dscp :: "Ipv4Packet \<Rightarrow> u8" where
  "Ipv4Packet_dscp p = drop_bit 2 (ip_dscp_ecn p)"

definition Ipv4Packet_precedence :: "Ipv4Packet \<Rightarrow> u8" where
  "Ipv4Packet_precedence p = drop_bit 5 (ip_dscp_ecn p)"

definition Ipv4Packet_encode :: "Ipv4Packet \<Rightarrow> PacketError + bytes" where
  "Ipv4Packet_encode p =
     (if ip_ttl p = 0 then Inl Expired
      else let total = 20 + length (ip_payload p)
      in if 65535 < total then Inl InvalidLength
         else let b0 = replicate total 0;
                  b1 = b0[0 := 0x45];
                  b2 = b1[1 := ip_dscp_ecn p];
                  b3 = copy_into 2 (u16_be (of_nat total)) b2;
                  b4 = copy_into 6 (u16_be 0x4000) b3;
                  b5 = b4[8 := ip_ttl p];
                  b6 = b5[9 := IpProtocol_code (ip_protocol p)];
                  b7 = copy_into 12 (octets (ip_source p)) b6;
                  b8 = copy_into 16 (octets (ip_destination p)) b7;
                  b9 = copy_into 10 (u16_be (checksum (take 20 b8))) b8
              in Inr (copy_into 20 (ip_payload p) b9))"

definition Ipv4Packet_decode :: "bytes \<Rightarrow> PacketError + Ipv4Packet" where
  "Ipv4Packet_decode bs =
     (if length bs < 20 then Inl PacketTruncated
      else if bs ! 0 \<noteq> 0x45 \<or> bs ! 6 AND 0x3f \<noteq> 0 \<or> bs ! 7 \<noteq> 0 then Inl UnsupportedHeader
      else let total = unat (u16_at bs 2)
      in if total < 20 \<or> length bs < total then Inl InvalidLength
         else if checksum (take 20 bs) \<noteq> 0 then Inl InvalidChecksum
         else if bs ! 8 = 0 then Inl Expired
         else Inr \<lparr>ip_dscp_ecn = bs ! 1, ip_source = u32_at bs 12, ip_destination = u32_at bs 16,
                   ip_ttl = bs ! 8, ip_protocol = IpProtocol_from (bs ! 9),
                   ip_payload = slice 20 total bs\<rparr>)"

subsection \<open>The header as a concatenation of fields\<close>

definition ip_header :: "Ipv4Packet \<Rightarrow> u16 \<Rightarrow> bytes" where
  "ip_header p c =
     [0x45, ip_dscp_ecn p] @ u16_be (of_nat (20 + length (ip_payload p))) @ [0, 0] @ [0x40, 0] @
     [ip_ttl p, IpProtocol_code (ip_protocol p)] @ u16_be c @
     octets (ip_source p) @ octets (ip_destination p)"

definition wire_packet :: "Ipv4Packet \<Rightarrow> bool" where
  "wire_packet p =
     (ip_ttl p \<noteq> 0 \<and> length (ip_payload p) \<le> 65515 \<and>
      IpProtocol_from (IpProtocol_code (ip_protocol p)) = ip_protocol p)"

lemma IpProtocol_code_from [simp]: "IpProtocol_code (IpProtocol_from v) = v"
  by (simp add: IpProtocol_from_def)

lemma u16_be_0 [simp]: "u16_be 0 = [0, 0]"
  by (simp add: u16_be_def)

lemma u16_be_4000: "u16_be 0x4000 = [0x40, 0]"
  by (simp add: u16_be_def)

lemma length_ip_header [simp]: "length (ip_header p c) = 20"
  by (simp add: ip_header_def)

lemma ip_header_insert: "copy_into 10 (u16_be c) (ip_header p 0) = ip_header p c"
  by (simp add: ip_header_def codec_simps copy_into_def)

lemma ip_header_fields:
  "ip_header p c ! 0 = 0x45" "ip_header p c ! Suc 0 = ip_dscp_ecn p"
  "u16_at (ip_header p c) 2 = of_nat (20 + length (ip_payload p))"
  "ip_header p c ! 6 = 0x40" "ip_header p c ! 7 = 0"
  "ip_header p c ! 8 = ip_ttl p" "ip_header p c ! 9 = IpProtocol_code (ip_protocol p)"
  "slice 10 12 (ip_header p c) = u16_be c"
  "u32_at (ip_header p c) 12 = ip_source p" "u32_at (ip_header p c) 16 = ip_destination p"
  by (simp_all add: ip_header_def codec_simps)

lemma encode_header:
  assumes "ip_ttl p \<noteq> 0" "length (ip_payload p) \<le> 65515"
  shows "Ipv4Packet_encode p = Inr (ip_header p (checksum (ip_header p 0)) @ ip_payload p)"
proof -
  let ?n = "length (ip_payload p)"
  let ?b8 = "copy_into 16 (octets (ip_destination p)) (copy_into 12 (octets (ip_source p))
    ((copy_into 6 (u16_be 0x4000) (copy_into 2 (u16_be (of_nat (20 + ?n)))
      ((replicate (20 + ?n) 0)[0 := 0x45, 1 := ip_dscp_ecn p])))
      [8 := ip_ttl p, 9 := IpProtocol_code (ip_protocol p)]))"
  have split: "replicate (20 + ?n) (0::u8) = replicate 20 0 @ replicate ?n 0" by (rule replicate_add)
  have b8: "?b8 = ip_header p 0 @ replicate ?n 0"
    unfolding split by (simp add: codec_simps ip_header_def u16_be_4000 replicate_numeral)
  have "Ipv4Packet_encode p =
      Inr (copy_into 20 (ip_payload p) (copy_into 10 (u16_be (checksum (take 20 ?b8))) ?b8))"
    using assms by (simp add: Ipv4Packet_encode_def Let_def)
  then show ?thesis
    by (simp only: b8) (simp add: copy_into_append_left copy_into_append_right ip_header_insert)
qed

lemma ip_header_checksum: "checksum (ip_header p (checksum (ip_header p 0))) = 0"
proof -
  have "slice 10 (10 + 2) (ip_header p 0) = [0, 0]"
    using ip_header_fields(8) [of p 0] by simp
  then have "checksum (copy_into 10 (u16_be (checksum (ip_header p 0))) (ip_header p 0)) = 0"
    by (intro checksum_insert) simp_all
  then show ?thesis by (simp only: ip_header_insert)
qed

lemma packet_padded:
  assumes "wire_packet p"
  shows "\<exists>bs. Ipv4Packet_encode p = Inr bs \<and> checksum (take 20 bs) = 0 \<and> Ipv4Packet_decode (bs @ padding) = Inr p"
proof -
  let ?n = "length (ip_payload p)" and ?c = "checksum (ip_header p 0)"
  let ?bs = "ip_header p ?c @ ip_payload p @ padding"
  have wf: "ip_ttl p \<noteq> 0" "?n \<le> 65515" "IpProtocol_from (IpProtocol_code (ip_protocol p)) = ip_protocol p"
    using assms by (auto simp: wire_packet_def)
  have total: "unat (of_nat (20 + ?n) :: u16) = 20 + ?n"
    using wf(2) by (simp only: unat_of_nat) (simp add: mod_less)
  note f = ip_header_fields [of p ?c]
  have "?bs ! 0 = 0x45" "?bs ! 1 = ip_dscp_ecn p" "u16_at ?bs 2 = of_nat (20 + ?n)" "?bs ! 6 = 0x40"
    "?bs ! 7 = 0" "?bs ! 8 = ip_ttl p" "?bs ! 9 = IpProtocol_code (ip_protocol p)"
    "u32_at ?bs 12 = ip_source p" "u32_at ?bs 16 = ip_destination p"
    using f by (simp_all add: codec_simps)
  moreover have "slice 20 (20 + ?n) ?bs = ip_payload p" by (simp add: codec_simps slice_def)
  moreover have "checksum (take 20 ?bs) = 0" by (simp add: ip_header_checksum)
  ultimately have "Ipv4Packet_decode ?bs = Inr p"
    using wf total by (simp add: Ipv4Packet_decode_def Let_def del: of_nat_add)
  then show ?thesis using encode_header [OF wf(1,2)] by (simp add: ip_header_checksum)
qed

lemma packet_decode_encode:
  assumes "wire_packet p" "Ipv4Packet_encode p = Inr bs"
  shows "Ipv4Packet_decode bs = Inr p"
  using packet_padded [OF assms(1), of "[]"] assms(2) by simp

interpretation packet: wire_codec Ipv4Packet_encode Ipv4Packet_decode wire_packet
  by unfold_locales (auto simp: encode_header wire_packet_def intro: packet_decode_encode)

lemma packet_decode_wire: "Ipv4Packet_decode bs = Inr p \<Longrightarrow> wire_packet p"
proof -
  assume dec: "Ipv4Packet_decode bs = Inr p"
  have "unat (u16_at bs 2) < 65536" using unat_bound [of "u16_at bs 2"] by simp
  with dec show ?thesis
    by (auto simp: Ipv4Packet_decode_def Let_def wire_packet_def split: if_splits)
qed

section \<open>Properties\<close>

text \<open>
  C35. IPv4 packets survive the wire: a packet with a live TTL and a payload that fits is encoded,
  with a header checksum its own verification accepts, and decoded back unchanged, also when the
  link appended padding behind it.
\<close>

theorem ipv4_round_trip:
  assumes "wire_packet p"
  shows "\<exists>bs. Ipv4Packet_encode p = Inr bs \<and> checksum (take 20 bs) = 0 \<and> Ipv4Packet_decode (bs @ padding) = Inr p"
  using assms by (rule packet_padded)

definition sample_packet :: Ipv4Packet where
  "sample_packet = \<lparr>ip_dscp_ecn = 0, ip_source = 0x0a000001, ip_destination = 0x0a000002, ip_ttl = 64,
     ip_protocol = Udp, ip_payload = [1, 2, 3]\<rparr>"

theorem ipv4_round_trip_witness:
  "\<exists>bs. Ipv4Packet_encode sample_packet = Inr bs \<and> checksum (take 20 bs) = 0 \<and>
     Ipv4Packet_decode (bs @ [0, 0]) = Inr sample_packet"
  by (rule ipv4_round_trip) (simp add: wire_packet_def sample_packet_def IpProtocol_from_def)

text \<open>
  The Internet checksum is self-verifying: writing the checksum of a buffer into its zeroed,
  even-aligned checksum field makes the checksum of the whole buffer zero, for every buffer up to
  128 KiB, for which the 32-bit accumulator cannot overflow.
\<close>

theorem checksum_self_verifies:
  assumes "even i" "i + 2 \<le> length bs" "slice i (i + 2) bs = [0, 0]" "length bs \<le> 131072"
  shows "checksum (copy_into i (u16_be (checksum bs)) bs) = 0"
  using assms by (rule checksum_insert)

theorem checksum_self_verifies_witness:
  "checksum (copy_into 2 (u16_be (checksum [0xff, 0xff, 0, 0, 7])) [0xff, 0xff, 0, 0, 7]) = 0"
  by (rule checksum_self_verifies) (simp_all add: slice_def)

end
