(* ===== verification/Protocols.thy ===== *)
theory Protocols
  imports Ethernet Ipv4_Packet
begin

text \<open>
  The crate \<open>rios-protocol\<close>, fixed-format messages: ARP, ICMP echo and errors, and NTP
  (\<open>arp.rs\<close>, \<open>icmp.rs\<close>, \<open>ntp.rs\<close>).
\<close>

section \<open>ARP\<close>

datatype ArpOperation = ArpRequest | ArpReply

record ArpPacket =
  arp_operation :: ArpOperation
  arp_sender_mac :: MacAddress
  arp_sender_ip :: ipv4
  arp_target_mac :: MacAddress
  arp_target_ip :: ipv4

datatype ArpPacketError = ArpInvalidLength | ArpUnsupported

definition ArpPacket_encode :: "ArpPacket \<Rightarrow> bytes" where
  "ArpPacket_encode p =
     u16_be 1 @ u16_be 0x0800 @ [6, 4] @
     u16_be (if arp_operation p = ArpRequest then 1 else 2) @
     Mac_octets (arp_sender_mac p) @ octets (arp_sender_ip p) @
     Mac_octets (arp_target_mac p) @ octets (arp_target_ip p)"

definition ArpPacket_decode :: "bytes \<Rightarrow> ArpPacketError + ArpPacket" where
  "ArpPacket_decode bs =
     (if length bs \<noteq> 28 then Inl ArpInvalidLength
      else if take 6 bs \<noteq> [0, 1, 8, 0, 6, 4] then Inl ArpUnsupported
      else and_then
        (let op = u16_at bs 6
         in if op = 1 then Inr ArpRequest else if op = 2 then Inr ArpReply else Inl ArpUnsupported)
        (\<lambda>operation. Inr \<lparr>arp_operation = operation,
           arp_sender_mac = Mac_of (slice 8 14 bs), arp_sender_ip = u32_at bs 14,
           arp_target_mac = Mac_of (slice 18 24 bs), arp_target_ip = u32_at bs 24\<rparr>))"

lemma arp_decode_encode: "ArpPacket_decode (ArpPacket_encode p) = Inr p"
proof -
  let ?bs = "ArpPacket_encode p" and ?op = "if arp_operation p = ArpRequest then 1 else (2::u16)"
  have prefix: "u16_be 1 @ u16_be 0x0800 = [0, 1, 8, 0]" by (simp add: u16_be_def)
  then have bs: "?bs = [0, 1, 8, 0, 6, 4] @ u16_be ?op @ Mac_octets (arp_sender_mac p) @
      octets (arp_sender_ip p) @ Mac_octets (arp_target_mac p) @ octets (arp_target_ip p)"
    unfolding ArpPacket_encode_def by (simp flip: append_assoc)
  have "length ?bs = 28" "take 6 ?bs = [0, 1, 8, 0, 6, 4]" "u16_at ?bs 6 = ?op"
    "Mac_of (slice 8 14 ?bs) = arp_sender_mac p" "u32_at ?bs 14 = arp_sender_ip p"
    "Mac_of (slice 18 24 ?bs) = arp_target_mac p" "u32_at ?bs 24 = arp_target_ip p"
    unfolding bs by (simp_all add: codec_simps)
  then show ?thesis
    by (cases "arp_operation p") (simp_all add: ArpPacket_decode_def)
qed

interpretation arp: wire_codec "\<lambda>p. Inr (ArpPacket_encode p)" ArpPacket_decode "\<lambda>_. True"
  by unfold_locales (auto simp: arp_decode_encode)

section \<open>ICMP\<close>

datatype IcmpKind = EchoRequest | EchoReply
datatype IcmpErrorKind = DestinationUnreachable | TimeExceeded

record IcmpError =
  ie_kind :: IcmpErrorKind
  ie_code :: u8
  ie_quoted_packet :: bytes

record IcmpEcho =
  ic_kind :: IcmpKind
  ic_identifier :: u16
  ic_sequence :: u16
  ic_payload :: bytes

datatype IcmpPacketError = IcmpTruncated | IcmpUnsupported | IcmpInvalidChecksum

definition IcmpEcho_encode :: "IcmpEcho \<Rightarrow> bytes" where
  "IcmpEcho_encode e =
     (let b0 = replicate (8 + length (ic_payload e)) 0;
          b1 = b0[0 := (if ic_kind e = EchoRequest then 8 else 0)];
          b2 = copy_into 4 (u16_be (ic_identifier e)) b1;
          b3 = copy_into 6 (u16_be (ic_sequence e)) b2;
          b4 = copy_into 8 (ic_payload e) b3
      in copy_into 2 (u16_be (checksum b4)) b4)"

definition IcmpEcho_decode :: "bytes \<Rightarrow> IcmpPacketError + IcmpEcho" where
  "IcmpEcho_decode bs =
     (if length bs < 8 then Inl IcmpTruncated
      else and_then
        (if bs ! 0 = 8 \<and> bs ! 1 = 0 then Inr EchoRequest
         else if bs ! 0 = 0 \<and> bs ! 1 = 0 then Inr EchoReply else Inl IcmpUnsupported)
        (\<lambda>kind. if checksum bs \<noteq> 0 then Inl IcmpInvalidChecksum
           else Inr \<lparr>ic_kind = kind, ic_identifier = u16_at bs 4, ic_sequence = u16_at bs 6,
                     ic_payload = drop 8 bs\<rparr>))"

definition IcmpError_encode :: "IcmpError \<Rightarrow> bytes" where
  "IcmpError_encode e =
     (let b0 = replicate (8 + length (ie_quoted_packet e)) 0;
          b1 = b0[0 := (case ie_kind e of DestinationUnreachable \<Rightarrow> 3 | TimeExceeded \<Rightarrow> 11)];
          b2 = b1[1 := ie_code e];
          b3 = copy_into 8 (ie_quoted_packet e) b2
      in copy_into 2 (u16_be (checksum b3)) b3)"

definition IcmpError_decode :: "bytes \<Rightarrow> IcmpPacketError + IcmpError" where
  "IcmpError_decode bs =
     (if length bs < 8 then Inl IcmpTruncated
      else and_then
        (if bs ! 0 = 3 then Inr DestinationUnreachable
         else if bs ! 0 = 11 then Inr TimeExceeded else Inl IcmpUnsupported)
        (\<lambda>kind. if checksum bs \<noteq> 0 then Inl IcmpInvalidChecksum
           else Inr \<lparr>ie_kind = kind, ie_code = bs ! 1, ie_quoted_packet = drop 8 bs\<rparr>))"

text \<open>Both messages are type, code, checksum, four bytes and a body.\<close>

definition icmp_bytes :: "u8 \<Rightarrow> u8 \<Rightarrow> u16 \<Rightarrow> bytes \<Rightarrow> bytes" where
  "icmp_bytes t code c rest = [t, code] @ u16_be c @ rest"

lemma icmp_checksum:
  assumes "length rest \<le> 131068"
  shows "checksum (icmp_bytes t code (checksum (icmp_bytes t code 0 rest)) rest) = 0"
proof -
  have eq: "icmp_bytes t code c rest = copy_into 2 (u16_be c) (icmp_bytes t code 0 rest)" for c
    by (simp add: icmp_bytes_def codec_simps)
  have "slice 2 (2 + 2) (icmp_bytes t code 0 rest) = [0, 0]"
    by (simp add: icmp_bytes_def codec_simps)
  then show ?thesis
    using assms by (subst eq, intro checksum_insert) (simp_all add: icmp_bytes_def)
qed

lemma echo_bytes:
  "IcmpEcho_encode e =
     (let t = (if ic_kind e = EchoRequest then 8 else 0);
          rest = u16_be (ic_identifier e) @ u16_be (ic_sequence e) @ ic_payload e
      in icmp_bytes t 0 (checksum (icmp_bytes t 0 0 rest)) rest)"
proof -
  have split: "replicate (8 + n) (0::u8) = replicate 8 0 @ replicate n 0" for n by (rule replicate_add)
  show ?thesis
    unfolding IcmpEcho_encode_def Let_def split
    by (simp add: codec_simps icmp_bytes_def replicate_numeral)
qed

lemma error_bytes:
  "IcmpError_encode e =
     (let t = (case ie_kind e of DestinationUnreachable \<Rightarrow> 3 | TimeExceeded \<Rightarrow> 11);
          rest = [0, 0, 0, 0] @ ie_quoted_packet e
      in icmp_bytes t (ie_code e) (checksum (icmp_bytes t (ie_code e) 0 rest)) rest)"
proof -
  have split: "replicate (8 + n) (0::u8) = replicate 8 0 @ replicate n 0" for n by (rule replicate_add)
  show ?thesis
    unfolding IcmpError_encode_def Let_def split
    by (simp add: codec_simps icmp_bytes_def replicate_numeral)
qed

definition wire_echo :: "IcmpEcho \<Rightarrow> bool" where
  "wire_echo e = (length (ic_payload e) \<le> 131064)"

definition wire_icmp_error :: "IcmpError \<Rightarrow> bool" where
  "wire_icmp_error e = (length (ie_quoted_packet e) \<le> 131064)"

lemma echo_decode_encode:
  assumes "wire_echo e"
  shows "IcmpEcho_decode (IcmpEcho_encode e) = Inr e"
proof -
  let ?rest = "u16_be (ic_identifier e) @ u16_be (ic_sequence e) @ ic_payload e"
  let ?t = "if ic_kind e = EchoRequest then 8 else (0::u8)"
  let ?bs = "IcmpEcho_encode e"
  have sum: "checksum ?bs = 0"
    using icmp_checksum [of ?rest ?t 0] assms by (simp add: echo_bytes Let_def wire_echo_def)
  obtain c where bs: "?bs = icmp_bytes ?t 0 c ?rest" by (simp add: echo_bytes Let_def)
  have "?bs ! 0 = ?t" "?bs ! 1 = 0" "u16_at ?bs 4 = ic_identifier e" "u16_at ?bs 6 = ic_sequence e"
    "drop 8 ?bs = ic_payload e" "\<not> length ?bs < 8"
    unfolding bs by (simp_all add: icmp_bytes_def codec_simps)
  with sum show ?thesis
    by (cases "ic_kind e") (simp_all add: IcmpEcho_decode_def)
qed

lemma icmp_error_decode_encode:
  assumes "wire_icmp_error e"
  shows "IcmpError_decode (IcmpError_encode e) = Inr e"
proof -
  let ?rest = "[0, 0, 0, 0] @ ie_quoted_packet e"
  let ?t = "case ie_kind e of DestinationUnreachable \<Rightarrow> 3 | TimeExceeded \<Rightarrow> (11::u8)"
  let ?bs = "IcmpError_encode e"
  have sum: "checksum ?bs = 0"
    using icmp_checksum [of ?rest ?t "ie_code e"] assms by (simp add: error_bytes Let_def wire_icmp_error_def)
  obtain c where bs: "?bs = icmp_bytes ?t (ie_code e) c ?rest" by (simp add: error_bytes Let_def)
  have "?bs ! 0 = ?t" "?bs ! 1 = ie_code e" "drop 8 ?bs = ie_quoted_packet e" "\<not> length ?bs < 8"
    unfolding bs by (simp_all add: icmp_bytes_def codec_simps)
  with sum show ?thesis
    by (cases "ie_kind e") (simp_all add: IcmpError_decode_def)
qed

interpretation echo: wire_codec "\<lambda>e. Inr (IcmpEcho_encode e)" IcmpEcho_decode wire_echo
  by unfold_locales (auto simp: echo_decode_encode)

interpretation icmp_error: wire_codec "\<lambda>e. Inr (IcmpError_encode e)" IcmpError_decode wire_icmp_error
  by unfold_locales (auto simp: icmp_error_decode_encode)

section \<open>NTP\<close>

datatype NtpError = NtpError

datatype NtpTimestamp = NtpTimestamp (ntp_value: u64)

definition NtpTimestamp_from_simulation :: "u64 \<Rightarrow> u64 \<Rightarrow> NtpTimestamp" where
  "NtpTimestamp_from_simulation epoch_seconds elapsed_us =
     (let seconds = ucast (epoch_seconds + 2208988800 + elapsed_us div 1000000) :: u32;
          fraction = ucast (push_bit 32 (ucast (elapsed_us mod 1000000) :: u128) div 1000000) :: u32
      in NtpTimestamp (push_bit 32 (ucast seconds) OR ucast fraction))"

text \<open>The signed fields \<open>poll\<close> and \<open>precision\<close> are kept as their two's-complement octet.\<close>

record NtpPacket =
  ntp_leap :: u8
  ntp_version :: u8
  ntp_mode :: u8
  ntp_stratum :: u8
  ntp_poll :: u8
  ntp_precision :: u8
  ntp_root_delay :: u32
  ntp_root_dispersion :: u32
  ntp_reference_id :: u32
  ntp_reference :: NtpTimestamp
  ntp_origin :: NtpTimestamp
  ntp_receive :: NtpTimestamp
  ntp_transmit :: NtpTimestamp

definition NtpPacket_request :: "NtpTimestamp \<Rightarrow> NtpPacket" where
  "NtpPacket_request transmit =
     \<lparr>ntp_leap = 0, ntp_version = 4, ntp_mode = 3, ntp_stratum = 0, ntp_poll = 6, ntp_precision = - 20,
      ntp_root_delay = 0, ntp_root_dispersion = 0, ntp_reference_id = 0,
      ntp_reference = NtpTimestamp 0, ntp_origin = NtpTimestamp 0, ntp_receive = NtpTimestamp 0,
      ntp_transmit = transmit\<rparr>"

definition NtpPacket_encode :: "NtpPacket \<Rightarrow> NtpError + bytes" where
  "NtpPacket_encode p =
     (if 3 < ntp_leap p \<or> ntp_version p \<notin> {3, 4} \<or> 7 < ntp_mode p then Inl NtpError
      else let b0 = replicate 48 0;
               b1 = copy_into 0 [push_bit 6 (ntp_leap p) OR push_bit 3 (ntp_version p) OR ntp_mode p,
                                 ntp_stratum p, ntp_poll p, ntp_precision p] b0;
               b2 = copy_into 4 (u32_be (ntp_root_delay p)) b1;
               b3 = copy_into 8 (u32_be (ntp_root_dispersion p)) b2;
               b4 = copy_into 12 (u32_be (ntp_reference_id p)) b3
           in Inr (foldl (\<lambda>b (i, t). copy_into (16 + i * 8) (u64_be (ntp_value t)) b) b4
                (zip [0..<4] [ntp_reference p, ntp_origin p, ntp_receive p, ntp_transmit p])))"

definition NtpPacket_decode :: "bytes \<Rightarrow> NtpError + NtpPacket" where
  "NtpPacket_decode bs =
     (if length bs \<noteq> 48 \<or> drop_bit 3 (bs ! 0) AND 7 \<notin> {3, 4} then Inl NtpError
      else Inr \<lparr>ntp_leap = drop_bit 6 (bs ! 0), ntp_version = drop_bit 3 (bs ! 0) AND 7,
                ntp_mode = bs ! 0 AND 7, ntp_stratum = bs ! 1, ntp_poll = bs ! 2, ntp_precision = bs ! 3,
                ntp_root_delay = u32_at bs 4, ntp_root_dispersion = u32_at bs 8,
                ntp_reference_id = u32_at bs 12, ntp_reference = NtpTimestamp (u64_at bs 16),
                ntp_origin = NtpTimestamp (u64_at bs 24), ntp_receive = NtpTimestamp (u64_at bs 32),
                ntp_transmit = NtpTimestamp (u64_at bs 40)\<rparr>)"

definition wire_ntp :: "NtpPacket \<Rightarrow> bool" where
  "wire_ntp p = (ntp_leap p \<le> 3 \<and> ntp_version p \<in> {3, 4} \<and> ntp_mode p \<le> 7)"

definition ntp_first :: "u8 \<Rightarrow> u8 \<Rightarrow> u8 \<Rightarrow> u8" where
  "ntp_first l v m = push_bit 6 l OR push_bit 3 v OR m"

text \<open>The packed first octet is decided by running through its 64 legal values.\<close>

lemma ntp_first_fields:
  assumes "l \<le> 3" "v \<in> {3, 4}" "m \<le> 7"
  shows "drop_bit 6 (ntp_first l v m) = l \<and> drop_bit 3 (ntp_first l v m) AND 7 = v \<and> ntp_first l v m AND 7 = m"
proof -
  let ?P = "\<lambda>l v m. drop_bit 6 (ntp_first l v m) = l \<and> drop_bit 3 (ntp_first l v m) AND 7 = v \<and> ntp_first l v m AND 7 = m"
  have table: "list_all (\<lambda>l. list_all (\<lambda>v. list_all (\<lambda>m. ?P (of_nat l) (of_nat v) (of_nat m)) [0..<8]) [3, 4]) [0..<4]"
    by code_simp
  have "unat l \<in> set [0..<4]" "unat v \<in> set [3, 4]" "unat m \<in> set [0..<8]"
    using assms by (auto simp: word_le_nat_alt)
  then have "?P (of_nat (unat l)) (of_nat (unat v)) (of_nat (unat m))"
    using table unfolding list_all_iff by blast
  then show ?thesis by simp
qed

definition ntp_bytes :: "NtpPacket \<Rightarrow> bytes" where
  "ntp_bytes p =
     [ntp_first (ntp_leap p) (ntp_version p) (ntp_mode p), ntp_stratum p, ntp_poll p, ntp_precision p] @
     u32_be (ntp_root_delay p) @ u32_be (ntp_root_dispersion p) @ u32_be (ntp_reference_id p) @
     u64_be (ntp_value (ntp_reference p)) @ u64_be (ntp_value (ntp_origin p)) @
     u64_be (ntp_value (ntp_receive p)) @ u64_be (ntp_value (ntp_transmit p))"

lemma ntp_encode_bytes: "wire_ntp p \<Longrightarrow> NtpPacket_encode p = Inr (ntp_bytes p)"
proof -
  assume "wire_ntp p"
  moreover have "[0..<4::nat] = [0, 1, 2, 3]" by (simp add: upt_rec)
  ultimately show ?thesis
    by (simp add: NtpPacket_encode_def ntp_bytes_def ntp_first_def wire_ntp_def Let_def codec_simps not_less)
qed

lemma ntp_bytes_fields:
  "length (ntp_bytes p) = 48" "ntp_bytes p ! 0 = ntp_first (ntp_leap p) (ntp_version p) (ntp_mode p)"
  "ntp_bytes p ! 1 = ntp_stratum p" "ntp_bytes p ! 2 = ntp_poll p" "ntp_bytes p ! 3 = ntp_precision p"
  "u32_at (ntp_bytes p) 4 = ntp_root_delay p" "u32_at (ntp_bytes p) 8 = ntp_root_dispersion p"
  "u32_at (ntp_bytes p) 12 = ntp_reference_id p" "u64_at (ntp_bytes p) 16 = ntp_value (ntp_reference p)"
  "u64_at (ntp_bytes p) 24 = ntp_value (ntp_origin p)" "u64_at (ntp_bytes p) 32 = ntp_value (ntp_receive p)"
  "u64_at (ntp_bytes p) 40 = ntp_value (ntp_transmit p)"
  by (simp_all add: ntp_bytes_def codec_simps)

lemma ntp_decode_encode: "wire_ntp p \<Longrightarrow> NtpPacket_decode (ntp_bytes p) = Inr p"
  using ntp_first_fields [of "ntp_leap p" "ntp_version p" "ntp_mode p"]
  by (simp add: NtpPacket_decode_def ntp_bytes_fields wire_ntp_def del: One_nat_def)

interpretation ntp: wire_codec NtpPacket_encode NtpPacket_decode wire_ntp
  by unfold_locales (auto simp: ntp_encode_bytes ntp_decode_encode)

lemma ntp_request_wire: "wire_ntp (NtpPacket_request t)"
  by (simp add: NtpPacket_request_def wire_ntp_def)

end
