(* ===== verification/Transport.thy ===== *)
theory Transport
  imports Ipv4_Packet
begin

text \<open>
  The crate \<open>rios-protocol\<close>, transports over IPv4: UDP datagrams (\<open>udp.rs\<close>) and TCP segments
  (\<open>tcp.rs\<close>), both protected by the Internet checksum over a pseudoheader.
\<close>

section \<open>The pseudoheader\<close>

text \<open>
  \<open>udp::checksum\<close> and \<open>tcp::pseudoheader\<close> prepend the same twelve bytes with their own
  protocol number.
\<close>

definition pseudo_prefix :: "ipv4 \<Rightarrow> ipv4 \<Rightarrow> u8 \<Rightarrow> u16 \<Rightarrow> bytes" where
  "pseudo_prefix source destination protocol len =
     octets source @ octets destination @ [0, protocol] @ u16_be len"

lemma length_pseudo_prefix [simp]: "length (pseudo_prefix s d p n) = 12"
  by (simp add: pseudo_prefix_def)

lemma pseudo_word_sum: "word_sum (pseudo_prefix s d p n @ bs) = word_sum (pseudo_prefix s d p n) + word_sum bs"
  by (rule word_sum_append) simp

lemma pseudo_insert:
  assumes "even i" "i + 2 \<le> length bs" "slice i (i + 2) bs = [0, 0]" "length bs \<le> 65535"
  shows "checksum (pseudo_prefix s d p n @ copy_into i (u16_be (checksum (pseudo_prefix s d p n @ bs))) bs) = 0"
proof -
  let ?all = "pseudo_prefix s d p n @ bs"
  have "checksum (copy_into (12 + i) (u16_be (checksum ?all)) ?all) = 0"
    using assms by (intro checksum_insert) (simp_all add: codec_simps)
  then show ?thesis by (simp add: copy_into_right)
qed

lemma pseudo_swap:
  assumes "length bs \<le> 65535"
  shows "checksum (pseudo_prefix s d p n @ bs) = 0 \<longleftrightarrow> checksum (pseudo_prefix d s p n @ bs) = 0"
proof -
  have "word_sum (pseudo_prefix s d p n) = word_sum (pseudo_prefix d s p n)"
    by (simp add: pseudo_prefix_def word_sum_append)
  then show ?thesis
    using assms by (simp add: checksum_zero_iff pseudo_word_sum)
qed

section \<open>UDP\<close>

record UdpDatagram =
  udp_source_port :: u16
  udp_destination_port :: u16
  udp_payload :: bytes

datatype UdpPacketError = UdpTruncated | UdpChecksum | UdpInvalidLength

definition udp_checksum :: "ipv4 \<Rightarrow> ipv4 \<Rightarrow> bytes \<Rightarrow> u16" where
  "udp_checksum source destination bs =
     checksum (octets source @ octets destination @ [0, 17] @ u16_be (of_nat (length bs)) @ bs)"

definition UdpDatagram_encode :: "UdpDatagram \<Rightarrow> UdpPacketError + bytes" where
  "UdpDatagram_encode d =
     (let len = 8 + length (udp_payload d)
      in if 65535 < len then Inl UdpInvalidLength
         else let b0 = replicate len 0;
                  b1 = copy_into 0 (u16_be (udp_source_port d)) b0;
                  b2 = copy_into 2 (u16_be (udp_destination_port d)) b1;
                  b3 = copy_into 4 (u16_be (of_nat len)) b2
              in Inr (copy_into 8 (udp_payload d) b3))"

definition UdpDatagram_decode :: "bytes \<Rightarrow> UdpPacketError + UdpDatagram" where
  "UdpDatagram_decode bs =
     (if length bs < 8 then Inl UdpTruncated
      else let len = unat (u16_at bs 4)
      in if len < 8 \<or> length bs < len then Inl UdpInvalidLength
         else Inr \<lparr>udp_source_port = u16_at bs 0, udp_destination_port = u16_at bs 2,
                   udp_payload = slice 8 len bs\<rparr>)"

definition UdpDatagram_encode_ipv4 :: "ipv4 \<Rightarrow> ipv4 \<Rightarrow> UdpDatagram \<Rightarrow> UdpPacketError + bytes" where
  "UdpDatagram_encode_ipv4 source destination d =
     and_then (UdpDatagram_encode d) (\<lambda>bs.
       let c = udp_checksum source destination bs
       in Inr (copy_into 6 (u16_be (if c = 0 then 0xffff else c)) bs))"

definition UdpDatagram_decode_ipv4 :: "ipv4 \<Rightarrow> ipv4 \<Rightarrow> bytes \<Rightarrow> UdpPacketError + UdpDatagram" where
  "UdpDatagram_decode_ipv4 source destination bs =
     and_then (UdpDatagram_decode bs) (\<lambda>datagram.
       let len = unat (u16_at bs 4)
       in if slice 6 8 bs \<noteq> [0, 0] \<and> udp_checksum source destination (take len bs) \<noteq> 0
          then Inl UdpChecksum else Inr datagram)"

definition udp_bytes :: "UdpDatagram \<Rightarrow> u16 \<Rightarrow> bytes" where
  "udp_bytes d c =
     u16_be (udp_source_port d) @ u16_be (udp_destination_port d) @
     u16_be (of_nat (8 + length (udp_payload d))) @ u16_be c @ udp_payload d"

definition wire_datagram :: "UdpDatagram \<Rightarrow> bool" where
  "wire_datagram d = (length (udp_payload d) \<le> 65527)"

lemma length_udp_bytes [simp]: "length (udp_bytes d c) = 8 + length (udp_payload d)"
  by (simp add: udp_bytes_def)

lemma udp_encode_bytes: "wire_datagram d \<Longrightarrow> UdpDatagram_encode d = Inr (udp_bytes d 0)"
proof -
  assume wire: "wire_datagram d"
  have split: "replicate (8 + n) (0::u8) = replicate 8 0 @ replicate n 0" for n by (rule replicate_add)
  show ?thesis
    using wire unfolding UdpDatagram_encode_def Let_def split
    by (simp add: codec_simps udp_bytes_def wire_datagram_def replicate_numeral)
qed

lemma udp_bytes_insert: "copy_into 6 (u16_be c) (udp_bytes d 0) = udp_bytes d c"
  by (simp add: udp_bytes_def codec_simps copy_into_def)

lemma udp_bytes_fields:
  "u16_at (udp_bytes d c) 0 = udp_source_port d" "u16_at (udp_bytes d c) 2 = udp_destination_port d"
  "u16_at (udp_bytes d c) 4 = of_nat (8 + length (udp_payload d))"
  "slice 6 8 (udp_bytes d c) = u16_be c" "slice 8 (8 + length (udp_payload d)) (udp_bytes d c) = udp_payload d"
  by (simp_all add: udp_bytes_def codec_simps)

lemma udp_decode_bytes:
  assumes "wire_datagram d"
  shows "UdpDatagram_decode (udp_bytes d c) = Inr d"
proof -
  have "unat (of_nat (8 + length (udp_payload d)) :: u16) = 8 + length (udp_payload d)"
    using assms by (simp only: unat_of_nat) (simp add: wire_datagram_def)
  then show ?thesis
    by (simp add: UdpDatagram_decode_def Let_def udp_bytes_fields del: of_nat_add)
qed

interpretation udp: wire_codec UdpDatagram_encode UdpDatagram_decode wire_datagram
  by unfold_locales (auto simp: udp_encode_bytes udp_decode_bytes)

lemma udp_checksum_prefix:
  "udp_checksum s d bs = checksum (pseudo_prefix s d 17 (of_nat (length bs)) @ bs)"
  by (simp add: udp_checksum_def pseudo_prefix_def)

text \<open>The substitution of \<open>0xffff\<close> for a zero checksum keeps the one's-complement sum.\<close>

lemma udp_checksum_encoded:
  assumes "wire_datagram d"
  shows "udp_checksum s t (udp_bytes d (let c = udp_checksum s t (udp_bytes d 0) in if c = 0 then 0xffff else c)) = 0"
proof -
  let ?p = "pseudo_prefix s t 17 (of_nat (length (udp_bytes d 0)))"
  let ?c = "checksum (?p @ udp_bytes d 0)"
  have len: "length (udp_bytes d 0) \<le> 65535" using assms by (simp add: wire_datagram_def)
  have zero: "slice 6 (6 + 2) (udp_bytes d 0) = [0, 0]" by (simp add: udp_bytes_fields)
  show ?thesis
  proof (cases "?c = 0")
    case True
    have "word_sum (udp_bytes d 0xffff) = word_sum (udp_bytes d 0) + 65535"
      using word_sum_insert [OF _ _ zero, of "0xffff"] by (simp add: udp_bytes_insert)
    then have "word_sum (?p @ udp_bytes d 0xffff) = word_sum (?p @ udp_bytes d 0) + 65535"
      by (simp add: pseudo_word_sum)
    then have "checksum (?p @ udp_bytes d 0xffff) = 0"
      using True len by (simp add: checksum_zero_iff)
    then show ?thesis using True by (simp add: udp_checksum_prefix)
  next
    case False
    have "checksum (?p @ copy_into 6 (u16_be ?c) (udp_bytes d 0)) = 0"
      using zero len by (intro pseudo_insert) simp_all
    then show ?thesis using False by (simp add: udp_checksum_prefix udp_bytes_insert)
  qed
qed

lemma udp_encode_ipv4_bytes:
  assumes "wire_datagram d"
  shows "UdpDatagram_encode_ipv4 s t d =
    Inr (udp_bytes d (let c = udp_checksum s t (udp_bytes d 0) in if c = 0 then 0xffff else c))"
  using assms by (simp add: UdpDatagram_encode_ipv4_def udp_encode_bytes udp_bytes_insert Let_def)

lemma udp_decode_encode_ipv4:
  assumes "wire_datagram d" "UdpDatagram_encode_ipv4 s t d = Inr bs"
  shows "UdpDatagram_decode_ipv4 s t bs = Inr d"
proof -
  let ?c = "let c = udp_checksum s t (udp_bytes d 0) in if c = 0 then 0xffff else c"
  have bs: "bs = udp_bytes d ?c" using assms by (simp add: udp_encode_ipv4_bytes)
  have "unat (of_nat (8 + length (udp_payload d)) :: u16) = 8 + length (udp_payload d)"
    using assms by (simp only: unat_of_nat) (simp add: wire_datagram_def)
  then have "take (unat (u16_at bs 4)) bs = bs" by (simp add: bs udp_bytes_fields del: of_nat_add)
  moreover have "udp_checksum s t bs = 0"
    using udp_checksum_encoded [OF assms(1), of s t] by (simp add: bs)
  ultimately show ?thesis
    using assms(1) by (simp add: UdpDatagram_decode_ipv4_def Let_def bs udp_decode_bytes)
qed

text \<open>Between a fixed pair of addresses the checksummed encoding is again a codec.\<close>

lemma udp_ipv4_codec: "wire_codec (UdpDatagram_encode_ipv4 s t) (UdpDatagram_decode_ipv4 s t) wire_datagram"
  by unfold_locales (auto simp: udp_encode_ipv4_bytes intro: udp_decode_encode_ipv4)

text \<open>An emitted checksum field is never the zero that marks an omitted checksum.\<close>

lemma udp_checksum_present:
  assumes "wire_datagram d" "UdpDatagram_encode_ipv4 s t d = Inr bs"
  shows "slice 6 8 bs \<noteq> [0, 0]"
proof -
  let ?c = "let c = udp_checksum s t (udp_bytes d 0) in if c = 0 then 0xffff else c"
  have "?c \<noteq> 0" by (simp add: Let_def)
  moreover have "u16_be c = [0, 0] \<longleftrightarrow> c = 0" for c by (metis u16_be_0 u16_at_be(1))
  moreover have "slice 6 8 bs = u16_be ?c"
    using assms by (simp add: udp_encode_ipv4_bytes) (metis udp_bytes_fields(4))
  ultimately show ?thesis by simp
qed

section \<open>TCP\<close>

datatype TcpFlags = TcpFlags u8

fun tcp_bits :: "TcpFlags \<Rightarrow> u8" where
  "tcp_bits (TcpFlags b) = b"

definition FIN :: TcpFlags where "FIN = TcpFlags 1"
definition SYN :: TcpFlags where "SYN = TcpFlags 2"
definition RST :: TcpFlags where "RST = TcpFlags 4"
definition PSH :: TcpFlags where "PSH = TcpFlags 8"
definition ACK :: TcpFlags where "ACK = TcpFlags 16"

definition TcpFlags_contains :: "TcpFlags \<Rightarrow> TcpFlags \<Rightarrow> bool" where
  "TcpFlags_contains f g = (tcp_bits f AND tcp_bits g = tcp_bits g)"

definition TcpFlags_bitor :: "TcpFlags \<Rightarrow> TcpFlags \<Rightarrow> TcpFlags" where
  "TcpFlags_bitor f g = TcpFlags (tcp_bits f OR tcp_bits g)"

record TcpSegment =
  tcp_source_port :: u16
  tcp_destination_port :: u16
  tcp_sequence :: u32
  tcp_acknowledgment :: u32
  tcp_flags :: TcpFlags
  tcp_window :: u16
  tcp_options :: bytes
  tcp_payload :: bytes

datatype TcpPacketError = TcpTruncated | TcpInvalidLength | TcpInvalidChecksum | TcpUnsupportedHeader

text \<open>The option walk: kind 0 ends it, kind 1 is one byte, every other kind carries its length.\<close>

function checked_options_from :: "bytes \<Rightarrow> nat \<Rightarrow> bool" where
  "checked_options_from options offset =
     (if offset < length options then
        if options ! offset = 0 then True
        else if options ! offset = 1 then checked_options_from options (offset + 1)
        else case get_at (offset + 1) options of
            None \<Rightarrow> False
          | Some len \<Rightarrow>
              if len < 2 \<or> length options < offset + unat len then False
              else checked_options_from options (offset + unat len)
      else True)"
  by pat_completeness auto
termination
  by (relation "measure (\<lambda>(options, offset). length options - offset)")
    (auto simp: word_less_nat_alt)

declare checked_options_from.simps [simp del]

definition checked_options :: "bytes \<Rightarrow> bool" where
  "checked_options options = checked_options_from options 0"

definition tcp_pseudoheader :: "ipv4 \<Rightarrow> ipv4 \<Rightarrow> bytes \<Rightarrow> TcpPacketError + bytes" where
  "tcp_pseudoheader source destination bs =
     (if 65535 < length bs then Inl TcpInvalidLength
      else Inr (octets source @ octets destination @ [0, 6] @ u16_be (of_nat (length bs)) @ bs))"

definition TcpSegment_encode :: "ipv4 \<Rightarrow> ipv4 \<Rightarrow> TcpSegment \<Rightarrow> TcpPacketError + bytes" where
  "TcpSegment_encode source destination s =
     (if 40 < length (tcp_options s) \<or> \<not> 4 dvd length (tcp_options s) \<or>
         \<not> checked_options (tcp_options s)
      then Inl TcpInvalidLength
      else let header = 20 + length (tcp_options s);
               len = header + length (tcp_payload s)
      in if 65515 < len then Inl TcpInvalidLength
         else let b0 = replicate len 0;
                  b1 = copy_into 0 (u16_be (tcp_source_port s)) b0;
                  b2 = copy_into 2 (u16_be (tcp_destination_port s)) b1;
                  b3 = copy_into 4 (u32_be (tcp_sequence s)) b2;
                  b4 = copy_into 8 (u32_be (tcp_acknowledgment s)) b3;
                  b5 = b4[12 := push_bit 4 (of_nat (header div 4))];
                  b6 = b5[13 := tcp_bits (tcp_flags s)];
                  b7 = copy_into 14 (u16_be (tcp_window s)) b6;
                  b8 = copy_into 20 (tcp_options s) b7;
                  b9 = copy_into header (tcp_payload s) b8
              in and_then (tcp_pseudoheader source destination b9) (\<lambda>pseudo.
                   Inr (copy_into 16 (u16_be (checksum pseudo)) b9)))"

definition TcpSegment_decode :: "ipv4 \<Rightarrow> ipv4 \<Rightarrow> bytes \<Rightarrow> TcpPacketError + TcpSegment" where
  "TcpSegment_decode source destination bs =
     (if length bs < 20 then Inl TcpTruncated
      else let header = unat (drop_bit 4 (bs ! 12)) * 4
      in if header < 20 \<or> length bs < header \<or> 65515 < length bs \<or>
            \<not> checked_options (slice 20 header bs)
         then Inl TcpInvalidLength
         else if bs ! 12 AND 0x0f \<noteq> 0 \<or> slice 18 20 bs \<noteq> [0, 0] then Inl TcpUnsupportedHeader
         else and_then (tcp_pseudoheader source destination bs) (\<lambda>pseudo.
           if checksum pseudo \<noteq> 0 then Inl TcpInvalidChecksum
           else Inr \<lparr>tcp_source_port = u16_at bs 0, tcp_destination_port = u16_at bs 2,
                     tcp_sequence = u32_at bs 4, tcp_acknowledgment = u32_at bs 8,
                     tcp_flags = TcpFlags (bs ! 13), tcp_window = u16_at bs 14,
                     tcp_options = slice 20 header bs, tcp_payload = drop header bs\<rparr>))"

definition TcpSegment_sequence_len :: "TcpSegment \<Rightarrow> u32" where
  "TcpSegment_sequence_len s =
     of_nat (length (tcp_payload s)) + of_bool (TcpFlags_contains (tcp_flags s) SYN) +
     of_bool (TcpFlags_contains (tcp_flags s) FIN)"

definition tcp_bytes :: "TcpSegment \<Rightarrow> u16 \<Rightarrow> bytes" where
  "tcp_bytes s c =
     u16_be (tcp_source_port s) @ u16_be (tcp_destination_port s) @ u32_be (tcp_sequence s) @
     u32_be (tcp_acknowledgment s) @
     [push_bit 4 (of_nat ((20 + length (tcp_options s)) div 4)), tcp_bits (tcp_flags s)] @
     u16_be (tcp_window s) @ u16_be c @ [0, 0] @ tcp_options s @ tcp_payload s"

definition wire_segment :: "TcpSegment \<Rightarrow> bool" where
  "wire_segment s =
     (length (tcp_options s) \<le> 40 \<and> 4 dvd length (tcp_options s) \<and> checked_options (tcp_options s) \<and>
      length (tcp_options s) + length (tcp_payload s) \<le> 65495)"

lemma length_tcp_bytes [simp]: "length (tcp_bytes s c) = 20 + length (tcp_options s) + length (tcp_payload s)"
  by (simp add: tcp_bytes_def)

lemma tcp_pseudoheader_prefix:
  "length bs \<le> 65535 \<Longrightarrow>
     tcp_pseudoheader s d bs = Inr (pseudo_prefix s d 6 (of_nat (length bs)) @ bs)"
  by (simp add: tcp_pseudoheader_def pseudo_prefix_def)

lemma tcp_bytes_insert: "copy_into 16 (u16_be c) (tcp_bytes s 0) = tcp_bytes s c"
  by (simp add: tcp_bytes_def codec_simps copy_into_def)

lemma tcp_buffer:
  "copy_into (20 + length (tcp_options s)) (tcp_payload s) (copy_into 20 (tcp_options s)
     (copy_into 14 (u16_be (tcp_window s))
       ((copy_into 8 (u32_be (tcp_acknowledgment s)) (copy_into 4 (u32_be (tcp_sequence s))
          (copy_into 2 (u16_be (tcp_destination_port s)) (copy_into 0 (u16_be (tcp_source_port s))
            (replicate (20 + length (tcp_options s) + length (tcp_payload s)) 0)))))
        [12 := push_bit 4 (of_nat ((20 + length (tcp_options s)) div 4)), 13 := tcp_bits (tcp_flags s)])))
   = tcp_bytes s 0"
proof -
  have split: "replicate (20 + m + n) (0::u8) = replicate 20 0 @ replicate m 0 @ replicate n 0" for m n
    by (simp only: replicate_add append_assoc)
  show ?thesis
    unfolding split by (simp add: codec_simps tcp_bytes_def replicate_numeral)
qed

lemma tcp_encode_bytes:
  assumes "wire_segment s"
  shows "TcpSegment_encode a b s =
    Inr (tcp_bytes s (checksum (pseudo_prefix a b 6 (of_nat (length (tcp_bytes s 0))) @ tcp_bytes s 0)))"
proof -
  have len: "20 + length (tcp_options s) + length (tcp_payload s) \<le> 65535"
    using assms by (simp add: wire_segment_def)
  then show ?thesis
    using assms unfolding TcpSegment_encode_def Let_def tcp_buffer
    by (simp add: wire_segment_def tcp_pseudoheader_prefix tcp_bytes_insert)
qed

lemma tcp_header_byte:
  fixes o4 :: nat
  assumes "o4 \<le> 40" "4 dvd o4"
  shows "unat (drop_bit 4 (push_bit 4 (of_nat ((20 + o4) div 4)) :: u8)) * 4 = 20 + o4"
    and "(push_bit 4 (of_nat ((20 + o4) div 4)) :: u8) AND 0x0f = 0"
proof -
  obtain k where k: "o4 = 4 * k" using assms(2) by blast
  have "k \<in> set [0..<11]" using assms(1) k by simp
  moreover have "\<forall>k\<in>set [0..<11]. unat (drop_bit 4 (push_bit 4 (of_nat ((20 + 4 * k) div 4)) :: u8)) * 4 = 20 + 4 * k \<and>
     (push_bit 4 (of_nat ((20 + 4 * k) div 4)) :: u8) AND 0x0f = 0"
    by code_simp
  ultimately show "unat (drop_bit 4 (push_bit 4 (of_nat ((20 + o4) div 4)) :: u8)) * 4 = 20 + o4"
    "(push_bit 4 (of_nat ((20 + o4) div 4)) :: u8) AND 0x0f = 0"
    unfolding k by blast+
qed

lemma tcp_bytes_fields:
  "u16_at (tcp_bytes s c) 0 = tcp_source_port s" "u16_at (tcp_bytes s c) 2 = tcp_destination_port s"
  "u32_at (tcp_bytes s c) 4 = tcp_sequence s" "u32_at (tcp_bytes s c) 8 = tcp_acknowledgment s"
  "tcp_bytes s c ! 12 = push_bit 4 (of_nat ((20 + length (tcp_options s)) div 4))"
  "tcp_bytes s c ! 13 = tcp_bits (tcp_flags s)" "u16_at (tcp_bytes s c) 14 = tcp_window s"
  "slice 16 18 (tcp_bytes s c) = u16_be c" "slice 18 20 (tcp_bytes s c) = [0, 0]"
  "slice 20 (20 + length (tcp_options s)) (tcp_bytes s c) = tcp_options s"
  "drop (20 + length (tcp_options s)) (tcp_bytes s c) = tcp_payload s"
proof -
  have "drop 20 (tcp_bytes s c) = tcp_options s @ tcp_payload s" by (simp add: tcp_bytes_def)
  then show "drop (20 + length (tcp_options s)) (tcp_bytes s c) = tcp_payload s"
    by (metis add.commute append_eq_conv_conj drop_drop)
qed (simp_all add: tcp_bytes_def codec_simps)

lemma tcp_decode_encode:
  assumes "wire_segment s" "TcpSegment_encode a b s = Inr bs"
  shows "TcpSegment_decode a b bs = Inr s"
proof -
  let ?p = "pseudo_prefix a b 6 (of_nat (length (tcp_bytes s 0)))"
  let ?c = "checksum (?p @ tcp_bytes s 0)"
  have bs: "bs = tcp_bytes s ?c" using assms by (simp add: tcp_encode_bytes)
  have len: "length (tcp_bytes s 0) \<le> 65515" using assms by (simp add: wire_segment_def)
  have "checksum (?p @ copy_into 16 (u16_be ?c) (tcp_bytes s 0)) = 0"
    using len by (intro pseudo_insert) (simp_all add: tcp_bytes_fields)
  then have "checksum (?p @ bs) = 0" by (simp add: bs tcp_bytes_insert)
  moreover have "tcp_pseudoheader a b bs = Inr (?p @ bs)"
    using len by (simp add: bs tcp_pseudoheader_prefix)
  moreover have "TcpFlags (tcp_bits f) = f" for f by (cases f) simp
  ultimately show ?thesis
    using assms(1) len tcp_header_byte [of "length (tcp_options s)"] tcp_bytes_fields [of s ?c]
    by (simp add: TcpSegment_decode_def Let_def wire_segment_def bs del: of_nat_add)
qed

lemma tcp_codec: "wire_codec (TcpSegment_encode a b) (TcpSegment_decode a b) wire_segment"
  by unfold_locales (auto simp: tcp_encode_bytes intro: tcp_decode_encode)

text \<open>Everything the decoder accepts is again a segment the encoder accepts.\<close>

lemma tcp_decode_wire:
  assumes "TcpSegment_decode a b bs = Inr s"
  shows "wire_segment s"
proof -
  let ?h = "unat (drop_bit 4 (bs ! 12)) * 4"
  have ok: "20 \<le> ?h" "?h \<le> length bs" "length bs \<le> 65515" "checked_options (slice 20 ?h bs)"
    "tcp_options s = slice 20 ?h bs" "tcp_payload s = drop ?h bs"
    using assms by (auto simp: TcpSegment_decode_def Let_def and_then_Inr_iff split: if_splits)
  have "unat (drop_bit 4 (bs ! 12)) = unat (bs ! 12) div 16"
    by (subst unat_drop_bit_eq) (simp add: drop_bit_eq_div)
  then have "?h \<le> 60" using unat_bound [of "bs ! 12"] by simp
  moreover have "4 dvd ?h - 20" by (simp add: dvd_diff_nat)
  moreover have "length (tcp_options s) = ?h - 20" "length (tcp_payload s) = length bs - ?h"
    using ok by simp_all
  ultimately show ?thesis
    using ok by (simp only: wire_segment_def) (intro conjI TrueI; linarith)
qed

section \<open>Properties\<close>

text \<open>
  C37. TCP segments survive the wire with their checksum over the pseudo-header, whatever options
  they carry within 40 well-formed octets; and the option walk of the decoder lets through only
  segments the encoder would accept again.
\<close>

theorem tcp_round_trip:
  "(wire_segment s \<longrightarrow> (\<exists>bs. TcpSegment_encode a b s = Inr bs \<and> TcpSegment_decode a b bs = Inr s)) \<and>
   (TcpSegment_decode a b w = Inr t \<longrightarrow> wire_segment t)"
  using wire_codec.round_trip [OF tcp_codec, of s a b] tcp_decode_wire [of a b w t] by blast

definition sample_segment :: TcpSegment where
  "sample_segment = \<lparr>tcp_source_port = 179, tcp_destination_port = 50000, tcp_sequence = 0xffffffff,
     tcp_acknowledgment = 1, tcp_flags = SYN, tcp_window = 4096, tcp_options = [2, 4, 5, 180], tcp_payload = []\<rparr>"

lemma sample_segment_wire: "wire_segment sample_segment"
proof -
  have "checked_options [2, 4, 5, 180]"
    by (simp add: checked_options_def checked_options_from.simps get_at_def)
  moreover have "4 dvd length [2, 4, 5, 180 :: u8]" by (simp add: numeral_eq_Suc)
  ultimately show ?thesis unfolding wire_segment_def sample_segment_def TcpSegment.simps by simp
qed

theorem tcp_round_trip_witness:
  "\<exists>bs. TcpSegment_encode 1 2 sample_segment = Inr bs \<and> TcpSegment_decode 1 2 bs = Inr sample_segment"
  using tcp_round_trip [of sample_segment 1 2] sample_segment_wire by blast

end
