(* ===== verification/Dhcp.thy ===== *)
theory Dhcp
  imports Ethernet
begin

text \<open>
  The crate \<open>rios-protocol\<close>, DHCPv4 messages (\<open>dhcp.rs\<close>): the BOOTP header, the option writer
  and the option loop of the decoder. A string is its list of UTF-8 bytes.
\<close>

datatype DhcpMessageType = Discover | Offer | Request | Decline | Ack | Nak

fun DhcpMessageType_code :: "DhcpMessageType \<Rightarrow> u8" where
  "DhcpMessageType_code Discover = 1"
| "DhcpMessageType_code Offer = 2"
| "DhcpMessageType_code Request = 3"
| "DhcpMessageType_code Decline = 4"
| "DhcpMessageType_code Ack = 5"
| "DhcpMessageType_code Nak = 6"

record DhcpMessage =
  dm_message_type :: DhcpMessageType
  dm_transaction_id :: u32
  dm_client_mac :: MacAddress
  dm_your_ip :: ipv4
  dm_client_ip :: ipv4
  dm_relay_ip :: ipv4
  dm_hops :: u8
  dm_dns_servers :: "ipv4 list"
  dm_domain_name :: "bytes option"
  dm_renewal_seconds :: "u32 option"
  dm_rebinding_seconds :: "u32 option"
  dm_requested_ip :: "ipv4 option"
  dm_server_id :: "ipv4 option"
  dm_subnet_mask :: "ipv4 option"
  dm_default_router :: "ipv4 option"
  dm_lease_time_seconds :: "u32 option"

datatype DhcpPacketError = DhcpTruncated | DhcpUnsupported | DhcpInvalidOption

definition MAGIC_COOKIE :: bytes where
  "MAGIC_COOKIE = [99, 130, 83, 99]"

definition is_ascii :: "bytes \<Rightarrow> bool" where
  "is_ascii name = list_all (\<lambda>b. b < 128) name"

definition valid_domain :: "bytes \<Rightarrow> bool" where
  "valid_domain name = (name \<noteq> [] \<and> length name \<le> 253 \<and> is_ascii name)"

text \<open>\<open>option\<close> of the source: append one code, length and value.\<close>

definition put_option :: "u8 \<Rightarrow> bytes \<Rightarrow> bytes \<Rightarrow> bytes" where
  "put_option code v bs = bs @ [code, of_nat (length v)] @ v"

definition put_some :: "u8 \<Rightarrow> ('a \<Rightarrow> bytes) \<Rightarrow> 'a option \<Rightarrow> bytes \<Rightarrow> bytes" where
  "put_some code enc field bs = (case field of None \<Rightarrow> bs | Some v \<Rightarrow> put_option code (enc v) bs)"

definition expected_op :: "DhcpMessageType \<Rightarrow> u8" where
  "expected_op t = (if t \<in> {Discover, Request, Decline} then 1 else 2)"

definition DhcpMessage_encode :: "DhcpMessage \<Rightarrow> DhcpPacketError + bytes" where
  "DhcpMessage_encode m =
     (if 63 < length (dm_dns_servers m) \<or>
         (case dm_domain_name m of None \<Rightarrow> False
          | Some name \<Rightarrow> name = [] \<or> 253 < length name \<or> \<not> is_ascii name)
      then Inl DhcpInvalidOption
      else let b0 = replicate 240 0;
               b1 = b0[0 := expected_op (dm_message_type m), 1 := 1, 2 := 6, 3 := dm_hops m];
               b2 = copy_into 12 (octets (dm_client_ip m)) b1;
               b3 = copy_into 24 (octets (dm_relay_ip m)) b2;
               b4 = copy_into 4 (u32_be (dm_transaction_id m)) b3;
               b5 = (if is_unspecified (dm_client_ip m) then copy_into 10 (u16_be 0x8000) b4 else b4);
               b6 = copy_into 16 (octets (dm_your_ip m)) b5;
               b7 = copy_into 28 (Mac_octets (dm_client_mac m)) b6;
               b8 = copy_into 236 MAGIC_COOKIE b7;
               o1 = put_option 53 [DhcpMessageType_code (dm_message_type m)] b8;
               o2 = put_some 50 octets (dm_requested_ip m) o1;
               o3 = put_some 54 octets (dm_server_id m) o2;
               o4 = put_some 1 octets (dm_subnet_mask m) o3;
               o5 = put_some 3 octets (dm_default_router m) o4;
               o6 = put_some 51 u32_be (dm_lease_time_seconds m) o5;
               o7 = (if dm_dns_servers m \<noteq> [] then put_option 6 (concat (map octets (dm_dns_servers m))) o6 else o6);
               o8 = put_some 15 (\<lambda>name. name) (dm_domain_name m) o7;
               o9 = put_some 58 u32_be (dm_renewal_seconds m) o8;
               o10 = put_some 59 u32_be (dm_rebinding_seconds m) o9
           in Inr (o10 @ [255]))"

section \<open>The decoder\<close>

text \<open>The local variables of the option loop.\<close>

record DhcpOptions =
  op_message_type :: "DhcpMessageType option"
  op_requested_ip :: "ipv4 option"
  op_server_id :: "ipv4 option"
  op_subnet_mask :: "ipv4 option"
  op_default_router :: "ipv4 option"
  op_lease_time_seconds :: "u32 option"
  op_dns_servers :: "ipv4 list"
  op_domain_name :: "bytes option"
  op_renewal_seconds :: "u32 option"
  op_rebinding_seconds :: "u32 option"

definition no_options :: DhcpOptions where
  "no_options = \<lparr>op_message_type = None, op_requested_ip = None, op_server_id = None,
     op_subnet_mask = None, op_default_router = None, op_lease_time_seconds = None,
     op_dns_servers = [], op_domain_name = None, op_renewal_seconds = None, op_rebinding_seconds = None\<rparr>"

definition message_type_of :: "u8 \<Rightarrow> DhcpPacketError + DhcpMessageType" where
  "message_type_of kind =
     (if kind = 1 then Inr Discover else if kind = 2 then Inr Offer else if kind = 3 then Inr Request
      else if kind = 4 then Inr Decline else if kind = 5 then Inr Ack else if kind = 6 then Inr Nak
      else Inl DhcpUnsupported)"

text \<open>The slice pattern \<open>[a, b, c, d]\<close>; any other length is an invalid option.\<close>

fun four :: "bytes \<Rightarrow> DhcpPacketError + u32" where
  "four [a, b, c, d] = Inr (u32_of_be a b c d)"
| "four _ = Inl DhcpInvalidOption"

definition apply_option :: "u8 \<Rightarrow> bytes \<Rightarrow> DhcpOptions \<Rightarrow> DhcpPacketError + DhcpOptions" where
  "apply_option code v st =
     (if code = 53 then
        (case v of [kind] \<Rightarrow> and_then (message_type_of kind) (\<lambda>t. Inr (st\<lparr>op_message_type := Some t\<rparr>))
         | _ \<Rightarrow> Inl DhcpInvalidOption)
      else if code = 50 then and_then (four v) (\<lambda>a. Inr (st\<lparr>op_requested_ip := Some a\<rparr>))
      else if code = 54 then and_then (four v) (\<lambda>a. Inr (st\<lparr>op_server_id := Some a\<rparr>))
      else if code = 1 then and_then (four v) (\<lambda>a. Inr (st\<lparr>op_subnet_mask := Some a\<rparr>))
      else if code = 3 then and_then (four v) (\<lambda>a. Inr (st\<lparr>op_default_router := Some a\<rparr>))
      else if code = 51 then and_then (four v) (\<lambda>a. Inr (st\<lparr>op_lease_time_seconds := Some a\<rparr>))
      else if code = 6 then
        (if v \<noteq> [] \<and> length v mod 4 = 0
         then Inr (st\<lparr>op_dns_servers := map ip_of (as_chunks 4 v)\<rparr>) else Inl DhcpInvalidOption)
      else if code = 15 then
        (if v \<noteq> [] \<and> length v \<le> 253 \<and> is_ascii v then Inr (st\<lparr>op_domain_name := Some v\<rparr>)
         else Inl DhcpInvalidOption)
      else if code = 58 then and_then (four v) (\<lambda>a. Inr (st\<lparr>op_renewal_seconds := Some a\<rparr>))
      else if code = 59 then and_then (four v) (\<lambda>a. Inr (st\<lparr>op_rebinding_seconds := Some a\<rparr>))
      else Inr st)"

text \<open>The loop returns the variables and whether it met the end option.\<close>

function option_loop :: "bytes \<Rightarrow> nat \<Rightarrow> DhcpOptions \<Rightarrow> DhcpPacketError + DhcpOptions \<times> bool" where
  "option_loop bs cursor st =
     (if cursor < length bs then
        let code = bs ! cursor; cursor = cursor + 1
        in if code = 255 then Inr (st, True)
           else if code = 0 then option_loop bs cursor st
           else case get_at cursor bs of
               None \<Rightarrow> Inl DhcpInvalidOption
             | Some n \<Rightarrow>
                 let len = unat n; cursor = cursor + 1
                 in (case get_range cursor (cursor + len) bs of
                       None \<Rightarrow> Inl DhcpInvalidOption
                     | Some v \<Rightarrow>
                         (case apply_option code v st of
                            Inl e \<Rightarrow> Inl e
                          | Inr st' \<Rightarrow> option_loop bs (cursor + len) st'))
      else Inr (st, False))"
  by pat_completeness auto
termination
  by (relation "measure (\<lambda>(bs, cursor, st). length bs - cursor)") (auto simp: get_range_def split: if_splits)

declare option_loop.simps [simp del]

definition DhcpMessage_decode :: "bytes \<Rightarrow> DhcpPacketError + DhcpMessage" where
  "DhcpMessage_decode bs =
     (if length bs < 241 then Inl DhcpTruncated
      else if slice 1 3 bs \<noteq> [1, 6] \<or> slice 236 240 bs \<noteq> MAGIC_COOKIE then Inl DhcpUnsupported
      else and_then (option_loop bs 240 no_options) (\<lambda>(st, ended).
        if \<not> ended then Inl DhcpTruncated
        else and_then (ok_or DhcpUnsupported (op_message_type st)) (\<lambda>message_type.
          if bs ! 0 \<noteq> expected_op message_type then Inl DhcpUnsupported
          else Inr \<lparr>dm_message_type = message_type, dm_transaction_id = u32_at bs 4,
            dm_client_mac = Mac_of (slice 28 34 bs), dm_your_ip = u32_at bs 16,
            dm_client_ip = u32_at bs 12, dm_relay_ip = u32_at bs 24, dm_hops = bs ! 3,
            dm_dns_servers = op_dns_servers st, dm_domain_name = op_domain_name st,
            dm_renewal_seconds = op_renewal_seconds st, dm_rebinding_seconds = op_rebinding_seconds st,
            dm_requested_ip = op_requested_ip st, dm_server_id = op_server_id st,
            dm_subnet_mask = op_subnet_mask st, dm_default_router = op_default_router st,
            dm_lease_time_seconds = op_lease_time_seconds st\<rparr>)))"

section \<open>Options as a list\<close>

fun option_bytes :: "(u8 \<times> bytes) list \<Rightarrow> bytes" where
  "option_bytes [] = []"
| "option_bytes ((code, v) # os) = code # of_nat (length v) # v @ option_bytes os"

fun apply_options :: "(u8 \<times> bytes) list \<Rightarrow> DhcpOptions \<Rightarrow> DhcpPacketError + DhcpOptions" where
  "apply_options [] st = Inr st"
| "apply_options ((code, v) # os) st = and_then (apply_option code v st) (apply_options os)"

definition some_option :: "u8 \<Rightarrow> ('a \<Rightarrow> bytes) \<Rightarrow> 'a option \<Rightarrow> (u8 \<times> bytes) list" where
  "some_option code enc field = (case field of None \<Rightarrow> [] | Some v \<Rightarrow> [(code, enc v)])"

definition dns_option :: "ipv4 list \<Rightarrow> (u8 \<times> bytes) list" where
  "dns_option servers = (if servers \<noteq> [] then [(6, concat (map octets servers))] else [])"

definition message_options :: "DhcpMessage \<Rightarrow> (u8 \<times> bytes) list" where
  "message_options m =
     [(53, [DhcpMessageType_code (dm_message_type m)])] @
     some_option 50 octets (dm_requested_ip m) @ some_option 54 octets (dm_server_id m) @
     some_option 1 octets (dm_subnet_mask m) @ some_option 3 octets (dm_default_router m) @
     some_option 51 u32_be (dm_lease_time_seconds m) @ dns_option (dm_dns_servers m) @
     some_option 15 (\<lambda>name. name) (dm_domain_name m) @ some_option 58 u32_be (dm_renewal_seconds m) @
     some_option 59 u32_be (dm_rebinding_seconds m)"

definition wire_dhcp :: "DhcpMessage \<Rightarrow> bool" where
  "wire_dhcp m =
     (length (dm_dns_servers m) \<le> 63 \<and> (case dm_domain_name m of None \<Rightarrow> True | Some name \<Rightarrow> valid_domain name))"

lemma option_bytes_append: "option_bytes (xs @ ys) = option_bytes xs @ option_bytes ys"
  by (induction xs rule: option_bytes.induct) simp_all

lemma apply_options_append: "apply_options (xs @ ys) st = and_then (apply_options xs st) (apply_options ys)"
proof (induction xs arbitrary: st rule: option_bytes.induct)
  case (2 code v os)
  then show ?case by (cases "apply_option code v st") simp_all
qed simp

text \<open>One turn of the loop on a well-formed option, and a whole run up to the end option.\<close>

lemma option_loop_step:
  assumes "drop cursor bs = code # of_nat (length v) # v @ rest"
    and "code \<noteq> 0" "code \<noteq> 255" "length v \<le> 255"
  shows "option_loop bs cursor st =
    and_then (apply_option code v st) (option_loop bs (cursor + 2 + length v))"
proof -
  have n: "unat (of_nat (length v) :: u8) = length v" using assms(4) by (simp add: unat_of_nat)
  note code = drop_ConsD [OF assms(1)]
  note len = drop_ConsD [OF code(3)]
  have d2: "drop (cursor + 2) bs = v @ rest" using len(3) by (simp add: add.assoc)
  then have range: "get_range (cursor + 2) (cursor + 2 + length v) bs = Some v"
    using drop_appendD(2,3) [OF d2] len(1) by (cases "v = []") (auto simp: get_range_def slice_def)
  have "option_loop bs cursor st =
      (case get_range (cursor + 2) (cursor + 2 + length v) bs of
         None \<Rightarrow> Inl DhcpInvalidOption
       | Some v' \<Rightarrow> (case apply_option code v' st of Inl e \<Rightarrow> Inl e
                     | Inr st' \<Rightarrow> option_loop bs (cursor + 2 + length v) st'))"
    using assms(2,3) code(1,2) len(1,2) n
    by (subst option_loop.simps) (simp add: get_at_def Let_def numeral_2_eq_2 cong: sum.case_cong option.case_cong)
  then show ?thesis by (simp only: range and_then_def option.case)
qed

definition legal_option :: "u8 \<times> bytes \<Rightarrow> bool" where
  "legal_option = (\<lambda>(code, v). code \<noteq> 0 \<and> code \<noteq> 255 \<and> length v \<le> 255)"

lemma option_loop_run:
  assumes "drop cursor bs = option_bytes os @ 255 # rest"
    and "\<forall>p \<in> set os. legal_option p"
  shows "option_loop bs cursor st = and_then (apply_options os st) (\<lambda>st'. Inr (st', True))"
  using assms
proof (induction os arbitrary: cursor st rule: option_bytes.induct)
  case 1
  then have "cursor < length bs" "bs ! cursor = 255"
    using drop_ConsD [of cursor bs 255 rest] by simp_all
  then show ?case by (subst option_loop.simps) simp
next
  case (2 code v os)
  have d: "drop cursor bs = code # of_nat (length v) # v @ (option_bytes os @ 255 # rest)"
    using "2.prems"(1) by simp
  have "drop (cursor + 2) bs = v @ (option_bytes os @ 255 # rest)"
    using drop_ConsD(3) [OF drop_ConsD(3) [OF d]] by (simp add: add.assoc)
  then have next_drop: "drop (cursor + 2 + length v) bs = option_bytes os @ 255 # rest"
    by (rule drop_appendD)
  have "option_loop bs cursor st = and_then (apply_option code v st) (option_loop bs (cursor + 2 + length v))"
    using "2.prems"(2) by (intro option_loop_step [OF d]) (auto simp: legal_option_def)
  then show ?case
    using "2.IH" [OF next_drop] "2.prems"(2) by (cases "apply_option code v st") simp_all
qed

text \<open>What applying each optional field does.\<close>

lemma four_u32_be [simp]: "four (u32_be w) = Inr w"
  by (simp add: u32_be_def u16_be_def u32_of_be_def)

lemma four_octets [simp]: "four (octets a) = Inr a"
  by (simp add: octets_def)

lemma message_type_of_code [simp]: "message_type_of (DhcpMessageType_code t) = Inr t"
  by (cases t) (simp_all add: message_type_of_def)

lemma apply_type [simp]:
  "apply_options [(53, [DhcpMessageType_code t])] st = Inr (st\<lparr>op_message_type := Some t\<rparr>)"
  by (simp add: apply_option_def)

lemma apply_some:
  "op_requested_ip st = None \<Longrightarrow> apply_options (some_option 50 octets a) st = Inr (st\<lparr>op_requested_ip := a\<rparr>)"
  "op_server_id st = None \<Longrightarrow> apply_options (some_option 54 octets a) st = Inr (st\<lparr>op_server_id := a\<rparr>)"
  "op_subnet_mask st = None \<Longrightarrow> apply_options (some_option 1 octets a) st = Inr (st\<lparr>op_subnet_mask := a\<rparr>)"
  "op_default_router st = None \<Longrightarrow> apply_options (some_option 3 octets a) st = Inr (st\<lparr>op_default_router := a\<rparr>)"
  "op_lease_time_seconds st = None \<Longrightarrow>
     apply_options (some_option 51 u32_be s) st = Inr (st\<lparr>op_lease_time_seconds := s\<rparr>)"
  "op_renewal_seconds st = None \<Longrightarrow>
     apply_options (some_option 58 u32_be s) st = Inr (st\<lparr>op_renewal_seconds := s\<rparr>)"
  "op_rebinding_seconds st = None \<Longrightarrow>
     apply_options (some_option 59 u32_be s) st = Inr (st\<lparr>op_rebinding_seconds := s\<rparr>)"
  by (cases st; cases a; cases s; simp add: some_option_def apply_option_def)+

lemma apply_dns:
  "op_dns_servers st = [] \<Longrightarrow> apply_options (dns_option servers) st = Inr (st\<lparr>op_dns_servers := servers\<rparr>)"
proof (cases servers)
  case (Cons s ss)
  have "concat (map octets servers) \<noteq> []" using Cons by (simp add: octets_def u32_be_def u16_be_def)
  then show ?thesis
    using Cons ip_run.decode_run [of servers] ip_run.length_run [of servers]
    by (simp add: dns_option_def apply_option_def)
qed (cases st; simp add: dns_option_def)

lemma apply_domain:
  assumes "op_domain_name st = None" "case d of None \<Rightarrow> True | Some name \<Rightarrow> valid_domain name"
  shows "apply_options (some_option 15 (\<lambda>name. name) d) st = Inr (st\<lparr>op_domain_name := d\<rparr>)"
  using assms by (cases st; cases d) (simp_all add: some_option_def apply_option_def valid_domain_def)

definition options_of :: "DhcpMessage \<Rightarrow> DhcpOptions" where
  "options_of m = \<lparr>op_message_type = Some (dm_message_type m), op_requested_ip = dm_requested_ip m,
     op_server_id = dm_server_id m, op_subnet_mask = dm_subnet_mask m,
     op_default_router = dm_default_router m, op_lease_time_seconds = dm_lease_time_seconds m,
     op_dns_servers = dm_dns_servers m, op_domain_name = dm_domain_name m,
     op_renewal_seconds = dm_renewal_seconds m, op_rebinding_seconds = dm_rebinding_seconds m\<rparr>"

lemma apply_message_options:
  assumes "wire_dhcp m"
  shows "apply_options (message_options m) no_options = Inr (options_of m)"
  using assms
  by (simp add: message_options_def apply_options_append apply_some apply_dns apply_domain wire_dhcp_def
      no_options_def options_of_def del: apply_options.simps append.simps)

lemma some_option_legal:
  "c \<noteq> 0 \<Longrightarrow> c \<noteq> 255 \<Longrightarrow> (\<And>y. x = Some y \<Longrightarrow> length (f y) \<le> 255) \<Longrightarrow>
     \<forall>p \<in> set (some_option c f x). legal_option p"
  by (auto simp: some_option_def legal_option_def split: option.splits)

lemma message_options_legal:
  assumes "wire_dhcp m"
  shows "\<forall>p \<in> set (message_options m). legal_option p"
proof -
  have "\<forall>p \<in> set (dns_option (dm_dns_servers m)). legal_option p"
    using assms ip_run.length_run [of "dm_dns_servers m"]
    by (simp add: dns_option_def wire_dhcp_def legal_option_def)
  moreover have "dm_domain_name m = Some d \<Longrightarrow> length d \<le> 255" for d
    using assms by (simp add: wire_dhcp_def valid_domain_def)
  moreover have "legal_option (53, [k])" for k by (simp add: legal_option_def)
  ultimately show ?thesis
    by (simp add: message_options_def ball_Un) (intro conjI some_option_legal; simp)
qed

section \<open>The round trip\<close>

definition dhcp_header :: "DhcpMessage \<Rightarrow> bytes" where
  "dhcp_header m =
     [expected_op (dm_message_type m), 1, 6, dm_hops m] @ u32_be (dm_transaction_id m) @ [0, 0] @
     u16_be (if is_unspecified (dm_client_ip m) then 0x8000 else 0) @ octets (dm_client_ip m) @
     octets (dm_your_ip m) @ [0, 0, 0, 0] @ octets (dm_relay_ip m) @ Mac_octets (dm_client_mac m) @
     replicate 202 0 @ MAGIC_COOKIE"

lemma length_dhcp_header [simp]: "length (dhcp_header m) = 240"
  by (simp add: dhcp_header_def MAGIC_COOKIE_def)

lemma put_some_bytes: "put_some code enc x bs = bs @ option_bytes (some_option code enc x)"
  by (cases x) (simp_all add: put_some_def put_option_def some_option_def)

lemma put_dns_bytes:
  "(if servers \<noteq> [] then put_option 6 (concat (map octets servers)) bs else bs) = bs @ option_bytes (dns_option servers)"
  by (simp add: put_option_def dns_option_def)

lemma dhcp_header_buffer:
  "copy_into 236 MAGIC_COOKIE (copy_into 28 (Mac_octets (dm_client_mac m)) (copy_into 16 (octets (dm_your_ip m))
     (if is_unspecified (dm_client_ip m)
      then copy_into 10 (u16_be 0x8000) (copy_into 4 (u32_be (dm_transaction_id m)) (copy_into 24 (octets (dm_relay_ip m))
        (copy_into 12 (octets (dm_client_ip m))
          ((replicate 240 0)[0 := expected_op (dm_message_type m), 1 := 1, 2 := 6, 3 := dm_hops m]))))
      else copy_into 4 (u32_be (dm_transaction_id m)) (copy_into 24 (octets (dm_relay_ip m))
        (copy_into 12 (octets (dm_client_ip m))
          ((replicate 240 0)[0 := expected_op (dm_message_type m), 1 := 1, 2 := 6, 3 := dm_hops m]))))))
   = dhcp_header m"
proof -
  have split: "replicate 240 (0::u8) = replicate 34 0 @ replicate 202 0 @ replicate 4 0"
    by (simp flip: replicate_add)
  have magic: "length MAGIC_COOKIE = 4" by (simp add: MAGIC_COOKIE_def)
  have zero: "u16_be 0 = replicate 2 0" by (simp add: u16_be_def numeral_2_eq_2)
  show ?thesis
    unfolding split dhcp_header_def
    by (simp add: codec_simps magic zero replicate_numeral)
qed

lemma dhcp_encode_bytes:
  assumes "wire_dhcp m"
  shows "DhcpMessage_encode m = Inr (dhcp_header m @ option_bytes (message_options m) @ [255])"
proof -
  have "\<not> (63 < length (dm_dns_servers m) \<or> (case dm_domain_name m of None \<Rightarrow> False
      | Some name \<Rightarrow> name = [] \<or> 253 < length name \<or> \<not> is_ascii name))"
    using assms by (auto simp: wire_dhcp_def valid_domain_def split: option.splits)
  then show ?thesis
    unfolding DhcpMessage_encode_def Let_def dhcp_header_buffer put_some_bytes put_dns_bytes
    by (simp add: message_options_def option_bytes_append put_option_def)
qed

lemma dhcp_header_fields:
  "dhcp_header m ! 0 = expected_op (dm_message_type m)" "slice (Suc 0) 3 (dhcp_header m) = [1, 6]"
  "dhcp_header m ! 3 = dm_hops m" "slice 236 240 (dhcp_header m) = MAGIC_COOKIE"
  "u32_at (dhcp_header m) 4 = dm_transaction_id m" "u32_at (dhcp_header m) 12 = dm_client_ip m"
  "u32_at (dhcp_header m) 16 = dm_your_ip m" "u32_at (dhcp_header m) 24 = dm_relay_ip m"
  "slice 28 34 (dhcp_header m) = Mac_octets (dm_client_mac m)"
  by (simp_all add: dhcp_header_def codec_simps MAGIC_COOKIE_def)

lemma dhcp_decode_encode:
  assumes "wire_dhcp m"
  shows "DhcpMessage_decode (dhcp_header m @ option_bytes (message_options m) @ [255]) = Inr m"
proof -
  let ?bs = "dhcp_header m @ option_bytes (message_options m) @ [255]"
  have "drop 240 ?bs = option_bytes (message_options m) @ 255 # []" by simp
  then have "option_loop ?bs 240 no_options = Inr (options_of m, True)"
    using option_loop_run message_options_legal [OF assms] apply_message_options [OF assms] by simp
  moreover have "Mac_of (Mac_octets a) = a" for a by (cases a) (simp add: Mac_of_def)
  moreover have "?bs ! 0 = expected_op (dm_message_type m)" "slice 1 3 ?bs = [1, 6]"
    "?bs ! 3 = dm_hops m" "slice 236 240 ?bs = MAGIC_COOKIE"
    "u32_at ?bs 4 = dm_transaction_id m" "u32_at ?bs 12 = dm_client_ip m"
    "u32_at ?bs 16 = dm_your_ip m" "u32_at ?bs 24 = dm_relay_ip m"
    "slice 28 34 ?bs = Mac_octets (dm_client_mac m)"
    by (simp_all add: codec_simps dhcp_header_fields)
  ultimately show ?thesis
    by (simp add: DhcpMessage_decode_def options_of_def)
qed

interpretation dhcp: wire_codec DhcpMessage_encode DhcpMessage_decode wire_dhcp
  by unfold_locales (auto simp: dhcp_encode_bytes dhcp_decode_encode)

section \<open>Properties\<close>

text \<open>
  C40. DHCP messages survive the wire: every message with at most 63 name servers and a domain name
  within the option's limits is encoded, options as type-length-value triples behind the magic
  cookie, and decoded back unchanged.
\<close>

theorem dhcp_round_trip:
  assumes "wire_dhcp m"
  shows "\<exists>bs. DhcpMessage_encode m = Inr bs \<and> DhcpMessage_decode bs = Inr m"
  using assms by (rule dhcp.round_trip)

definition sample_dhcp :: DhcpMessage where
  "sample_dhcp = \<lparr>dm_message_type = Ack, dm_transaction_id = 9, dm_client_mac = MacAddress 2 0 0 0 0 1, dm_your_ip = 0x0a000005,
     dm_client_ip = 0, dm_relay_ip = 0, dm_hops = 0, dm_dns_servers = [1, 2], dm_domain_name = Some [97, 98],
     dm_renewal_seconds = Some 30, dm_rebinding_seconds = None, dm_requested_ip = None, dm_server_id = Some 3,
     dm_subnet_mask = Some 0xffffff00, dm_default_router = Some 4, dm_lease_time_seconds = Some 60\<rparr>"

theorem dhcp_round_trip_witness:
  "\<exists>bs. DhcpMessage_encode sample_dhcp = Inr bs \<and> DhcpMessage_decode bs = Inr sample_dhcp"
  by (rule dhcp_round_trip) (simp add: wire_dhcp_def sample_dhcp_def valid_domain_def is_ascii_def)

end
