(* ===== verification/Dns.thy ===== *)
theory Dns
  imports Codec
begin

text \<open>
  The crate \<open>rios-protocol\<close>, DNS (\<open>dns.rs\<close>): hostname canonicalisation, the name reader with
  its compression pointers and bound of 128 steps, and single-question messages with A answers.
  A string is its list of UTF-8 bytes.
\<close>

datatype DnsError = DnsError

record DnsQuestion =
  dq_name :: bytes
  dq_kind :: u16
  dq_class :: u16

record DnsARecord =
  da_name :: bytes
  da_ttl :: u32
  da_address :: ipv4

record DnsMessage =
  dns_id :: u16
  dns_response :: bool
  dns_authoritative :: bool
  dns_recursion_desired :: bool
  dns_rcode :: u8
  dns_question :: DnsQuestion
  dns_answers :: "DnsARecord list"

section \<open>Names\<close>

abbreviation dot :: u8 where "dot \<equiv> 46"

definition strip_suffix_dot :: "bytes \<Rightarrow> bytes" where
  "strip_suffix_dot name = (if name \<noteq> [] \<and> last name = dot then butlast name else name)"

definition is_ascii_alphanumeric :: "u8 \<Rightarrow> bool" where
  "is_ascii_alphanumeric b = (48 \<le> b \<and> b \<le> 57 \<or> 65 \<le> b \<and> b \<le> 90 \<or> 97 \<le> b \<and> b \<le> 122)"

definition label_byte :: "u8 \<Rightarrow> bool" where
  "label_byte b = (is_ascii_alphanumeric b \<or> b = 45 \<or> b = 95)"

definition bad_label :: "bytes \<Rightarrow> bool" where
  "bad_label l = (l = [] \<or> 63 < length l \<or> \<not> list_all label_byte l)"

definition to_ascii_lowercase :: "u8 \<Rightarrow> u8" where
  "to_ascii_lowercase b = (if 65 \<le> b \<and> b \<le> 90 then b + 32 else b)"

definition dns_name :: "bytes \<Rightarrow> DnsError + bytes" where
  "dns_name n =
     (let name = strip_suffix_dot n
      in if name = [] \<or> 253 < length name \<or> list_ex bad_label (split_on dot name) then Inl DnsError
         else Inr (map to_ascii_lowercase name))"

fun label_bytes :: "bytes list \<Rightarrow> bytes" where
  "label_bytes [] = []"
| "label_bytes (l # ls) = of_nat (length l) # l @ label_bytes ls"

definition encode_name :: "bytes \<Rightarrow> bytes \<Rightarrow> DnsError + bytes" where
  "encode_name name out =
     and_then (dns_name name) (\<lambda>n. Inr (out @ label_bytes (split_on dot n) @ [0]))"

text \<open>\<open>std::str::from_utf8\<close>: the well-formed byte sequences of the Unicode standard.\<close>

definition cont_byte :: "u8 \<Rightarrow> bool" where
  "cont_byte b = (0x80 \<le> b \<and> b \<le> 0xbf)"

fun utf8_valid :: "bytes \<Rightarrow> bool" where
  "utf8_valid [] = True"
| "utf8_valid (a # r) =
     (if a < 0x80 then utf8_valid r
      else if 0xc2 \<le> a \<and> a \<le> 0xdf then
        (case r of b # r2 \<Rightarrow> cont_byte b \<and> utf8_valid r2 | _ \<Rightarrow> False)
      else if 0xe0 \<le> a \<and> a \<le> 0xef then
        (case r of b # c # r3 \<Rightarrow>
             cont_byte b \<and> (a = 0xe0 \<longrightarrow> 0xa0 \<le> b) \<and> (a = 0xed \<longrightarrow> b \<le> 0x9f) \<and>
             cont_byte c \<and> utf8_valid r3
         | _ \<Rightarrow> False)
      else if 0xf0 \<le> a \<and> a \<le> 0xf4 then
        (case r of b # c # d # r4 \<Rightarrow>
             cont_byte b \<and> (a = 0xf0 \<longrightarrow> 0x90 \<le> b) \<and> (a = 0xf4 \<longrightarrow> b \<le> 0x8f) \<and>
             cont_byte c \<and> cont_byte d \<and> utf8_valid r4
         | _ \<Rightarrow> False)
      else False)"

text \<open>
  The loop of \<open>name\<close>: the fuel is the source's own bound of 128 iterations. The result pairs the
  name with the offset behind it in the record being read.
\<close>

fun name_loop :: "nat \<Rightarrow> bytes \<Rightarrow> nat \<Rightarrow> nat \<Rightarrow> bool \<Rightarrow> bytes list \<Rightarrow> nat \<Rightarrow> DnsError + bytes \<times> nat" where
  "name_loop 0 bs at offset jumped labels len = Inl DnsError"
| "name_loop (Suc n) bs at offset jumped labels len =
     and_then (ok_or DnsError (get_at at bs)) (\<lambda>size.
       if size AND 0xc0 = 0xc0 then
         and_then (ok_or DnsError (get_at (at + 1) bs)) (\<lambda>low.
           let target = push_bit 8 (unat (size AND 0x3f)) OR unat low
           in if target < 12 \<or> at \<le> target then Inl DnsError
              else name_loop n bs target (if jumped then offset else at + 2) True labels len)
       else if 63 < size then Inl DnsError
       else if size = 0 then
         and_then (dns_name (join dot labels)) (\<lambda>s. Inr (s, if jumped then offset else at + 1))
       else
         and_then (ok_or DnsError (get_range (at + 1) (at + 1 + unat size) bs)) (\<lambda>label.
           let len = len + (length label + 1)
           in if 254 < len then Inl DnsError
              else if \<not> utf8_valid label then Inl DnsError
              else name_loop n bs (at + 1 + length label) offset jumped (labels @ [label]) len))"

definition read_name :: "bytes \<Rightarrow> nat \<Rightarrow> DnsError + bytes \<times> nat" where
  "read_name bs offset = name_loop 128 bs offset offset False [] 0"

definition read_word :: "bytes \<Rightarrow> nat \<Rightarrow> DnsError + u16 \<times> nat" where
  "read_word bs offset =
     and_then (ok_or DnsError (get_range offset (offset + 2) bs)) (\<lambda>b. Inr (u16_of_be (b ! 0) (b ! 1), offset + 2))"

section \<open>Messages\<close>

definition DnsMessage_query :: "u16 \<Rightarrow> bytes \<Rightarrow> DnsError + DnsMessage" where
  "DnsMessage_query i n =
     and_then (dns_name n) (\<lambda>name. Inr \<lparr>dns_id = i, dns_response = False, dns_authoritative = False,
       dns_recursion_desired = True, dns_rcode = 0,
       dns_question = \<lparr>dq_name = name, dq_kind = 1, dq_class = 1\<rparr>, dns_answers = []\<rparr>)"

definition dns_flags :: "bool \<Rightarrow> bool \<Rightarrow> bool \<Rightarrow> u8 \<Rightarrow> u16" where
  "dns_flags response authoritative recursion_desired rcode =
     push_bit 15 (of_bool response) OR push_bit 10 (of_bool authoritative) OR
     push_bit 8 (of_bool recursion_desired) OR ucast rcode"

definition DnsMessage_flags :: "DnsMessage \<Rightarrow> u16" where
  "DnsMessage_flags m =
     dns_flags (dns_response m) (dns_authoritative m) (dns_recursion_desired m) (dns_rcode m)"

fun encode_answers :: "bytes \<Rightarrow> DnsARecord list \<Rightarrow> bytes \<Rightarrow> DnsError + bytes" where
  "encode_answers q [] out = Inr out"
| "encode_answers q (a # as) out =
     and_then (dns_name (da_name a)) (\<lambda>n. and_then (dns_name q) (\<lambda>qn.
       and_then (if n = qn then Inr (out @ [0xc0, 0x0c]) else encode_name (da_name a) out) (\<lambda>out.
         encode_answers q as
           (out @ [0, 1, 0, 1] @ u32_be (da_ttl a) @ [0, 4] @ octets (da_address a)))))"

definition DnsMessage_encode :: "DnsMessage \<Rightarrow> DnsError + bytes" where
  "DnsMessage_encode m =
     (if 15 < dns_rcode m \<or> 32 < length (dns_answers m) then Inl DnsError
      else let q = dns_question m;
               out = concat (map u16_be [dns_id m, DnsMessage_flags m, 1, of_nat (length (dns_answers m)), 0, 0])
      in and_then (encode_name (dq_name q) out) (\<lambda>out.
           and_then (encode_answers (dq_name q) (dns_answers m)
               (out @ u16_be (dq_kind q) @ u16_be (dq_class q))) (\<lambda>out.
             if 512 < length out then Inl DnsError else Inr out)))"

fun decode_answers :: "nat \<Rightarrow> bytes \<Rightarrow> nat \<Rightarrow> DnsARecord list \<Rightarrow> DnsError + DnsARecord list \<times> nat" where
  "decode_answers 0 bs at answers = Inr (answers, at)"
| "decode_answers (Suc n) bs at answers =
     and_then (read_name bs at) (\<lambda>(name, at).
     and_then (read_word bs at) (\<lambda>(kind, at).
     and_then (read_word bs at) (\<lambda>(clas, at).
     and_then (read_word bs at) (\<lambda>(high, at).
     and_then (read_word bs at) (\<lambda>(low, at).
     and_then (read_word bs at) (\<lambda>(size, at).
     and_then (ok_or DnsError (get_range at (at + unat size) bs)) (\<lambda>data.
       if kind = 1 \<and> clas = 1 then
         if length data \<noteq> 4 then Inl DnsError
         else decode_answers n bs (at + unat size)
           (answers @ [\<lparr>da_name = name, da_ttl = u32_join high low, da_address = ip_of data\<rparr>])
       else decode_answers n bs (at + unat size) answers)))))))"

definition DnsMessage_decode :: "bytes \<Rightarrow> DnsError + DnsMessage" where
  "DnsMessage_decode bs =
     (if 512 < length bs then Inl DnsError
      else
        and_then (read_word bs 0) (\<lambda>(i, at).
        and_then (read_word bs at) (\<lambda>(flags, at).
        if flags AND 0x7a40 \<noteq> 0 then Inl DnsError
        else and_then (read_word bs at) (\<lambda>(questions, at).
        if questions \<noteq> 1 then Inl DnsError
        else and_then (read_word bs at) (\<lambda>(count, at).
        if 32 < count then Inl DnsError
        else and_then (read_word bs at) (\<lambda>(authority, at).
        if authority \<noteq> 0 then Inl DnsError
        else and_then (read_word bs at) (\<lambda>(additional, at).
        if additional \<noteq> 0 then Inl DnsError
        else
        and_then (read_name bs at) (\<lambda>(name, at).
        and_then (read_word bs at) (\<lambda>(kind, at).
        and_then (read_word bs at) (\<lambda>(clas, at).
        and_then (decode_answers (unat count) bs at []) (\<lambda>(answers, at).
        if at \<noteq> length bs then Inl DnsError
        else Inr \<lparr>dns_id = i, dns_response = (flags AND 0x8000 \<noteq> 0),
          dns_authoritative = (flags AND 0x0400 \<noteq> 0), dns_recursion_desired = (flags AND 0x0100 \<noteq> 0),
          dns_rcode = ucast (flags AND 15),
          dns_question = \<lparr>dq_name = name, dq_kind = kind, dq_class = clas\<rparr>,
          dns_answers = answers\<rparr>)))))))))))"

section \<open>Canonical names\<close>

lemma unat_lowercase:
  "unat (to_ascii_lowercase b) = (if 65 \<le> unat b \<and> unat b \<le> 90 then unat b + 32 else unat b)"
  by (auto simp: to_ascii_lowercase_def word_le_nat_alt unat_word_ariths)

lemma lowercase_dot: "to_ascii_lowercase b = dot \<longleftrightarrow> b = dot"
  by (simp add: word_unat_eq_iff unat_lowercase)

lemma lowercase_idem: "to_ascii_lowercase (to_ascii_lowercase b) = to_ascii_lowercase b"
  by (simp add: word_unat_eq_iff unat_lowercase)

lemma label_byte_nat:
  "label_byte b \<longleftrightarrow> 48 \<le> unat b \<and> unat b \<le> 57 \<or> 65 \<le> unat b \<and> unat b \<le> 90 \<or>
     97 \<le> unat b \<and> unat b \<le> 122 \<or> unat b = 45 \<or> unat b = 95"
  by (simp add: label_byte_def is_ascii_alphanumeric_def word_le_nat_alt word_unat_eq_iff disj_assoc)

lemma lowercase_label: "label_byte b \<Longrightarrow> label_byte (to_ascii_lowercase b)"
  by (auto simp: label_byte_nat unat_lowercase)

lemma last_label:
  assumes "name \<noteq> []" "\<not> list_ex bad_label (split_on dot name)"
  shows "last name \<noteq> dot"
proof
  assume "last name = dot"
  then have "name = butlast name @ [dot]" using assms(1) by (metis append_butlast_last_id)
  then have "[] \<in> set (split_on dot name)"
    using split_on_append [of dot "butlast name" "[]"] by simp
  with assms(2) show False by (auto simp: list_ex_iff bad_label_def)
qed

text \<open>What \<open>dns_name\<close> returns is a fixed point of it.\<close>

lemma dns_name_canonical:
  assumes "dns_name s = Inr n"
  shows "dns_name n = Inr n"
    and "n \<noteq> []" "length n \<le> 253" "\<forall>l\<in>set (split_on dot n). \<not> bad_label l"
proof -
  let ?s = "strip_suffix_dot s"
  have s: "?s \<noteq> []" "length ?s \<le> 253" "\<not> list_ex bad_label (split_on dot ?s)" "n = map to_ascii_lowercase ?s"
    using assms by (auto simp: dns_name_def Let_def split: if_splits)
  have split: "split_on dot n = map (map to_ascii_lowercase) (split_on dot ?s)"
    unfolding s(4) by (rule split_on_map) (rule lowercase_dot)
  show good: "\<forall>l\<in>set (split_on dot n). \<not> bad_label l"
    using s(3) by (auto simp: split list_ex_iff bad_label_def list_all_iff lowercase_label)
  show "n \<noteq> []" "length n \<le> 253" using s by simp_all
  moreover have "last n \<noteq> dot" using last_label \<open>n \<noteq> []\<close> good by (auto simp: list_ex_iff)
  ultimately show "dns_name n = Inr n"
    using good by (simp add: dns_name_def strip_suffix_dot_def Let_def list_ex_iff)
      (simp add: s(4) lowercase_idem)
qed

text \<open>A label is ASCII, so it is UTF-8, and its length byte is not a pointer.\<close>

lemma label_utf8: "list_all label_byte l \<Longrightarrow> utf8_valid l"
proof (induction l)
  case (Cons b l)
  have "label_byte b \<Longrightarrow> b < 128"
    by (auto simp: label_byte_nat word_less_nat_alt)
  with Cons show ?case by simp
qed simp

lemma label_size:
  assumes "\<not> bad_label l"
  shows "unat (of_nat (length l) :: u8) = length l" "(of_nat (length l) :: u8) AND 0xc0 = 0"
    "(of_nat (length l) :: u8) \<noteq> 0" "\<not> 63 < (of_nat (length l) :: u8)"
proof -
  have len: "0 < length l" "length l \<le> 63" using assms by (auto simp: bad_label_def)
  then show n: "unat (of_nat (length l) :: u8) = length l" by (simp add: unat_of_nat)
  show "(of_nat (length l) :: u8) \<noteq> 0" using len(1) n by fastforce
  show "\<not> 63 < (of_nat (length l) :: u8)" using len n by (simp add: word_less_nat_alt)
  have "list_all (\<lambda>n. (of_nat n :: u8) AND 0xc0 = 0) [0..<64]" by code_simp
  then show "(of_nat (length l) :: u8) AND 0xc0 = 0" using len(2) by (simp add: list_all_iff)
qed

section \<open>Reading names\<close>

text \<open>One iteration on a label, and a whole run: it needs one step per label and one for the end.\<close>

lemma name_loop_label:
  assumes "drop at bs = of_nat (length l) # l @ rest" "\<not> bad_label l" "len + length l + 1 \<le> 254"
  shows "name_loop (Suc n) bs at offset jumped labels len =
    name_loop n bs (at + 1 + length l) offset jumped (labels @ [l]) (len + (length l + 1))"
proof -
  note first = drop_ConsD [OF assms(1)] and size = label_size [OF assms(2)]
  have l: "l \<noteq> []" "list_all label_byte l" using assms(2) by (auto simp: bad_label_def)
  have range: "get_range (at + 1) (at + 1 + length l) bs = Some l"
    using drop_appendD(2,3) [OF first(3)] l(1) by (simp add: get_range_def)
  have "ok_or DnsError (get_at at bs) = Inr (of_nat (length l))"
    using first(1,2) by (simp add: get_at_def)
  then show ?thesis
    using size range assms(3) label_utf8 [OF l(2)] by (simp add: Let_def)
qed

lemma name_loop_end:
  assumes "drop at bs = 0 # rest"
  shows "name_loop (Suc n) bs at offset jumped labels len =
    and_then (dns_name (join dot labels)) (\<lambda>s. Inr (s, if jumped then offset else at + 1))"
proof -
  have "ok_or DnsError (get_at at bs) = Inr 0"
    using drop_ConsD [OF assms] by (simp add: get_at_def)
  then show ?thesis by simp
qed

lemma length_label_bytes: "length (label_bytes ls) = (\<Sum>l\<leftarrow>ls. length l + 1)"
  by (induction ls) simp_all

lemma name_loop_labels:
  assumes "drop at bs = label_bytes ls @ 0 # rest" "\<forall>l\<in>set ls. \<not> bad_label l"
    and "len + length (label_bytes ls) \<le> 254" "length ls < fuel"
  shows "name_loop fuel bs at offset jumped labels len =
    and_then (dns_name (join dot (labels @ ls)))
      (\<lambda>s. Inr (s, if jumped then offset else at + length (label_bytes ls) + 1))"
  using assms
proof (induction ls arbitrary: at labels len fuel)
  case Nil
  then obtain n where "fuel = Suc n" by (cases fuel) auto
  with name_loop_end [of at bs rest] Nil(1) show ?case by simp
next
  case (Cons l ls)
  obtain n where n: "fuel = Suc n" using Cons.prems(4) by (cases fuel) auto
  have d: "drop at bs = of_nat (length l) # l @ (label_bytes ls @ 0 # rest)" using Cons.prems(1) by simp
  have "drop (at + 1 + length l) bs = label_bytes ls @ 0 # rest"
    by (rule drop_appendD(1) [OF drop_ConsD(3) [OF d]])
  then have "name_loop n bs (at + 1 + length l) offset jumped (labels @ [l]) (len + (length l + 1)) =
      and_then (dns_name (join dot ((labels @ [l]) @ ls)))
        (\<lambda>s. Inr (s, if jumped then offset else at + 1 + length l + length (label_bytes ls) + 1))"
    using Cons.prems n by (intro Cons.IH) simp_all
  moreover have "name_loop fuel bs at offset jumped labels len =
      name_loop n bs (at + 1 + length l) offset jumped (labels @ [l]) (len + (length l + 1))"
    unfolding n using Cons.prems by (intro name_loop_label [OF d]) simp_all
  ultimately show ?case by (simp add: add.assoc)
qed

text \<open>Too little fuel for the labels is an error, never a wrong name.\<close>

lemma name_loop_exhausted:
  assumes "drop at bs = label_bytes ls @ 0 # rest" "\<forall>l\<in>set ls. \<not> bad_label l"
    and "len + length (label_bytes ls) \<le> 254" "fuel \<le> length ls"
  shows "name_loop fuel bs at offset jumped labels len = Inl DnsError"
  using assms
proof (induction ls arbitrary: at labels len fuel)
  case (Cons l ls)
  show ?case
  proof (cases fuel)
    case (Suc n)
    have d: "drop at bs = of_nat (length l) # l @ (label_bytes ls @ 0 # rest)" using Cons.prems(1) by simp
    have "drop (at + 1 + length l) bs = label_bytes ls @ 0 # rest"
      by (rule drop_appendD(1) [OF drop_ConsD(3) [OF d]])
    then have "name_loop n bs (at + 1 + length l) offset jumped (labels @ [l]) (len + (length l + 1)) = Inl DnsError"
      using Cons.prems Suc by (intro Cons.IH) simp_all
    then show ?thesis
      unfolding Suc using Cons.prems by (subst name_loop_label [OF d]) simp_all
  qed simp
qed simp

definition canonical_name :: "bytes \<Rightarrow> bool" where
  "canonical_name n = (dns_name n = Inr n)"

definition label_count :: "bytes \<Rightarrow> nat" where
  "label_count n = length (split_on dot n)"

definition name_bytes :: "bytes \<Rightarrow> bytes" where
  "name_bytes n = label_bytes (split_on dot n) @ [0]"

lemma length_join: "ls \<noteq> [] \<Longrightarrow> length (join c ls) + 1 = (\<Sum>l\<leftarrow>ls. length l + 1)"
  by (induction c ls rule: join.induct) simp_all

lemma canonical_name_facts:
  assumes "canonical_name n"
  shows "\<forall>l\<in>set (split_on dot n). \<not> bad_label l" "length (label_bytes (split_on dot n)) \<le> 254"
    "label_count n \<le> 127"
proof -
  note facts = dns_name_canonical [of n n]
  show good: "\<forall>l\<in>set (split_on dot n). \<not> bad_label l" and "length (label_bytes (split_on dot n)) \<le> 254"
    using assms facts length_join [of "split_on dot n" dot]
    by (simp_all add: canonical_name_def length_label_bytes)
  moreover have "2 * length ls \<le> length (label_bytes ls)" if "\<forall>l\<in>set ls. \<not> bad_label l" for ls
    using that
  proof (induction ls)
    case (Cons l ls)
    then have "1 \<le> length l" by (cases l) (simp_all add: bad_label_def)
    with Cons show ?case by simp
  qed simp
  ultimately show "label_count n \<le> 127" unfolding label_count_def by fastforce
qed

lemma read_name_direct:
  assumes "canonical_name n" "drop at bs = name_bytes n @ rest"
  shows "read_name bs at = Inr (n, at + length (name_bytes n))"
  using assms canonical_name_facts [OF assms(1)]
  by (simp add: read_name_def name_loop_labels [where rest = rest] name_bytes_def label_count_def canonical_name_def)

lemma name_loop_pointer:
  assumes "drop at bs = 0xc0 # 0x0c # rest" "12 < at"
  shows "name_loop (Suc n) bs at offset False labels len = name_loop n bs 12 (at + 2) True labels len"
proof -
  have "ok_or DnsError (get_at at bs) = Inr 0xc0" "ok_or DnsError (get_at (at + 1) bs) = Inr 0x0c"
    using drop_ConsD [OF assms(1)] drop_ConsD [OF drop_ConsD(3) [OF assms(1)]] by (simp_all add: get_at_def)
  then show ?thesis using assms(2) by simp
qed

text \<open>
  A pointer costs one more of the 128 iterations, so a name of 127 labels, which can be read
  directly, can not be read through one.
\<close>

lemma read_name_pointer:
  assumes "canonical_name q" "drop 12 bs = name_bytes q @ r" "drop at bs = 0xc0 # 0x0c # rest" "12 < at"
  shows "read_name bs at = (if label_count q \<le> 126 then Inr (q, at + 2) else Inl DnsError)"
proof -
  have "read_name bs at = name_loop 127 bs 12 (at + 2) True [] 0"
    using name_loop_pointer [OF assms(3,4), of 127] by (simp add: read_name_def)
  then show ?thesis
    using assms(1,2) canonical_name_facts [OF assms(1)]
      name_loop_labels [of 12 bs "split_on dot q" r 0 127 "at + 2" True "[]"]
      name_loop_exhausted [of 12 bs "split_on dot q" r 0 127 "at + 2" True "[]"]
    by (auto simp: name_bytes_def label_count_def canonical_name_def)
qed

section \<open>The round trip\<close>

definition answer_bytes :: "bytes \<Rightarrow> DnsARecord \<Rightarrow> bytes" where
  "answer_bytes q a =
     (if da_name a = q then [0xc0, 0x0c] else name_bytes (da_name a)) @
     u16_be 1 @ u16_be 1 @ u32_be (da_ttl a) @ u16_be 4 @ octets (da_address a)"

definition dns_bytes :: "DnsMessage \<Rightarrow> bytes" where
  "dns_bytes m =
     concat (map u16_be [dns_id m, DnsMessage_flags m, 1, of_nat (length (dns_answers m)), 0, 0]) @
     name_bytes (dq_name (dns_question m)) @ u16_be (dq_kind (dns_question m)) @ u16_be (dq_class (dns_question m)) @
     concat (map (answer_bytes (dq_name (dns_question m))) (dns_answers m))"

definition wire_dns :: "DnsMessage \<Rightarrow> bool" where
  "wire_dns m =
     (dns_rcode m \<le> 15 \<and> length (dns_answers m) \<le> 32 \<and> canonical_name (dq_name (dns_question m)) \<and>
      list_all (\<lambda>a. canonical_name (da_name a) \<and>
        (da_name a = dq_name (dns_question m) \<longrightarrow> label_count (da_name a) \<le> 126)) (dns_answers m) \<and>
      length (dns_bytes m) \<le> 512)"

lemma flags_fields:
  assumes "k \<le> 15"
  shows "dns_flags r a d k AND 0x7a40 = 0" "dns_flags r a d k AND 0x8000 \<noteq> 0 \<longleftrightarrow> r"
    "dns_flags r a d k AND 0x0400 \<noteq> 0 \<longleftrightarrow> a" "dns_flags r a d k AND 0x0100 \<noteq> 0 \<longleftrightarrow> d"
    "ucast (dns_flags r a d k AND 15) = k"
proof -
  let ?P = "\<lambda>k. (ucast (k::u8) :: u16) AND 0x7a40 = 0 \<and> (ucast k :: u16) AND 0x8000 = 0 \<and>
    (ucast k :: u16) AND 0x0400 = 0 \<and> (ucast k :: u16) AND 0x0100 = 0 \<and>
    ucast ((ucast k :: u16) AND 15) = k"
  have "list_all (\<lambda>k. ?P (of_nat k)) [0..<16]" by code_simp
  moreover have "unat k \<in> set [0..<16]" using assms by (simp add: word_le_nat_alt)
  ultimately have "?P (of_nat (unat k))" unfolding list_all_iff by blast
  then have k: "?P k" by simp
  show "dns_flags r a d k AND 0x7a40 = 0" "dns_flags r a d k AND 0x8000 \<noteq> 0 \<longleftrightarrow> r"
    "dns_flags r a d k AND 0x0400 \<noteq> 0 \<longleftrightarrow> a" "dns_flags r a d k AND 0x0100 \<noteq> 0 \<longleftrightarrow> d"
    "ucast (dns_flags r a d k AND 15) = k"
    using k by (cases r; cases a; cases d; simp add: dns_flags_def bit.conj_disj_distrib2)+
qed

lemma encode_name_canonical: "canonical_name n \<Longrightarrow> encode_name n out = Inr (out @ name_bytes n)"
  by (simp add: encode_name_def canonical_name_def name_bytes_def)

lemma encode_answers_bytes:
  assumes "canonical_name q" "list_all (\<lambda>a. canonical_name (da_name a)) as"
  shows "encode_answers q as out = Inr (out @ concat (map (answer_bytes q) as))"
  using assms(2)
proof (induction as arbitrary: out)
  case (Cons a as)
  have names: "dns_name (da_name a) = Inr (da_name a)" "dns_name q = Inr q"
    using Cons.prems assms(1) by (simp_all add: canonical_name_def)
  have "u16_be 1 @ u16_be 1 = [0, 1, 0, 1]" "u16_be 4 = [0, 4]" by (simp_all add: u16_be_def)
  then have bytes: "answer_bytes q a = (if da_name a = q then [0xc0, 0x0c] else name_bytes (da_name a)) @
      [0, 1, 0, 1] @ u32_be (da_ttl a) @ [0, 4] @ octets (da_address a)"
    unfolding answer_bytes_def by (metis append_assoc)
  show ?case
    using Cons by (simp add: names encode_name_canonical bytes)
qed simp

lemma dns_encode_bytes:
  assumes "wire_dns m"
  shows "DnsMessage_encode m = Inr (dns_bytes m)"
proof -
  have "list_all (\<lambda>a. canonical_name (da_name a)) (dns_answers m)"
    using assms by (simp add: wire_dns_def list_all_iff)
  then show ?thesis
    using assms unfolding DnsMessage_encode_def Let_def
    by (simp add: wire_dns_def encode_name_canonical encode_answers_bytes dns_bytes_def not_less)
qed

lemma read_word_u16_be:
  assumes "drop at bs = u16_be w @ rest"
  shows "read_word bs at = Inr (w, at + 2)" "drop (at + 2) bs = rest"
proof -
  note d = drop_appendD [OF assms]
  have "u16_be w \<noteq> []" by (simp add: u16_be_def)
  with d(2,3) have "get_range at (at + 2) bs = Some (u16_be w)" by (simp add: get_range_def)
  then show "read_word bs at = Inr (w, at + 2)" by (simp add: read_word_def u16_be_def)
  show "drop (at + 2) bs = rest" using d(1) by simp
qed

lemma decode_answers_step:
  assumes "drop at bs = answer_bytes q a @ rest" "12 < at" "canonical_name q" "drop 12 bs = name_bytes q @ r"
    and "canonical_name (da_name a)" "da_name a = q \<longrightarrow> label_count q \<le> 126"
  shows "decode_answers (Suc n) bs at acc = decode_answers n bs (at + length (answer_bytes q a)) (acc @ [a])"
proof -
  let ?nb = "if da_name a = q then [0xc0, 0x0c] else name_bytes (da_name a)"
  let ?at = "at + length ?nb"
  have d0: "drop at bs = ?nb @ u16_be 1 @ u16_be 1 @ u32_be (da_ttl a) @ u16_be 4 @ octets (da_address a) @ rest"
    using assms(1) by (simp add: answer_bytes_def)
  have name: "read_name bs at = Inr (da_name a, ?at)"
  proof (cases "da_name a = q")
    case True
    then show ?thesis using read_name_pointer [OF assms(3,4) _ assms(2)] d0 assms(6) by simp
  next
    case False
    then show ?thesis using read_name_direct [OF assms(5)] d0 by simp
  qed
  note w1 = read_word_u16_be [OF drop_appendD(1) [OF d0]]
  note w2 = read_word_u16_be [OF w1(2)]
  have "drop (?at + 2 + 2) bs = u16_be (ucast (drop_bit 16 (da_ttl a))) @ u16_be (ucast (da_ttl a)) @ u16_be 4 @
      octets (da_address a) @ rest"
    using w2(2) by (simp add: u32_be_def)
  note w3 = read_word_u16_be [OF this]
  note w4 = read_word_u16_be [OF w3(2)]
  note w5 = read_word_u16_be [OF w4(2)]
  have "octets (da_address a) \<noteq> []" by (simp add: octets_def u32_be_def u16_be_def)
  then have data: "get_range (?at + 2 + 2 + 2 + 2 + 2) (?at + 2 + 2 + 2 + 2 + 2 + unat (4::u16)) bs = Some (octets (da_address a))"
    using drop_appendD(2,3) [OF w5(2)] by (simp add: get_range_def)
  have len: "?at + 2 + 2 + 2 + 2 + 2 + unat (4::u16) = at + length (answer_bytes q a)"
    by (simp add: answer_bytes_def)
  have eta: "\<lparr>da_name = da_name a, da_ttl = da_ttl a, da_address = da_address a\<rparr> = a" by simp
  show ?thesis
    using data unfolding decode_answers.simps name and_then_simps prod.case w1(1) w2(1) w3(1) w4(1) w5(1) len
    by simp (simp only: eta)
qed

lemma decode_answers_run:
  assumes "drop at bs = concat (map (answer_bytes q) as)" "12 < at" "canonical_name q" "drop 12 bs = name_bytes q @ r"
    and "list_all (\<lambda>a. canonical_name (da_name a) \<and> (da_name a = q \<longrightarrow> label_count (da_name a) \<le> 126)) as"
  shows "decode_answers (length as) bs at acc = Inr (acc @ as, at + length (concat (map (answer_bytes q) as)))"
  using assms(1,2,5)
proof (induction as arbitrary: at acc)
  case (Cons a as)
  have d: "drop at bs = answer_bytes q a @ concat (map (answer_bytes q) as)" using Cons.prems(1) by simp
  have "decode_answers (Suc (length as)) bs at acc =
      decode_answers (length as) bs (at + length (answer_bytes q a)) (acc @ [a])"
    using Cons.prems by (intro decode_answers_step [OF d _ assms(3,4)]) auto
  also have "\<dots> = Inr ((acc @ [a]) @ as, at + length (answer_bytes q a) + length (concat (map (answer_bytes q) as)))"
    using Cons.prems drop_appendD(1) [OF d] by (intro Cons.IH) simp_all
  finally show ?case by (simp add: add.assoc)
qed simp

text \<open>Decoding an encoded message comes down to decoding its answers.\<close>

lemma dns_decode_bytes:
  assumes "dns_rcode m \<le> 15" "length (dns_answers m) \<le> 32" "canonical_name (dq_name (dns_question m))" "length (dns_bytes m) \<le> 512"
  obtains at r where "12 < at" "drop at (dns_bytes m) = concat (map (answer_bytes (dq_name (dns_question m))) (dns_answers m))"
    "drop 12 (dns_bytes m) = name_bytes (dq_name (dns_question m)) @ r"
    "at + length (concat (map (answer_bytes (dq_name (dns_question m))) (dns_answers m))) = length (dns_bytes m)"
    "DnsMessage_decode (dns_bytes m) = and_then (decode_answers (length (dns_answers m)) (dns_bytes m) at []) (\<lambda>(answers, at).
       if at \<noteq> length (dns_bytes m) then Inl DnsError else Inr (m\<lparr>dns_answers := answers\<rparr>))"
proof -
  let ?bs = "dns_bytes m" and ?q = "dns_question m" and ?n = "length (dns_answers m)"
  let ?as = "concat (map (answer_bytes (dq_name ?q)) (dns_answers m))"
  let ?at = "12 + length (name_bytes (dq_name ?q))"
  have count: "unat (of_nat ?n :: u16) = ?n" using assms(2) by (simp add: unat_of_nat)
  have d0: "drop 0 ?bs = u16_be (dns_id m) @ u16_be (DnsMessage_flags m) @ u16_be 1 @ u16_be (of_nat ?n) @
      u16_be 0 @ u16_be 0 @ name_bytes (dq_name ?q) @ u16_be (dq_kind ?q) @ u16_be (dq_class ?q) @ ?as"
    by (simp add: dns_bytes_def)
  note w1 = read_word_u16_be [OF d0]
  note w2 = read_word_u16_be [OF w1(2)]
  note w3 = read_word_u16_be [OF w2(2)]
  note w4 = read_word_u16_be [OF w3(2)]
  note w5 = read_word_u16_be [OF w4(2)]
  note w6 = read_word_u16_be [OF w5(2)]
  have d12: "drop 12 ?bs = name_bytes (dq_name ?q) @ u16_be (dq_kind ?q) @ u16_be (dq_class ?q) @ ?as"
    using w6(2) by (simp del: add_2_eq_Suc')
  have name: "read_name ?bs 12 = Inr (dq_name ?q, ?at)" by (rule read_name_direct [OF assms(3) d12])
  note w7 = read_word_u16_be [OF drop_appendD(1) [OF d12]]
  note w8 = read_word_u16_be [OF w7(2)]
  have len: "?at + 2 + 2 + length ?as = length ?bs" by (simp add: dns_bytes_def)
  have upd: "m\<lparr>dns_answers := answers\<rparr> = \<lparr>dns_id = dns_id m, dns_response = dns_response m,
      dns_authoritative = dns_authoritative m, dns_recursion_desired = dns_recursion_desired m, dns_rcode = dns_rcode m,
      dns_question = \<lparr>dq_name = dq_name ?q, dq_kind = dq_kind ?q, dq_class = dq_class ?q\<rparr>, dns_answers = answers\<rparr>" for answers
    by (cases m) simp
  have "\<not> 32 < (of_nat ?n :: u16)" using count assms(2) by (simp add: word_less_nat_alt)
  then have "DnsMessage_decode ?bs = and_then (decode_answers ?n ?bs (?at + 2 + 2) []) (\<lambda>(answers, at).
       if at \<noteq> length ?bs then Inl DnsError else Inr (m\<lparr>dns_answers := answers\<rparr>))"
    using assms(4) w1(1) w2(1) w3(1) w4(1) w5(1) w6(1) w7(1) w8(1) name count
      flags_fields [OF assms(1), of "dns_response m" "dns_authoritative m" "dns_recursion_desired m"]
    by (cases "decode_answers ?n ?bs (?at + 2 + 2) []")
      (auto simp: DnsMessage_decode_def DnsMessage_flags_def not_less upd simp del: add_2_eq_Suc')
  then show ?thesis by (rule that [OF _ w8(2) d12 len, rotated]) simp
qed

lemma dns_decode_encode:
  assumes "wire_dns m"
  shows "DnsMessage_decode (dns_bytes m) = Inr m"
proof -
  have wire: "dns_rcode m \<le> 15" "length (dns_answers m) \<le> 32" "canonical_name (dq_name (dns_question m))" "length (dns_bytes m) \<le> 512"
    using assms by (simp_all add: wire_dns_def)
  from wire obtain at r where d: "12 < at" "drop at (dns_bytes m) = concat (map (answer_bytes (dq_name (dns_question m))) (dns_answers m))"
    "drop 12 (dns_bytes m) = name_bytes (dq_name (dns_question m)) @ r"
    "at + length (concat (map (answer_bytes (dq_name (dns_question m))) (dns_answers m))) = length (dns_bytes m)"
    and dec: "DnsMessage_decode (dns_bytes m) = and_then (decode_answers (length (dns_answers m)) (dns_bytes m) at []) (\<lambda>(answers, at).
       if at \<noteq> length (dns_bytes m) then Inl DnsError else Inr (m\<lparr>dns_answers := answers\<rparr>))"
    by (rule dns_decode_bytes)
  have "decode_answers (length (dns_answers m)) (dns_bytes m) at [] = Inr ([] @ dns_answers m, length (dns_bytes m))"
    unfolding d(4) [symmetric]
    using assms by (intro decode_answers_run [OF d(2,1) wire(3) d(3)]) (simp add: wire_dns_def)
  then show ?thesis by (simp add: dec)
qed

text \<open>A compressed answer to a name of more than 126 labels exhausts the decoder's 128 iterations.\<close>

lemma dns_long_answer:
  assumes wire: "dns_rcode m \<le> 15" "length (dns_answers m) \<le> 32" "canonical_name (dq_name (dns_question m))" "length (dns_bytes m) \<le> 512"
    and answers: "dns_answers m = a # as" "da_name a = dq_name (dns_question m)" "126 < label_count (da_name a)"
  shows "DnsMessage_decode (dns_bytes m) = Inl DnsError"
proof -
  from wire obtain at r where d: "12 < at" "drop at (dns_bytes m) = concat (map (answer_bytes (dq_name (dns_question m))) (dns_answers m))"
    "drop 12 (dns_bytes m) = name_bytes (dq_name (dns_question m)) @ r"
    and dec: "DnsMessage_decode (dns_bytes m) = and_then (decode_answers (length (dns_answers m)) (dns_bytes m) at []) (\<lambda>(answers, at).
       if at \<noteq> length (dns_bytes m) then Inl DnsError else Inr (m\<lparr>dns_answers := answers\<rparr>))"
    by (rule dns_decode_bytes)
  have "read_name (dns_bytes m) at = Inl DnsError"
    using read_name_pointer [OF wire(3) d(3) _ d(1)] d(2) answers by (simp add: answer_bytes_def)
  then show ?thesis by (simp add: dec answers(1))
qed

interpretation dns: wire_codec DnsMessage_encode DnsMessage_decode wire_dns
  by unfold_locales (auto simp: dns_encode_bytes dns_decode_encode)

section \<open>Properties\<close>

text \<open>
  C38. DNS messages survive the wire: a message with canonical lower-case names, at most 32 answers
  and 512 octets, is encoded, with answers to the question compressed to a pointer, and decoded
  back unchanged.
\<close>

theorem dns_round_trip:
  assumes "wire_dns m"
  shows "\<exists>bs. DnsMessage_encode m = Inr bs \<and> length bs \<le> 512 \<and> DnsMessage_decode bs = Inr m"
  using assms dns_encode_bytes [OF assms] dns_decode_encode [OF assms] by (auto simp: wire_dns_def)

definition sample_dns :: DnsMessage where
  "sample_dns = \<lparr>dns_id = 7, dns_response = True, dns_authoritative = True, dns_recursion_desired = False, dns_rcode = 0,
     dns_question = \<lparr>dq_name = [97, 46, 98], dq_kind = 1, dq_class = 1\<rparr>,
     dns_answers = [\<lparr>da_name = [97, 46, 98], da_ttl = 60, da_address = 0x0a000001\<rparr>]\<rparr>"

theorem dns_round_trip_witness:
  "\<exists>bs. DnsMessage_encode sample_dns = Inr bs \<and> length bs \<le> 512 \<and> DnsMessage_decode bs = Inr sample_dns"
  by (rule dns_round_trip) code_simp

text \<open>
  C39. The decoder's bound of 128 name steps is one short: an answer that repeats a question of
  127 labels, the longest legal name, is encoded as a pointer, and the message the encoder just
  produced is refused by the decoder.
\<close>

theorem dns_longest_name_refused:
  assumes "dns_rcode m \<le> 15" "length (dns_answers m) \<le> 32" "canonical_name (dq_name (dns_question m))"
    and "list_all (\<lambda>a. canonical_name (da_name a)) (dns_answers m)" "length (dns_bytes m) \<le> 512"
    and "dns_answers m = a # as" "da_name a = dq_name (dns_question m)" "label_count (da_name a) = 127"
  shows "DnsMessage_encode m = Inr (dns_bytes m) \<and> DnsMessage_decode (dns_bytes m) = Inl DnsError"
proof
  show "DnsMessage_encode m = Inr (dns_bytes m)"
    using assms(1-5) unfolding DnsMessage_encode_def Let_def
    by (simp add: encode_name_canonical encode_answers_bytes dns_bytes_def not_less)
  show "DnsMessage_decode (dns_bytes m) = Inl DnsError"
    by (rule dns_long_answer [OF assms(1-3,5-7)]) (simp add: assms(8))
qed

definition longest_name :: bytes where
  "longest_name = join dot (replicate 127 [97])"

definition longest_dns :: DnsMessage where
  "longest_dns = sample_dns\<lparr>dns_question := \<lparr>dq_name = longest_name, dq_kind = 1, dq_class = 1\<rparr>,
     dns_answers := [\<lparr>da_name = longest_name, da_ttl = 60, da_address = 0x0a000001\<rparr>]\<rparr>"

theorem dns_longest_name_refused_witness:
  "DnsMessage_encode longest_dns = Inr (dns_bytes longest_dns) \<and> DnsMessage_decode (dns_bytes longest_dns) = Inl DnsError"
proof -
  have "canonical_name longest_name" "label_count longest_name = 127" "length (name_bytes longest_name) = 255"
    by code_simp+
  then show ?thesis
    by (intro dns_longest_name_refused [of _ "hd (dns_answers longest_dns)" "[]"])
      (simp_all add: longest_dns_def sample_dns_def dns_bytes_def answer_bytes_def)
qed

end
