(* ===== verification/Switching.thy ===== *)
theory Switching
  imports Ethernet
begin

text \<open>
  The crate \<open>rios-switching\<close>: IEEE 802.1D configuration BPDUs (\<open>lib.rs\<close>), LLC-framed 802.1D
  and 802.1w BPDUs (\<open>rstp.rs\<close>), and LACP version 1 PDUs (\<open>lacp.rs\<close>). A six-byte array is a
  \<open>MacAddress\<close>.
\<close>

section \<open>Configuration BPDUs\<close>

definition STP_HELLO_MS :: nat where "STP_HELLO_MS = 2000"
definition STP_MAX_AGE_MS :: nat where "STP_MAX_AGE_MS = 20000"

datatype StpPortRole = RootPort | Designated | Alternate

datatype StpPortState = Blocking | Listening | Learning | Forwarding

record ConfigurationBpdu =
  bp_root_id :: u64
  bp_root_cost :: u32
  bp_bridge_id :: u64
  bp_port_id :: u16

datatype BpduError = Malformed

definition ConfigurationBpdu_encode :: "ConfigurationBpdu \<Rightarrow> bytes" where
  "ConfigurationBpdu_encode c =
     (let b0 = replicate 35 0;
          b1 = copy_into 5 (u64_be (bp_root_id c)) b0;
          b2 = copy_into 13 (u32_be (bp_root_cost c)) b1;
          b3 = copy_into 17 (u64_be (bp_bridge_id c)) b2;
          b4 = copy_into 25 (u16_be (bp_port_id c)) b3;
          b5 = copy_into 29 (u16_be (20 * 256)) b4;
          b6 = copy_into 31 (u16_be (2 * 256)) b5
      in copy_into 33 (u16_be (15 * 256)) b6)"

definition ConfigurationBpdu_decode :: "bytes \<Rightarrow> BpduError + ConfigurationBpdu" where
  "ConfigurationBpdu_decode bs =
     (if length bs \<noteq> 35 \<or> slice 0 4 bs \<noteq> [0, 0, 0, 0] then Inl Malformed
      else Inr \<lparr>bp_root_id = u64_at bs 5, bp_root_cost = u32_at bs 13, bp_bridge_id = u64_at bs 17,
                bp_port_id = u16_at bs 25\<rparr>)"

text \<open>The 35 bytes as fields; the flags octet and the timers are overwritten by \<open>StpBpdu\<close>.\<close>

definition bpdu_bytes :: "u8 \<Rightarrow> u8 \<Rightarrow> u8 \<Rightarrow> ConfigurationBpdu \<Rightarrow> u16 \<Rightarrow> u16 \<Rightarrow> u16 \<Rightarrow> u16 \<Rightarrow> bytes" where
  "bpdu_bytes version kind flags c message_age max_age hello_time forward_delay =
     [0, 0, version, kind, flags] @ u64_be (bp_root_id c) @ u32_be (bp_root_cost c) @ u64_be (bp_bridge_id c) @
     u16_be (bp_port_id c) @ u16_be message_age @ u16_be max_age @ u16_be hello_time @ u16_be forward_delay"

lemma u16_be_zero: "u16_be 0 = [0, 0]"
  by (simp add: u16_be_def)

lemma configuration_bytes:
  "ConfigurationBpdu_encode c = bpdu_bytes 0 0 0 c 0 (20 * 256) (2 * 256) (15 * 256)"
proof -
  have split: "replicate 35 (0::u8) = replicate 5 0 @ replicate 30 0" by (simp flip: replicate_add)
  show ?thesis
    unfolding ConfigurationBpdu_encode_def Let_def split
    by (simp add: codec_simps bpdu_bytes_def replicate_numeral u16_be_zero)
qed

lemma length_bpdu_bytes [simp]: "length (bpdu_bytes v k f c a m h d) = 35"
  by (simp add: bpdu_bytes_def)

lemma bpdu_fields:
  "slice 0 4 (bpdu_bytes v k f c a m h d) = [0, 0, v, k]" "bpdu_bytes v k f c a m h d ! 4 = f"
  "u64_at (bpdu_bytes v k f c a m h d) 5 = bp_root_id c" "u32_at (bpdu_bytes v k f c a m h d) 13 = bp_root_cost c"
  "u64_at (bpdu_bytes v k f c a m h d) 17 = bp_bridge_id c" "u16_at (bpdu_bytes v k f c a m h d) 25 = bp_port_id c"
  "u16_at (bpdu_bytes v k f c a m h d) 27 = a" "u16_at (bpdu_bytes v k f c a m h d) 29 = m"
  "u16_at (bpdu_bytes v k f c a m h d) 31 = h" "u16_at (bpdu_bytes v k f c a m h d) 33 = d"
  by (simp_all add: bpdu_bytes_def codec_simps)

lemma configuration_decode: "ConfigurationBpdu_decode (bpdu_bytes 0 0 f c a m h d) = Inr c"
  by (simp add: ConfigurationBpdu_decode_def bpdu_fields)

interpretation configuration: wire_codec "\<lambda>c. Inr (ConfigurationBpdu_encode c)" ConfigurationBpdu_decode "\<lambda>_. True"
  by unfold_locales (auto simp: configuration_bytes configuration_decode)

section \<open>Rapid spanning tree\<close>

definition BPDU_PROPOSAL :: u8 where "BPDU_PROPOSAL = 2"
definition BPDU_AGREEMENT :: u8 where "BPDU_AGREEMENT = 64"
definition BPDU_LEARNING :: u8 where "BPDU_LEARNING = 16"
definition BPDU_FORWARDING :: u8 where "BPDU_FORWARDING = 32"
definition BPDU_ROLE_ROOT :: u8 where "BPDU_ROLE_ROOT = 8"
definition BPDU_ROLE_DESIGNATED :: u8 where "BPDU_ROLE_DESIGNATED = 12"
definition BPDU_ROLE_ALTERNATE :: u8 where "BPDU_ROLE_ALTERNATE = 4"

definition STP_LLC :: bytes where
  "STP_LLC = [0x42, 0x42, 3]"

record StpBpdu =
  sb_configuration :: ConfigurationBpdu
  sb_rapid :: bool
  sb_flags :: u8
  sb_message_age :: u16
  sb_max_age :: u16
  sb_hello_time :: u16
  sb_forward_delay :: u16

definition StpBpdu_new :: "ConfigurationBpdu \<Rightarrow> bool \<Rightarrow> u8 \<Rightarrow> StpBpdu" where
  "StpBpdu_new c rapid flags =
     \<lparr>sb_configuration = c, sb_rapid = rapid, sb_flags = flags, sb_message_age = 0,
      sb_max_age = 20 * 256, sb_hello_time = 2 * 256, sb_forward_delay = 15 * 256\<rparr>"

definition StpBpdu_encode :: "StpBpdu \<Rightarrow> bytes" where
  "StpBpdu_encode p =
     (let b0 = ConfigurationBpdu_encode (sb_configuration p);
          b1 = (if sb_rapid p then b0[2 := 2, 3 := 2] @ [0] else b0);
          b2 = b1[4 := sb_flags p];
          b3 = foldl (\<lambda>b (offset, v). copy_into offset (u16_be v) b) b2
                 [(27, sb_message_age p), (29, sb_max_age p), (31, sb_hello_time p), (33, sb_forward_delay p)]
      in STP_LLC @ b3)"

definition StpBpdu_decode :: "bytes \<Rightarrow> BpduError + StpBpdu" where
  "StpBpdu_decode bytes =
     (if take 3 bytes \<noteq> STP_LLC \<or> length bytes < 38 then Inl Malformed
      else let bs = drop 3 bytes
      in and_then
           (if slice 0 4 bs = [0, 0, 0, 0] \<and> length bs = 35 then Inr False
            else if slice 0 4 bs = [0, 0, 2, 2] \<and> length bs = 36 \<and> bs ! 35 = 0 then Inr True
            else Inl Malformed)
           (\<lambda>rapid. and_then (ConfigurationBpdu_decode ((take 35 bs)[2 := 0, 3 := 0])) (\<lambda>c.
              let packet = \<lparr>sb_configuration = c, sb_rapid = rapid, sb_flags = bs ! 4,
                    sb_message_age = u16_at bs 27, sb_max_age = u16_at bs 29,
                    sb_hello_time = u16_at bs 31, sb_forward_delay = u16_at bs 33\<rparr>
              in if sb_max_age packet = 0 \<or> sb_hello_time packet = 0 \<or> sb_forward_delay packet = 0 \<or>
                    sb_max_age packet \<le> sb_message_age packet
                 then Inl Malformed else Inr packet)))"

definition wire_bpdu :: "StpBpdu \<Rightarrow> bool" where
  "wire_bpdu p = (sb_max_age p \<noteq> 0 \<and> sb_hello_time p \<noteq> 0 \<and> sb_forward_delay p \<noteq> 0 \<and>
     sb_message_age p < sb_max_age p)"

lemma bpdu_update:
  "(bpdu_bytes v k f c a m h d)[2 := v', 3 := k'] = bpdu_bytes v' k' f c a m h d"
  "(bpdu_bytes v k f c a m h d)[4 := f'] = bpdu_bytes v k f' c a m h d"
  by (simp_all add: bpdu_bytes_def codec_simps)

lemma bpdu_timers:
  "foldl (\<lambda>b (offset, v). copy_into offset (u16_be v) b) (bpdu_bytes v k f c a m h d @ r)
     [(27, a'), (29, m'), (31, h'), (33, d')] = bpdu_bytes v k f c a' m' h' d' @ r"
  by (simp add: bpdu_bytes_def codec_simps)

lemma bpdu_flags_append:
  "(bpdu_bytes v k f c a m h d @ r)[4 := f'] = bpdu_bytes v k f' c a m h d @ r"
  by (simp add: list_update_append bpdu_update)

lemma stp_bytes:
  "StpBpdu_encode p = STP_LLC @
     (if sb_rapid p
      then bpdu_bytes 2 2 (sb_flags p) (sb_configuration p) (sb_message_age p) (sb_max_age p)
             (sb_hello_time p) (sb_forward_delay p) @ [0]
      else bpdu_bytes 0 0 (sb_flags p) (sb_configuration p) (sb_message_age p) (sb_max_age p)
             (sb_hello_time p) (sb_forward_delay p) @ [])"
  unfolding StpBpdu_encode_def Let_def
  using bpdu_timers [where r = "[]"]
  by (cases "sb_rapid p")
    (simp_all only: configuration_bytes bpdu_update bpdu_flags_append bpdu_timers if_True if_False append_Nil2)

lemma stp_decode_encode:
  assumes "wire_bpdu p"
  shows "StpBpdu_decode (StpBpdu_encode p) = Inr p"
proof -
  let ?f = "bpdu_bytes (if sb_rapid p then 2 else 0) (if sb_rapid p then 2 else 0) (sb_flags p) (sb_configuration p)
    (sb_message_age p) (sb_max_age p) (sb_hello_time p) (sb_forward_delay p)"
  let ?bs = "?f @ (if sb_rapid p then [0] else [])"
  have enc: "StpBpdu_encode p = STP_LLC @ ?bs" by (simp add: stp_bytes)
  have "slice 0 4 ?bs = [0, 0, if sb_rapid p then 2 else 0, if sb_rapid p then 2 else 0]" "?bs ! 4 = sb_flags p"
    "u16_at ?bs 27 = sb_message_age p" "u16_at ?bs 29 = sb_max_age p" "u16_at ?bs 31 = sb_hello_time p"
    "u16_at ?bs 33 = sb_forward_delay p" "take 35 ?bs = ?f" "sb_rapid p \<Longrightarrow> ?bs ! 35 = 0"
    by (simp_all add: codec_simps bpdu_fields)
  moreover have "ConfigurationBpdu_decode (?f[2 := 0, 3 := 0]) = Inr (sb_configuration p)"
    by (simp add: bpdu_update configuration_decode)
  moreover have "take 3 (STP_LLC @ ?bs) = STP_LLC" "drop 3 (STP_LLC @ ?bs) = ?bs"
    "length (STP_LLC @ ?bs) = 38 + (if sb_rapid p then 1 else 0)"
    by (simp_all add: STP_LLC_def)
  ultimately show ?thesis
    using assms unfolding enc StpBpdu_decode_def Let_def
    by (cases "sb_rapid p") (simp_all add: wire_bpdu_def not_le)
qed

interpretation stp: wire_codec "\<lambda>p. Inr (StpBpdu_encode p)" StpBpdu_decode wire_bpdu
  by unfold_locales (auto simp: stp_decode_encode)

lemma new_bpdu_wire: "wire_bpdu (StpBpdu_new c rapid flags)"
  by (simp add: wire_bpdu_def StpBpdu_new_def)

lemma stp_decode_wire: "StpBpdu_decode bs = Inr p \<Longrightarrow> wire_bpdu p"
  by (auto simp: StpBpdu_decode_def Let_def wire_bpdu_def and_then_Inr_iff not_le split: if_splits)

section \<open>LACP\<close>

definition LACP_ACTIVITY :: u8 where "LACP_ACTIVITY = 1"
definition LACP_TIMEOUT :: u8 where "LACP_TIMEOUT = 2"
definition LACP_AGGREGATION :: u8 where "LACP_AGGREGATION = 4"
definition LACP_SYNC :: u8 where "LACP_SYNC = 8"
definition LACP_COLLECTING :: u8 where "LACP_COLLECTING = 16"
definition LACP_DISTRIBUTING :: u8 where "LACP_DISTRIBUTING = 32"
definition LACP_DEFAULTED :: u8 where "LACP_DEFAULTED = 64"

record LacpPortInfo =
  lp_system_priority :: u16
  lp_system :: MacAddress
  lp_key :: u16
  lp_port_priority :: u16
  lp_port :: u16
  lp_state :: u8

definition LacpPortInfo_matches :: "LacpPortInfo \<Rightarrow> LacpPortInfo \<Rightarrow> bool" where
  "LacpPortInfo_matches a b =
     (lp_system_priority a = lp_system_priority b \<and> lp_system a = lp_system b \<and> lp_key a = lp_key b \<and>
      lp_port_priority a = lp_port_priority b \<and> lp_port a = lp_port b \<and>
      lp_state a AND LACP_AGGREGATION = lp_state b AND LACP_AGGREGATION)"

record Lacpdu =
  la_actor :: LacpPortInfo
  la_partner :: LacpPortInfo
  la_collector_delay :: u16

datatype LacpError = LacpError

definition put_info :: "bytes \<Rightarrow> nat \<times> u8 \<times> LacpPortInfo \<Rightarrow> bytes" where
  "put_info b0 = (\<lambda>(offset, kind, info).
     let b1 = copy_into offset [kind, 20] b0;
         b2 = copy_into (offset + 2) (u16_be (lp_system_priority info)) b1;
         b3 = copy_into (offset + 4) (Mac_octets (lp_system info)) b2;
         b4 = copy_into (offset + 10) (u16_be (lp_key info)) b3;
         b5 = copy_into (offset + 12) (u16_be (lp_port_priority info)) b4;
         b6 = copy_into (offset + 14) (u16_be (lp_port info)) b5
     in b6[offset + 16 := lp_state info])"

definition Lacpdu_encode :: "Lacpdu \<Rightarrow> bytes" where
  "Lacpdu_encode p =
     (let b0 = replicate 110 0;
          b1 = copy_into 0 [1, 1] b0;
          b2 = foldl put_info b1 [(2, 1, la_actor p), (22, 2, la_partner p)];
          b3 = copy_into 42 [3, 16] b2
      in copy_into 44 (u16_be (la_collector_delay p)) b3)"

definition info_at :: "bytes \<Rightarrow> nat \<Rightarrow> LacpPortInfo" where
  "info_at bs offset =
     \<lparr>lp_system_priority = u16_at bs (offset + 2), lp_system = Mac_of (slice (offset + 4) (offset + 10) bs),
      lp_key = u16_at bs (offset + 10), lp_port_priority = u16_at bs (offset + 12),
      lp_port = u16_at bs (offset + 14), lp_state = bs ! (offset + 16)\<rparr>"

definition Lacpdu_decode :: "bytes \<Rightarrow> LacpError + Lacpdu" where
  "Lacpdu_decode bs =
     (if length bs \<noteq> 110 \<or> slice 0 4 bs \<noteq> [1, 1, 1, 20] \<or> slice 22 24 bs \<noteq> [2, 20] \<or>
         slice 42 44 bs \<noteq> [3, 16] \<or> slice 58 60 bs \<noteq> [0, 0]
      then Inl LacpError
      else Inr \<lparr>la_actor = info_at bs 2, la_partner = info_at bs 22, la_collector_delay = u16_at bs 44\<rparr>)"

definition info_bytes :: "u8 \<Rightarrow> LacpPortInfo \<Rightarrow> bytes" where
  "info_bytes kind i =
     [kind, 20] @ u16_be (lp_system_priority i) @ Mac_octets (lp_system i) @ u16_be (lp_key i) @
     u16_be (lp_port_priority i) @ u16_be (lp_port i) @ [lp_state i, 0, 0, 0]"

lemma length_info_bytes [simp]: "length (info_bytes k i) = 20"
  by (simp add: info_bytes_def)

lemma put_info_bytes:
  assumes "length pre = offset"
  shows "put_info (pre @ replicate 20 0 @ post) (offset, kind, info) = pre @ info_bytes kind info @ post"
  using assms by (simp add: put_info_def Let_def codec_simps info_bytes_def replicate_numeral)

lemma lacpdu_bytes:
  "Lacpdu_encode p = [1, 1] @ info_bytes 1 (la_actor p) @ info_bytes 2 (la_partner p) @ [3, 16] @
     u16_be (la_collector_delay p) @ replicate 64 0"
proof -
  have split: "replicate 110 (0::u8) = replicate 2 0 @ replicate 20 0 @ replicate 20 0 @ replicate 68 0"
    by (simp flip: replicate_add)
  have "copy_into 0 [1, 1] (replicate 110 (0::u8)) = [1, 1] @ replicate 20 0 @ (replicate 20 0 @ replicate 68 0)"
    unfolding split by (simp add: codec_simps)
  then have "foldl put_info (copy_into 0 [1, 1] (replicate 110 0)) [(2, 1, la_actor p), (22, 2, la_partner p)] =
      put_info (([1, 1] @ info_bytes 1 (la_actor p)) @ replicate 20 0 @ replicate 68 0) (22, 2, la_partner p)"
    by (simp only: foldl.simps) (subst put_info_bytes; simp)
  also have "\<dots> = ([1, 1] @ info_bytes 1 (la_actor p)) @ info_bytes 2 (la_partner p) @ replicate 68 0"
    by (rule put_info_bytes) simp
  finally show ?thesis
    unfolding Lacpdu_encode_def Let_def by (simp add: codec_simps)
qed

lemma info_bytes_fields:
  assumes "length pre = offset"
  shows "info_at (pre @ info_bytes kind info @ post) offset = info"
proof -
  let ?bs = "pre @ info_bytes kind info @ post"
  have "Mac_of (Mac_octets a) = a" for a by (cases a) (simp add: Mac_of_def)
  moreover have "u16_at ?bs (offset + 2) = lp_system_priority info"
    "slice (offset + 4) (offset + 10) ?bs = Mac_octets (lp_system info)" "u16_at ?bs (offset + 10) = lp_key info"
    "u16_at ?bs (offset + 12) = lp_port_priority info" "u16_at ?bs (offset + 14) = lp_port info"
    "?bs ! (offset + 16) = lp_state info"
    using assms by (simp_all add: info_bytes_def codec_simps)
  ultimately show ?thesis by (simp add: info_at_def)
qed

lemma lacp_decode_encode: "Lacpdu_decode (Lacpdu_encode p) = Inr p"
proof -
  let ?bs = "Lacpdu_encode p"
  have "info_at ?bs 2 = la_actor p"
    unfolding lacpdu_bytes by (rule info_bytes_fields) simp
  moreover have "info_at (([1, 1] @ info_bytes 1 (la_actor p)) @ info_bytes 2 (la_partner p) @ [3, 16] @
     u16_be (la_collector_delay p) @ replicate 64 0) 22 = la_partner p"
    by (rule info_bytes_fields) simp
  then have "info_at ?bs 22 = la_partner p" by (simp add: lacpdu_bytes)
  moreover have "slice 0 2 (info_bytes k i) = [k, 20]" for k i by (simp add: info_bytes_def codec_simps)
  then have "slice 0 4 ?bs = [1, 1, 1, 20]" "slice 22 24 ?bs = [2, 20]" "slice 42 44 ?bs = [3, 16]"
    "slice 58 60 ?bs = [0, 0]" "u16_at ?bs 44 = la_collector_delay p" "length ?bs = 110"
    unfolding lacpdu_bytes by (simp_all add: codec_simps numeral_2_eq_2)
  ultimately show ?thesis by (simp add: Lacpdu_decode_def)
qed

interpretation lacp: wire_codec "\<lambda>p. Inr (Lacpdu_encode p)" Lacpdu_decode "\<lambda>_. True"
  by unfold_locales (auto simp: lacp_decode_encode)

text \<open>\<open>matches\<close> is an equivalence: identity plus the aggregation capability.\<close>

lemma matches_equiv: "equivp LacpPortInfo_matches"
  by (rule equivpI) (auto simp: reflp_def symp_def transp_def LacpPortInfo_matches_def)

end
