(* ===== verification/Lsa_Checksum.thy ===== *)
theory Lsa_Checksum
  imports Codec
begin

text \<open>
  The crate \<open>rios-routing\<close>, the age-independent Fletcher checksum of link-state advertisements
  (\<open>lsa_checksum.rs\<close>), shared by OSPFv2 and OSPFv3. The \<open>i64\<close> values stay far below overflow
  and are integers; the remainder of Rust truncates towards zero.
\<close>

definition fletcher :: "bytes \<Rightarrow> int \<times> int" where
  "fletcher bs =
     foldl (\<lambda>(c0, c1) b. let c0' = (c0 + uint b) mod 255 in (c0', (c1 + c0') mod 255)) (0, 0) bs"

definition rem :: "int \<Rightarrow> int \<Rightarrow> int" where
  "rem a b = (if 0 \<le> a then a mod b else - ((- a) mod b))"

definition checksum_x :: "nat \<Rightarrow> int \<Rightarrow> int \<Rightarrow> int" where
  "checksum_x len c0 c1 = (let x = rem ((int len - 17) * c0 - c1) 255 in if x \<le> 0 then x + 255 else x)"

definition checksum_y :: "int \<Rightarrow> int \<Rightarrow> int" where
  "checksum_y c0 x = (let y = 510 - c0 - x in if 255 < y then y - 255 else y)"

definition lsa_insert :: "bytes \<Rightarrow> bytes" where
  "lsa_insert out =
     (let (c0, c1) = fletcher (drop 2 out);
          x = checksum_x (length out) c0 c1;
          y = checksum_y c0 x
      in out[16 := word_of_int x, 17 := word_of_int y])"

section \<open>The residues as weighted sums\<close>

fun byte_sum :: "bytes \<Rightarrow> int" where
  "byte_sum [] = 0"
| "byte_sum (b # bs) = uint b + byte_sum bs"

fun weighted_sum :: "bytes \<Rightarrow> int" where
  "weighted_sum [] = 0"
| "weighted_sum (b # bs) = int (length bs + 1) * uint b + weighted_sum bs"

lemma byte_sum_append: "byte_sum (xs @ ys) = byte_sum xs + byte_sum ys"
  by (induction xs) simp_all

lemma weighted_sum_append:
  "weighted_sum (xs @ ys) = weighted_sum xs + int (length ys) * byte_sum xs + weighted_sum ys"
  by (induction xs) (simp_all add: algebra_simps)

lemma mod_step: "(c mod 255 + (a mod 255 + u) mod 255) mod 255 = (c + (a + u)) mod (255::int)"
proof -
  have "(a mod 255 + u) mod 255 = (a + u) mod 255" by (rule mod_add_left_eq)
  then show ?thesis by (simp only: mod_add_eq)
qed

lemma mod_head: "(w mod 255 + a + b) mod 255 = (w + a + b) mod (255::int)"
  using mod_add_left_eq [of w 255 "a + b"] by (simp only: add.assoc)

lemma fletcher_from:
  "foldl (\<lambda>(c0, c1) b. let c0' = (c0 + uint b) mod 255 in (c0', (c1 + c0') mod 255)) (a mod 255, c mod 255) bs =
     ((a + byte_sum bs) mod 255, (c + int (length bs) * a + weighted_sum bs) mod 255)"
proof (induction bs arbitrary: a c)
  case (Cons b bs)
  have "foldl (\<lambda>(c0, c1) b. let c0' = (c0 + uint b) mod 255 in (c0', (c1 + c0') mod 255)) (a mod 255, c mod 255) (b # bs) =
      foldl (\<lambda>(c0, c1) b. let c0' = (c0 + uint b) mod 255 in (c0', (c1 + c0') mod 255))
        ((a + uint b) mod 255, (c + (a + uint b)) mod 255) bs"
    unfolding foldl.simps prod.case Let_def mod_step by (simp only: mod_add_left_eq)
  also have "\<dots> = ((a + uint b + byte_sum bs) mod 255,
      (c + (a + uint b) + int (length bs) * (a + uint b) + weighted_sum bs) mod 255)"
    by (rule Cons.IH)
  also have "a + uint b + byte_sum bs = a + byte_sum (b # bs)" by simp
  also have "c + (a + uint b) + int (length bs) * (a + uint b) + weighted_sum bs =
      c + int (length (b # bs)) * a + weighted_sum (b # bs)" by (simp add: algebra_simps)
  finally show ?case .
qed simp

lemma fletcher_sums: "fletcher bs = (byte_sum bs mod 255, weighted_sum bs mod 255)"
  using fletcher_from [of 0 0 bs] by (simp add: fletcher_def)

section \<open>Insertion\<close>

lemma rem_cong: "0 < b \<Longrightarrow> (rem a b) mod b = a mod b"
  by (simp add: rem_def mod_minus_eq)

lemma rem_bounds: "0 < b \<Longrightarrow> - b < rem a b \<and> rem a b < b"
proof -
  assume "0 < b"
  then have "0 \<le> c mod b \<and> c mod b < b" for c by simp
  then have "0 \<le> a mod b" "a mod b < b" "0 \<le> (- a) mod b" "(- a) mod b < b" by blast+
  moreover have "rem a b = a mod b \<or> rem a b = - ((- a) mod b)" by (simp add: rem_def)
  ultimately show ?thesis using \<open>0 < b\<close> by linarith
qed

lemma checksum_x_props:
  "checksum_x len c0 c1 mod 255 = ((int len - 17) * c0 - c1) mod 255" "1 \<le> checksum_x len c0 c1" "checksum_x len c0 c1 \<le> 255"
proof -
  let ?d = "(int len - 17) * c0 - c1"
  have "rem ?d 255 mod 255 = ?d mod 255" by (rule rem_cong) simp
  then show "checksum_x len c0 c1 mod 255 = ?d mod 255" by (simp add: checksum_x_def Let_def)
  show "1 \<le> checksum_x len c0 c1" "checksum_x len c0 c1 \<le> 255"
    using rem_bounds [of 255 ?d] by (auto simp: checksum_x_def Let_def)
qed

lemma checksum_y_props:
  assumes "0 \<le> c0" "c0 < 255" "1 \<le> x" "x \<le> 255"
  shows "checksum_y c0 x mod 255 = (- c0 - x) mod 255" "1 \<le> checksum_y c0 x" "checksum_y c0 x \<le> 255"
proof -
  have "(510 - c0 - x) mod 255 = (- c0 - x) mod 255" "(510 - c0 - x - 255) mod 255 = (- c0 - x) mod 255"
    using mod_mult_self1 [of "- c0 - x" 2 "255::int"] mod_mult_self1 [of "- c0 - x" 1 "255::int"]
    by (simp_all add: algebra_simps)
  then show "checksum_y c0 x mod 255 = (- c0 - x) mod 255" by (simp add: checksum_y_def Let_def)
  show "1 \<le> checksum_y c0 x" "checksum_y c0 x \<le> 255" using assms by (auto simp: checksum_y_def Let_def)
qed

lemma uint_byte: "0 \<le> i \<Longrightarrow> i \<le> 255 \<Longrightarrow> uint (word_of_int i :: u8) = i"
  by (simp add: uint_word_of_int_eq take_bit_int_eq_self)

text \<open>The bytes written at 16 and 17 make both residues zero.\<close>

lemma lsa_insert_fletcher:
  assumes "18 \<le> length out" "out ! 16 = 0" "out ! 17 = 0"
  shows "fletcher (drop 2 (lsa_insert out)) = (0, 0)"
proof -
  define pre post where "pre = take 14 (drop 2 out)" and "post = drop 18 out"
  have "drop 2 out = take 14 (drop 2 out) @ drop 14 (drop 2 out)" by (simp only: append_take_drop_id)
  moreover have "drop 14 (drop 2 out) = 0 # 0 # post"
    using assms Cons_nth_drop_Suc [of 16 out] Cons_nth_drop_Suc [of 17 out] by (simp add: post_def)
  ultimately have out: "drop 2 out = pre @ 0 # 0 # post" by (simp add: pre_def)
  have len: "length pre = 14" "length out = length post + 18" using assms(1) by (simp_all add: pre_def post_def)
  define c0 c1 where "c0 = byte_sum (drop 2 out) mod 255" and "c1 = weighted_sum (drop 2 out) mod 255"
  define x y where "x = checksum_x (length out) c0 c1" and "y = checksum_y c0 x"
  have c0: "0 \<le> c0" "c0 < 255" by (simp_all add: c0_def)
  note x = checksum_x_props [of "length out" c0 c1, folded x_def]
  note y = checksum_y_props [OF c0 x(2,3), folded y_def]
  have "lsa_insert out = out[16 := word_of_int x, 17 := word_of_int y]"
    by (simp add: lsa_insert_def fletcher_sums Let_def x_def y_def c0_def c1_def)
  then have "drop 2 (lsa_insert out) = (drop 2 out)[14 := word_of_int x, 15 := word_of_int y]"
    by (simp add: drop_update_swap)
  then have new: "drop 2 (lsa_insert out) = pre @ word_of_int x # word_of_int y # post"
    using len(1) by (simp add: out list_update_append)
  have "byte_sum (drop 2 (lsa_insert out)) = byte_sum (drop 2 out) + x + y"
    unfolding new out using x y by (simp add: byte_sum_append uint_byte)
  then have s0: "byte_sum (drop 2 (lsa_insert out)) mod 255 = 0"
  proof -
    have "(byte_sum (drop 2 out) + x + y) mod 255 = (c0 + x + y) mod 255"
      by (simp only: c0_def mod_head)
    also have "\<dots> = (c0 + x + (- c0 - x)) mod 255" using y(1) by (metis mod_add_right_eq)
    finally show ?thesis using \<open>byte_sum (drop 2 (lsa_insert out)) = byte_sum (drop 2 out) + x + y\<close> by simp
  qed
  let ?n = "int (length out) - 17"
  have "weighted_sum (drop 2 (lsa_insert out)) = weighted_sum (drop 2 out) + (?n + 1) * x + ?n * y"
    unfolding new out using x y len by (simp add: weighted_sum_append uint_byte algebra_simps)
  also have "\<dots> mod 255 = (c1 + (?n + 1) * x + ?n * y) mod 255"
    by (simp only: c1_def mod_head)
  also have "\<dots> = (c1 + (?n + 1) * x + ?n * (- c0 - x)) mod 255"
    using y(1) by (metis mod_add_right_eq mod_mult_right_eq)
  also have "\<dots> = (c1 - ?n * c0 + x) mod 255" by (simp add: algebra_simps)
  also have "\<dots> = (c1 - ?n * c0 + (?n * c0 - c1)) mod 255"
    using x(1) by (metis mod_add_right_eq)
  finally have s1: "weighted_sum (drop 2 (lsa_insert out)) mod 255 = 0" by simp
  show ?thesis using s0 s1 by (simp add: fletcher_sums)
qed

lemma lsa_insert_shape:
  assumes "18 \<le> length out"
  shows "length (lsa_insert out) = length out" "\<exists>x y. lsa_insert out = copy_into 16 [x, y] out"
proof -
  show "length (lsa_insert out) = length out" by (simp add: lsa_insert_def Let_def split: prod.splits)
  have "out[16 := x, 17 := y] = copy_into 16 [x, y] out" for x y
  proof -
    have out: "out = take 16 out @ out ! 16 # out ! 17 # drop 18 out"
      using assms Cons_nth_drop_Suc [of 16 out] Cons_nth_drop_Suc [of 17 out]
        append_take_drop_id [of 16 out] by simp
    have "length (take 16 out) = 16" using assms by simp
    then have "(take 16 out @ out ! 16 # out ! 17 # drop 18 out)[16 := x, 17 := y] = take 16 out @ x # y # drop 18 out"
      by (simp add: list_update_append)
    then show ?thesis using out by (simp add: copy_into_def)
  qed
  then show "\<exists>x y. lsa_insert out = copy_into 16 [x, y] out"
    by (auto simp: lsa_insert_def Let_def split: prod.splits)
qed

section \<open>Properties\<close>

text \<open>
  The Fletcher checksum of an advertisement verifies: with the two octets \<open>insert\<close> writes at
  offsets 16 and 17, both residues over everything behind the age field are zero.
\<close>

theorem fletcher_verifies:
  assumes "18 \<le> length out" "out ! 16 = 0" "out ! 17 = 0"
  shows "fletcher (drop 2 (lsa_insert out)) = (0, 0)"
  using assms by (rule lsa_insert_fletcher)

theorem fletcher_verifies_witness:
  "fletcher (drop 2 (lsa_insert (replicate 16 7 @ [0, 0, 1, 2]))) = (0, 0)"
  by (rule fletcher_verifies) (simp_all add: nth_append)

end
