(* ===== verification/Ospf_Lsa.thy ===== *)
theory Ospf_Lsa
  imports Lsa_Checksum Ipv4_Packet
begin

text \<open>
  The crate \<open>rios-routing\<close>, OSPFv2 link-state advertisements (\<open>ospf_wire/lsa.rs\<close>): the 20-byte
  header, the five supported bodies and their codec. A signed sequence number is its 32-bit
  pattern; \<open>i32::MIN\<close> is \<open>0x80000000\<close>.
\<close>

datatype WireError = WireMalformed | WireUnsupported | WireChecksum | WireTooLarge

section \<open>Identities\<close>

datatype LsaType = RouterType | NetworkType | SummaryType | AsbrSummaryType | ExternalType

fun LsaType_code :: "LsaType \<Rightarrow> u8" where
  "LsaType_code RouterType = 1"
| "LsaType_code NetworkType = 2"
| "LsaType_code SummaryType = 3"
| "LsaType_code AsbrSummaryType = 4"
| "LsaType_code ExternalType = 5"

definition LsaType_try_from :: "u8 \<Rightarrow> WireError + LsaType" where
  "LsaType_try_from v =
     (if v = 1 then Inr RouterType else if v = 2 then Inr NetworkType else if v = 3 then Inr SummaryType
      else if v = 4 then Inr AsbrSummaryType else if v = 5 then Inr ExternalType else Inl WireUnsupported)"

datatype LsaKey = LsaKey (key_kind: LsaType) (key_link_state_id: ipv4) (key_advertising_router: ipv4)

lemma LsaType_code_inj: "LsaType_code a = LsaType_code b \<Longrightarrow> a = b"
  by (cases a; cases b) simp_all

text \<open>The derived order: by type, link-state id and advertising router.\<close>

instantiation LsaType :: linorder
begin

definition less_eq_LsaType :: "LsaType \<Rightarrow> LsaType \<Rightarrow> bool" where
  "less_eq_LsaType a b = (LsaType_code a \<le> LsaType_code b)"

definition less_LsaType :: "LsaType \<Rightarrow> LsaType \<Rightarrow> bool" where
  "less_LsaType a b = (LsaType_code a < LsaType_code b)"

instance
  by standard (auto simp: less_eq_LsaType_def less_LsaType_def intro: LsaType_code_inj)

end

definition key_tuple :: "LsaKey \<Rightarrow> LsaType \<times> ipv4 \<times> ipv4" where
  "key_tuple k = (key_kind k, key_link_state_id k, key_advertising_router k)"

lemma key_tuple_inj: "key_tuple a = key_tuple b \<longleftrightarrow> a = b"
  by (cases a; cases b) (simp add: key_tuple_def)

instantiation LsaKey :: linorder
begin

definition less_eq_LsaKey :: "LsaKey \<Rightarrow> LsaKey \<Rightarrow> bool" where
  "less_eq_LsaKey a b = (key_tuple a \<le> key_tuple b)"

definition less_LsaKey :: "LsaKey \<Rightarrow> LsaKey \<Rightarrow> bool" where
  "less_LsaKey a b = (key_tuple a < key_tuple b)"

instance
proof
  fix a b c :: LsaKey
  show "(a < b) = (a \<le> b \<and> \<not> b \<le> a)" by (simp add: less_eq_LsaKey_def less_LsaKey_def less_le_not_le)
  show "a \<le> a" by (simp add: less_eq_LsaKey_def)
  show "a \<le> b \<Longrightarrow> b \<le> c \<Longrightarrow> a \<le> c" using order_trans by (simp only: less_eq_LsaKey_def)
  show "a \<le> b \<Longrightarrow> b \<le> a \<Longrightarrow> a = b" by (simp add: less_eq_LsaKey_def flip: key_tuple_inj)
  show "a \<le> b \<or> b \<le> a" by (simp add: less_eq_LsaKey_def linear)
qed

end

section \<open>Data\<close>

record LsaHeader =
  lh_age :: u16
  lh_options :: u8
  lh_key :: LsaKey
  lh_sequence :: u32
  lh_checksum :: u16
  lh_length :: u16

datatype RouterLinkType = PointToPoint | Transit | Stub | Virtual

fun RouterLinkType_code :: "RouterLinkType \<Rightarrow> u8" where
  "RouterLinkType_code PointToPoint = 1"
| "RouterLinkType_code Transit = 2"
| "RouterLinkType_code Stub = 3"
| "RouterLinkType_code Virtual = 4"

record RouterLink =
  rl_id :: ipv4
  rl_data :: ipv4
  rl_kind :: RouterLinkType
  rl_metric :: u16

datatype LsaBody =
    RouterLsa u8 "RouterLink list"
  | NetworkLsa ipv4 "ipv4 list"
  | SummaryLsa ipv4 u32
  | AsbrSummaryLsa u32
  | ExternalLsa ipv4 u32 bool ipv4 u32

record Lsa =
  lsa_age :: u16
  lsa_options :: u8
  lsa_link_state_id :: ipv4
  lsa_advertising_router :: ipv4
  lsa_sequence :: u32
  lsa_body :: LsaBody

definition LSA_MAX_AGE :: u16 where
  "LSA_MAX_AGE = 3600"

definition SEQUENCE_MIN :: u32 where
  "SEQUENCE_MIN = 0x80000000"

definition LSA_INITIAL_SEQUENCE :: u32 where
  "LSA_INITIAL_SEQUENCE = SEQUENCE_MIN + 1"

definition valid_mask :: "ipv4 \<Rightarrow> bool" where
  "valid_mask netmask = (case Ipv4InterfaceConfig_from_mask 0 netmask of Inl _ \<Rightarrow> False | Inr _ \<Rightarrow> True)"

fun body_kind :: "LsaBody \<Rightarrow> LsaType" where
  "body_kind (RouterLsa _ _) = RouterType"
| "body_kind (NetworkLsa _ _) = NetworkType"
| "body_kind (SummaryLsa _ _) = SummaryType"
| "body_kind (AsbrSummaryLsa _) = AsbrSummaryType"
| "body_kind (ExternalLsa _ _ _ _ _) = ExternalType"

definition Lsa_key :: "Lsa \<Rightarrow> LsaKey" where
  "Lsa_key l = LsaKey (body_kind (lsa_body l)) (lsa_link_state_id l) (lsa_advertising_router l)"

section \<open>Headers\<close>

definition LsaHeader_encode :: "LsaHeader \<Rightarrow> bytes" where
  "LsaHeader_encode h =
     (let b0 = replicate 20 0;
          b1 = copy_into 0 (u16_be (lh_age h)) b0;
          b2 = b1[2 := lh_options h];
          b3 = b2[3 := LsaType_code (key_kind (lh_key h))];
          b4 = copy_into 4 (octets (key_link_state_id (lh_key h))) b3;
          b5 = copy_into 8 (octets (key_advertising_router (lh_key h))) b4;
          b6 = copy_into 12 (u32_be (lh_sequence h)) b5;
          b7 = copy_into 16 (u16_be (lh_checksum h)) b6
      in copy_into 18 (u16_be (lh_length h)) b7)"

definition LsaHeader_decode :: "bytes \<Rightarrow> WireError + LsaHeader" where
  "LsaHeader_decode input =
     and_then (ok_or WireMalformed (get_range 0 20 input)) (\<lambda>bs.
       and_then (LsaType_try_from (bs ! 3)) (\<lambda>kind.
         let header = \<lparr>lh_age = u16_at bs 0, lh_options = bs ! 2,
               lh_key = LsaKey kind (u32_at bs 4) (u32_at bs 8),
               lh_sequence = u32_at bs 12, lh_checksum = u16_at bs 16, lh_length = u16_at bs 18\<rparr>
         in if LSA_MAX_AGE < lh_age header \<or> lh_sequence header = SEQUENCE_MIN \<or> lh_length header < 20
            then Inl WireMalformed else Inr header))"

definition wire_header :: "LsaHeader \<Rightarrow> bool" where
  "wire_header h = (lh_age h \<le> LSA_MAX_AGE \<and> lh_sequence h \<noteq> SEQUENCE_MIN \<and> 20 \<le> lh_length h)"

lemma LsaType_code_try [simp]: "LsaType_try_from (LsaType_code t) = Inr t"
  by (cases t) (simp_all add: LsaType_try_from_def)

lemma header_bytes:
  "LsaHeader_encode h = u16_be (lh_age h) @ [lh_options h, LsaType_code (key_kind (lh_key h))] @
     octets (key_link_state_id (lh_key h)) @ octets (key_advertising_router (lh_key h)) @
     u32_be (lh_sequence h) @ u16_be (lh_checksum h) @ u16_be (lh_length h)"
  unfolding LsaHeader_encode_def Let_def by (simp add: codec_simps replicate_numeral)

lemma length_header [simp]: "length (LsaHeader_encode h) = 20"
  by (simp add: header_bytes)

lemma header_decode_encode:
  assumes "wire_header h"
  shows "LsaHeader_decode (LsaHeader_encode h @ rest) = Inr h"
proof -
  let ?bs = "LsaHeader_encode h"
  have "get_range 0 20 (?bs @ rest) = Some ?bs" by (simp add: get_range_def codec_simps)
  moreover have "u16_at ?bs 0 = lh_age h" "?bs ! 2 = lh_options h" "?bs ! 3 = LsaType_code (key_kind (lh_key h))"
    "u32_at ?bs 4 = key_link_state_id (lh_key h)" "u32_at ?bs 8 = key_advertising_router (lh_key h)"
    "u32_at ?bs 12 = lh_sequence h" "u16_at ?bs 16 = lh_checksum h" "u16_at ?bs 18 = lh_length h"
    unfolding header_bytes by (simp_all add: codec_simps)
  ultimately show ?thesis
    using assms by (simp add: LsaHeader_decode_def wire_header_def Let_def not_less)
qed

interpretation header_run: checked_fixed_codec LsaHeader_encode LsaHeader_decode 20 wire_header
  using header_decode_encode [of _ "[]"] by unfold_locales simp_all

lemma header_decode_wire: "LsaHeader_decode bs = Inr h \<Longrightarrow> wire_header h"
  by (auto simp: LsaHeader_decode_def wire_header_def Let_def and_then_Inr_iff not_less split: if_splits)

section \<open>Router links\<close>

definition RouterLink_encode :: "RouterLink \<Rightarrow> bytes" where
  "RouterLink_encode l =
     octets (rl_id l) @ octets (rl_data l) @ [RouterLinkType_code (rl_kind l), 0] @ u16_be (rl_metric l)"

definition RouterLink_decode :: "bytes \<Rightarrow> WireError + RouterLink" where
  "RouterLink_decode chunk =
     (if chunk ! 9 \<noteq> 0 then Inl WireUnsupported
      else and_then
        (if chunk ! 8 = 1 then Inr PointToPoint else if chunk ! 8 = 2 then Inr Transit
         else if chunk ! 8 = 3 then Inr Stub else if chunk ! 8 = 4 then Inr Virtual else Inl WireUnsupported)
        (\<lambda>kind. Inr \<lparr>rl_id = u32_at chunk 0, rl_data = u32_at chunk 4, rl_kind = kind,
                     rl_metric = u16_at chunk 10\<rparr>))"

lemma link_decode_encode: "RouterLink_decode (RouterLink_encode l) = Inr l"
proof -
  let ?bs = "RouterLink_encode l"
  have "?bs ! 9 = 0" "?bs ! 8 = RouterLinkType_code (rl_kind l)" "u32_at ?bs 0 = rl_id l"
    "u32_at ?bs 4 = rl_data l" "u16_at ?bs 10 = rl_metric l"
    unfolding RouterLink_encode_def by (simp_all add: codec_simps)
  then show ?thesis by (cases "rl_kind l") (simp_all add: RouterLink_decode_def)
qed

interpretation link_run: checked_fixed_codec RouterLink_encode RouterLink_decode 12 "\<lambda>_. True"
  by unfold_locales (simp_all add: link_decode_encode, simp add: RouterLink_encode_def)

section \<open>Advertisements\<close>

fun LsaBody_encode :: "LsaBody \<Rightarrow> WireError + bytes" where
  "LsaBody_encode (RouterLsa flags links) =
     (if (65535 - 24) div 12 < length links then Inl WireTooLarge
      else Inr ([flags, 0] @ u16_be (of_nat (length links)) @ concat (map RouterLink_encode links)))"
| "LsaBody_encode (NetworkLsa netmask routers) =
     (if \<not> valid_mask netmask then Inl WireMalformed
      else if (65535 - 24) div 4 < length routers then Inl WireTooLarge
      else Inr (octets netmask @ concat (map octets routers)))"
| "LsaBody_encode (AsbrSummaryLsa metric) =
     (if 0x00ffffff < metric then Inl WireMalformed else Inr ([0, 0, 0, 0] @ u32_be metric))"
| "LsaBody_encode (SummaryLsa netmask metric) =
     (if \<not> valid_mask netmask \<or> 0x00ffffff < metric then Inl WireMalformed
      else Inr (octets netmask @ u32_be (metric OR 0)))"
| "LsaBody_encode (ExternalLsa netmask metric type_two forwarding_address tag) =
     (if \<not> valid_mask netmask \<or> 0x00ffffff < metric then Inl WireMalformed
      else Inr (octets netmask @ u32_be (metric OR (if type_two then 0x80000000 else 0)) @
                octets forwarding_address @ u32_be tag))"

definition Lsa_encode :: "Lsa \<Rightarrow> WireError + bytes" where
  "Lsa_encode l =
     (if LSA_MAX_AGE < lsa_age l \<or> lsa_sequence l = SEQUENCE_MIN then Inl WireMalformed
      else and_then (LsaBody_encode (lsa_body l)) (\<lambda>body.
        if 65535 < 20 + length body then Inl WireTooLarge
        else let header = \<lparr>lh_age = lsa_age l, lh_options = lsa_options l, lh_key = Lsa_key l,
                   lh_sequence = lsa_sequence l, lh_checksum = 0, lh_length = of_nat (20 + length body)\<rparr>
             in Inr (lsa_insert (LsaHeader_encode header @ body))))"

definition Lsa_header :: "Lsa \<Rightarrow> WireError + LsaHeader" where
  "Lsa_header l = and_then (Lsa_encode l) LsaHeader_decode"

definition LsaBody_decode :: "LsaType \<Rightarrow> bytes \<Rightarrow> WireError + LsaBody" where
  "LsaBody_decode kind body =
     (case kind of
        RouterType \<Rightarrow>
          if length body < 4 then Inl WireMalformed
          else let count = unat (u16_at body 2)
          in if length body \<noteq> 4 + count * 12 then Inl WireMalformed
             else and_then (collect_results (map RouterLink_decode (as_chunks 12 (drop 4 body))))
               (\<lambda>links. Inr (RouterLsa (body ! 0) links))
      | NetworkType \<Rightarrow>
          if length body < 4 \<or> \<not> 4 dvd length body \<or> \<not> valid_mask (ip_of body) then Inl WireMalformed
          else Inr (NetworkLsa (ip_of body) (map ip_of (as_chunks 4 (drop 4 body))))
      | _ \<Rightarrow>
          if length body \<noteq> (if kind \<noteq> ExternalType then 8 else 16) \<or> \<not> valid_mask (ip_of body)
          then Inl WireMalformed
          else let metric = u32_of_be 0 (body ! 5) (body ! 6) (body ! 7)
          in if kind \<noteq> ExternalType then
               if body ! 4 \<noteq> 0 then Inl WireUnsupported
               else if kind = AsbrSummaryType then Inr (AsbrSummaryLsa metric)
               else Inr (SummaryLsa (ip_of body) metric)
             else if body ! 4 AND 0x7f \<noteq> 0 then Inl WireUnsupported
             else Inr (ExternalLsa (ip_of body) metric (body ! 4 AND 0x80 \<noteq> 0) (u32_at body 8) (u32_at body 12)))"

definition Lsa_decode :: "bytes \<Rightarrow> WireError + Lsa" where
  "Lsa_decode bs =
     and_then (LsaHeader_decode bs) (\<lambda>header.
       if length bs \<noteq> unat (lh_length header) then Inl WireMalformed
       else if fletcher (drop 2 bs) \<noteq> (0, 0) then Inl WireChecksum
       else and_then (LsaBody_decode (key_kind (lh_key header)) (drop 20 bs)) (\<lambda>parsed.
         Inr \<lparr>lsa_age = lh_age header, lsa_options = lh_options header,
              lsa_link_state_id = key_link_state_id (lh_key header),
              lsa_advertising_router = key_advertising_router (lh_key header),
              lsa_sequence = lh_sequence header, lsa_body = parsed\<rparr>))"

section \<open>Round trips\<close>

fun wire_body :: "LsaBody \<Rightarrow> bool" where
  "wire_body (RouterLsa flags links) = (length links \<le> 5459)"
| "wire_body (NetworkLsa netmask routers) = (valid_mask netmask \<and> length routers \<le> 16377)"
| "wire_body (AsbrSummaryLsa metric) = (metric \<le> 0x00ffffff)"
| "wire_body (SummaryLsa netmask metric) = (valid_mask netmask \<and> metric \<le> 0x00ffffff)"
| "wire_body (ExternalLsa netmask metric _ _ _) = (valid_mask netmask \<and> metric \<le> 0x00ffffff)"

definition wire_lsa :: "Lsa \<Rightarrow> bool" where
  "wire_lsa l = (lsa_age l \<le> LSA_MAX_AGE \<and> lsa_sequence l \<noteq> SEQUENCE_MIN \<and> wire_body (lsa_body l))"

lemma valid_mask_zero: "valid_mask 0"
proof -
  have "leading_ones 0 = 0" by (simp add: leading_ones_def upt_rec)
  then show ?thesis
    by (simp add: valid_mask_def Ipv4InterfaceConfig_from_mask_def Ipv4InterfaceConfig_new_def
        Ipv4InterfaceConfig_mask_def prefix_mask_def)
qed

lemma metric24:
  assumes "metric \<le> (0x00ffffff::u32)"
  obtains b c d where "metric = u32_of_be 0 b c d" "u32_be metric = [0, b, c, d]"
proof -
  let ?a = "ucast (drop_bit 8 (ucast (drop_bit 16 metric) :: u16)) :: u8"
  have "drop_bit 24 metric = 0"
  proof -
    have "unat (drop_bit 24 metric) = drop_bit 24 (unat metric)" by (rule unat_drop_bit_eq)
    also have "\<dots> = unat metric div 2 ^ 24" by (simp add: drop_bit_eq_div)
    also have "\<dots> = 0" using assms by (simp add: word_le_nat_alt)
    finally show ?thesis by (simp only: unat_eq_zero)
  qed
  moreover have "?a = ucast (drop_bit 24 metric)" by (rule bit_word_eqI) (auto simp: bit_simps)
  ultimately have a: "?a = 0" by simp
  then have be: "u32_be metric = [0, ucast (ucast (drop_bit 16 metric) :: u16), ucast (drop_bit 8 (ucast metric :: u16)), ucast (ucast metric :: u16)]"
    by (simp add: u32_be_def u16_be_def)
  have "u32_at (u32_be metric) 0 = metric" by simp
  then have "metric = u32_of_be 0 (ucast (ucast (drop_bit 16 metric) :: u16)) (ucast (drop_bit 8 (ucast metric :: u16))) (ucast (ucast metric :: u16))"
    unfolding be u32_at_def by simp
  with be show thesis using that by blast
qed

lemma type_two_bit: "u32_of_be 0 b c d OR 0x80000000 = u32_of_be 0x80 b c d"
proof -
  have top: "bit (0x80000000::u32) n \<longleftrightarrow> n = 31" "bit (0x80::u8) k \<longleftrightarrow> k = 7" for n k
  proof -
    have "bit (push_bit 31 1 :: u32) n \<longleftrightarrow> n = 31" "bit (push_bit 7 1 :: u8) k \<longleftrightarrow> k = 7"
      by (auto simp: bit_simps simp del: push_bit_of_1 push_bit_numeral)
    then show "bit (0x80000000::u32) n \<longleftrightarrow> n = 31" "bit (0x80::u8) k \<longleftrightarrow> k = 7" by simp_all
  qed
  show ?thesis
    by (rule bit_word_eqI) (auto simp only: u32_of_be_def bit_u32_join bit_u16_of_be bit_or_iff top(1) top(2) bit_0_eq bot_apply bot_bool_def split: if_splits)
qed

lemma wire_body_encode:
  assumes "wire_body b"
  obtains bs where "LsaBody_encode b = Inr bs" "LsaBody_decode (body_kind b) bs = Inr b" "length bs \<le> 65512"
proof (cases b)
  case (RouterLsa flags links)
  let ?bs = "[flags, 0] @ u16_be (of_nat (length links)) @ concat (map RouterLink_encode links)"
  have n: "length links \<le> 5459" using assms RouterLsa by simp
  have len: "length ?bs = 4 + length links * 12" using link_run.length_run [of links] by simp
  have count: "unat (of_nat (length links) :: u16) = length links" using n by (simp add: unat_of_nat)
  have "u16_at ?bs 2 = of_nat (length links)" "?bs ! 0 = flags" "drop 4 ?bs = concat (map RouterLink_encode links)"
    by (simp_all add: codec_simps)
  then have "LsaBody_decode RouterType ?bs = Inr (RouterLsa flags links)"
    using len count link_run.decode_run [of links] by (simp add: LsaBody_decode_def Let_def)
  then show thesis using that [of ?bs] n len RouterLsa by simp
next
  case (NetworkLsa netmask routers)
  let ?bs = "octets netmask @ concat (map octets routers)"
  have n: "valid_mask netmask" "length routers \<le> 16377" using assms NetworkLsa by simp_all
  have len: "length ?bs = 4 + 4 * length routers" using ip_run.length_run [of routers] by simp
  then have "LsaBody_decode NetworkType ?bs = Inr (NetworkLsa netmask routers)"
    using n(1) ip_run.decode_run [of routers] by (simp add: LsaBody_decode_def)
  then show thesis using that [of ?bs] n len NetworkLsa by simp
next
  case (SummaryLsa netmask metric)
  then obtain x y z where m: "metric = u32_of_be 0 x y z" "u32_be metric = [0, x, y, z]"
    using assms metric24 [of metric] by auto
  let ?bs = "octets netmask @ u32_be metric"
  have "LsaBody_decode SummaryType ?bs = Inr b"
    using assms SummaryLsa by (simp add: LsaBody_decode_def m codec_simps)
  then show thesis using that [of ?bs] assms SummaryLsa by (simp add: not_less flip: not_le)
next
  case (AsbrSummaryLsa metric)
  then obtain x y z where m: "metric = u32_of_be 0 x y z" "u32_be metric = [0, x, y, z]"
    using assms metric24 [of metric] by auto
  let ?bs = "[0, 0, 0, 0] @ u32_be metric"
  have "ip_of ?bs = 0" by (simp add: ip_of_def u32_at_def u32_of_be_def u32_join_def u16_of_be_def)
  then have "LsaBody_decode AsbrSummaryType ?bs = Inr b"
    using AsbrSummaryLsa valid_mask_zero by (simp add: LsaBody_decode_def m)
  then show thesis using that [of ?bs] assms AsbrSummaryLsa by simp
next
  case (ExternalLsa netmask metric type_two forwarding tag)
  then obtain x y z where m: "metric = u32_of_be 0 x y z" using assms metric24 [of metric] by auto
  let ?m = "metric OR (if type_two then 0x80000000 else 0)"
  have be: "u32_be ?m = [if type_two then 0x80 else 0, x, y, z]" by (simp add: m type_two_bit)
  let ?bs = "octets netmask @ u32_be ?m @ octets forwarding @ u32_be tag"
  have "?bs ! 4 = (if type_two then 0x80 else 0)" "?bs ! 5 = x" "?bs ! 6 = y" "?bs ! 7 = z"
    "u32_at ?bs 8 = forwarding" "u32_at ?bs 12 = tag" "ip_of ?bs = netmask"
    unfolding be by (simp_all add: codec_simps)
  then have "LsaBody_decode ExternalType ?bs = Inr b"
    using assms ExternalLsa by (simp add: LsaBody_decode_def m Let_def)
  then show thesis using that [of ?bs] assms ExternalLsa by (simp add: not_less flip: not_le)
qed

text \<open>The header and body survive; the checksum field is the only one the encoder computes.\<close>

lemma lsa_decode_encode:
  assumes "wire_lsa l"
  obtains bs where "Lsa_encode l = Inr bs" "Lsa_decode bs = Inr l" "20 \<le> length bs" "length bs \<le> 65532"
    "\<exists>h. \<forall>rest. LsaHeader_decode (bs @ rest) = Inr h \<and> unat (lh_length h) = length bs \<and> lh_key h = Lsa_key l"
proof -
  have wire: "lsa_age l \<le> LSA_MAX_AGE" "lsa_sequence l \<noteq> SEQUENCE_MIN" "wire_body (lsa_body l)"
    using assms by (simp_all add: wire_lsa_def)
  obtain body where body: "LsaBody_encode (lsa_body l) = Inr body"
    "LsaBody_decode (body_kind (lsa_body l)) body = Inr (lsa_body l)" "length body \<le> 65512"
    using wire_body_encode [OF wire(3)] by blast
  define h where "h c = \<lparr>lh_age = lsa_age l, lh_options = lsa_options l, lh_key = Lsa_key l,
    lh_sequence = lsa_sequence l, lh_checksum = c, lh_length = of_nat (20 + length body)\<rparr>" for c
  let ?out = "LsaHeader_encode (h 0) @ body"
  have enc: "Lsa_encode l = Inr (lsa_insert ?out)"
    using wire body by (simp add: Lsa_encode_def h_def Let_def not_less)
  have "slice 16 18 (LsaHeader_encode (h 0)) = [0, 0]" by (simp add: header_bytes h_def codec_simps)
  then have zero: "?out ! 16 = 0" "?out ! 17 = 0"
    by (simp_all add: codec_simps slice_conv_nth upt_rec)
  obtain x y where ins: "lsa_insert ?out = copy_into 16 [x, y] ?out"
    using lsa_insert_shape(2) [of ?out] by auto
  have bs: "lsa_insert ?out = LsaHeader_encode (h (u16_of_be x y)) @ body"
    unfolding ins by (simp add: copy_into_append_left)
      (simp add: header_bytes h_def codec_simps copy_into_def)
  have len: "unat (of_nat (20 + length body) :: u16) = 20 + length body"
    using body(3) by (simp only: unat_of_nat) simp
  have "wire_header (h c)" for c
    using wire len by (simp add: wire_header_def h_def word_le_nat_alt del: of_nat_add)
  then have dec: "LsaHeader_decode (lsa_insert ?out @ rest) = Inr (h (u16_of_be x y))" for rest
    unfolding bs append_assoc by (rule header_decode_encode)
  have total: "length (lsa_insert ?out) = 20 + length body" by (simp add: bs)
  have "fletcher (drop 2 (lsa_insert ?out)) = (0, 0)" using zero by (intro lsa_insert_fletcher) simp_all
  moreover have "drop 20 (lsa_insert ?out) = body" by (simp add: bs)
  moreover have "LsaHeader_decode (lsa_insert ?out) = Inr (h (u16_of_be x y))" using dec [of "[]"] by simp
  ultimately have "Lsa_decode (lsa_insert ?out) = Inr l"
    using body(2) len total by (simp add: Lsa_decode_def h_def Lsa_key_def del: of_nat_add)
  then show thesis
    using that [OF enc] dec total len body(3) by (auto simp: h_def simp del: of_nat_add)
qed

interpretation lsa: wire_codec Lsa_encode Lsa_decode wire_lsa
proof unfold_locales
  show "\<exists>bs. Lsa_encode l = Inr bs" if "wire_lsa l" for l using lsa_decode_encode [OF that] by blast
  show "Lsa_decode bs = Inr l" if "wire_lsa l" "Lsa_encode l = Inr bs" for l bs
    using lsa_decode_encode [OF that(1)] that(2) by auto
qed

section \<open>Properties\<close>

text \<open>
  C32. Link-state advertisements survive the wire: an advertisement with a legal age, sequence
  number and masks is encoded with the Fletcher checksum over everything but its age, decoded
  back unchanged, and its header read on its own carries the same key and the full length.
\<close>

theorem lsa_round_trip:
  assumes "wire_lsa l"
  shows "\<exists>bs. Lsa_encode l = Inr bs \<and> Lsa_decode bs = Inr l \<and>
    (\<exists>h. LsaHeader_decode bs = Inr h \<and> unat (lh_length h) = length bs \<and> lh_key h = Lsa_key l)"
proof -
  obtain bs where bs: "Lsa_encode l = Inr bs" "Lsa_decode bs = Inr l"
    "\<exists>h. \<forall>rest. LsaHeader_decode (bs @ rest) = Inr h \<and> unat (lh_length h) = length bs \<and> lh_key h = Lsa_key l"
    by (rule lsa_decode_encode [OF assms])
  then show ?thesis by (metis append_Nil2)
qed

definition sample_lsa :: Lsa where
  "sample_lsa = \<lparr>lsa_age = 1, lsa_options = 2, lsa_link_state_id = 5, lsa_advertising_router = 5,
     lsa_sequence = 0x80000001,
     lsa_body = RouterLsa 0 [\<lparr>rl_id = 6, rl_data = 7, rl_kind = PointToPoint, rl_metric = 10\<rparr>]\<rparr>"

lemma sample_lsa_wire: "wire_lsa sample_lsa"
  by (simp add: wire_lsa_def sample_lsa_def LSA_MAX_AGE_def SEQUENCE_MIN_def)

theorem lsa_round_trip_witness:
  "\<exists>bs. Lsa_encode sample_lsa = Inr bs \<and> Lsa_decode bs = Inr sample_lsa \<and>
    (\<exists>h. LsaHeader_decode bs = Inr h \<and> unat (lh_length h) = length bs \<and> lh_key h = Lsa_key sample_lsa)"
  by (rule lsa_round_trip [OF sample_lsa_wire])

end
