(* ===== verification/Ospf_Packet.thy ===== *)
theory Ospf_Packet
  imports Ospf_Lsa
begin

text \<open>
  The crate \<open>rios-routing\<close>, OSPFv2 packets (\<open>ospf_wire/mod.rs\<close>): the 24-byte header with null
  authentication and the five packet bodies. The body type is generic in the advertisement, as
  in the source, where OSPFv3 reuses it.
\<close>

section \<open>Data\<close>

record OspfHello =
  oh_mask :: ipv4
  oh_hello_interval :: u16
  oh_options :: u8
  oh_priority :: u8
  oh_dead_interval :: u32
  oh_designated_router :: ipv4
  oh_backup_router :: ipv4
  oh_neighbors :: "ipv4 list"

datatype ('hello, 'header, 'key, 'lsa) OspfBody =
    Hello 'hello
  | DatabaseDescription u16 u32 u8 u32 "'header list"
  | LinkStateRequest "'key list"
  | LinkStateUpdate "'lsa list"
  | LinkStateAck "'header list"

type_synonym OspfV2Body = "(OspfHello, LsaHeader, LsaKey, Lsa) OspfBody"

record OspfV2Packet =
  op_router_id :: ipv4
  op_area :: u32
  op_body :: OspfV2Body

section \<open>Encoding\<close>

definition LsaKey_encode :: "LsaKey \<Rightarrow> bytes" where
  "LsaKey_encode k =
     u32_be (ucast (LsaType_code (key_kind k))) @ octets (key_link_state_id k) @ octets (key_advertising_router k)"

fun encode_lsas :: "Lsa list \<Rightarrow> bytes \<Rightarrow> WireError + bytes" where
  "encode_lsas [] body = Inr body"
| "encode_lsas (l # ls) body =
     and_then (Lsa_encode l) (\<lambda>bs.
       if 65535 - 24 < length body + length bs then Inl WireTooLarge else encode_lsas ls (body @ bs))"

fun OspfBody_encode :: "OspfV2Body \<Rightarrow> WireError + u8 \<times> bytes" where
  "OspfBody_encode (Hello h) =
     (if (65535 - 44) div 4 < length (oh_neighbors h) then Inl WireTooLarge
      else Inr (1, octets (oh_mask h) @ u16_be (oh_hello_interval h) @ [oh_options h, oh_priority h] @
        u32_be (oh_dead_interval h) @ octets (oh_designated_router h) @ octets (oh_backup_router h) @
        concat (map octets (oh_neighbors h))))"
| "OspfBody_encode (DatabaseDescription mtu options flags sequence headers) =
     (if (65535 - 32) div 20 < length headers \<or> flags AND NOT 7 \<noteq> 0 then Inl WireTooLarge
      else if 255 < options then Inl WireUnsupported
      else Inr (2, u16_be mtu @ [ucast options, flags] @ u32_be sequence @ concat (map LsaHeader_encode headers)))"
| "OspfBody_encode (LinkStateRequest keys) =
     (if (65535 - 24) div 12 < length keys then Inl WireTooLarge
      else Inr (3, concat (map LsaKey_encode keys)))"
| "OspfBody_encode (LinkStateUpdate lsas) =
     (if (65535 - 28) div 20 < length lsas then Inl WireTooLarge
      else and_then (encode_lsas lsas (u32_be (of_nat (length lsas)))) (\<lambda>body. Inr (4, body)))"
| "OspfBody_encode (LinkStateAck headers) =
     (if (65535 - 24) div 20 < length headers then Inl WireTooLarge
      else Inr (5, concat (map LsaHeader_encode headers)))"

definition OspfV2Packet_encode :: "OspfV2Packet \<Rightarrow> WireError + bytes" where
  "OspfV2Packet_encode p =
     and_then (OspfBody_encode (op_body p)) (\<lambda>(kind, body).
       if 65535 < 24 + length body then Inl WireTooLarge
       else let b0 = replicate 24 0;
                b1 = b0[0 := 2, 1 := kind];
                b2 = copy_into 2 (u16_be (of_nat (24 + length body))) b1;
                b3 = copy_into 4 (octets (op_router_id p)) b2;
                b4 = copy_into 8 (u32_be (op_area p)) b3;
                out = b4 @ body
            in Inr (copy_into 12 (u16_be (checksum out)) out))"

section \<open>Decoding\<close>

definition decode_headers :: "bytes \<Rightarrow> WireError + LsaHeader list" where
  "decode_headers data =
     (if \<not> 20 dvd length data then Inl WireMalformed
      else collect_results (map LsaHeader_decode (as_chunks 20 data)))"

definition LsaKey_decode :: "bytes \<Rightarrow> WireError + LsaKey" where
  "LsaKey_decode chunk =
     (if slice 0 3 chunk \<noteq> [0, 0, 0] then Inl WireUnsupported
      else and_then (LsaType_try_from (chunk ! 3)) (\<lambda>kind.
        Inr (LsaKey kind (u32_at chunk 4) (u32_at chunk 8))))"

fun decode_lsas :: "nat \<Rightarrow> bytes \<Rightarrow> nat \<Rightarrow> Lsa list \<Rightarrow> WireError + Lsa list \<times> nat" where
  "decode_lsas 0 body offset lsas = Inr (lsas, offset)"
| "decode_lsas (Suc n) body offset lsas =
     and_then (LsaHeader_decode (drop offset body)) (\<lambda>header.
       let end = offset + unat (lh_length header)
       in and_then (ok_or WireMalformed (get_range offset end body)) (\<lambda>bs.
            and_then (Lsa_decode bs) (\<lambda>l. decode_lsas n body end (lsas @ [l]))))"

definition OspfBody_decode :: "u8 \<Rightarrow> bytes \<Rightarrow> WireError + OspfV2Body" where
  "OspfBody_decode kind body =
     (if kind = 1 then
        if length body < 20 \<or> \<not> 4 dvd (length body - 20) then Inl WireMalformed
        else Inr (Hello \<lparr>oh_mask = u32_at body 0, oh_hello_interval = u16_at body 4, oh_options = body ! 6,
               oh_priority = body ! 7, oh_dead_interval = u32_at body 8, oh_designated_router = u32_at body 12,
               oh_backup_router = u32_at body 16, oh_neighbors = map ip_of (as_chunks 4 (drop 20 body))\<rparr>)
      else if kind = 2 then
        if length body < 8 \<or> body ! 3 AND NOT 7 \<noteq> 0 then Inl WireMalformed
        else and_then (decode_headers (drop 8 body)) (\<lambda>headers.
          Inr (DatabaseDescription (u16_at body 0) (ucast (body ! 2)) (body ! 3) (u32_at body 4) headers))
      else if kind = 3 then
        if \<not> 12 dvd length body then Inl WireMalformed
        else and_then (collect_results (map LsaKey_decode (as_chunks 12 body))) (\<lambda>keys. Inr (LinkStateRequest keys))
      else if kind = 4 then
        if length body < 4 then Inl WireMalformed
        else let count = unat (u32_at body 0)
        in if (length body - 4) div 20 < count then Inl WireMalformed
           else and_then (decode_lsas count body 4 []) (\<lambda>(lsas, offset).
             if offset \<noteq> length body then Inl WireMalformed else Inr (LinkStateUpdate lsas))
      else if kind = 5 then and_then (decode_headers body) (\<lambda>headers. Inr (LinkStateAck headers))
      else Inl WireUnsupported)"

definition OspfV2Packet_decode :: "bytes \<Rightarrow> WireError + OspfV2Packet" where
  "OspfV2Packet_decode bs =
     (if length bs < 24 \<or> bs ! 0 \<noteq> 2 \<or> unat (u16_at bs 2) \<noteq> length bs then Inl WireMalformed
      else if slice 14 24 bs \<noteq> replicate 10 0 then Inl WireUnsupported
      else if checksum bs \<noteq> 0 then Inl WireChecksum
      else and_then (OspfBody_decode (bs ! 1) (drop 24 bs)) (\<lambda>parsed.
        Inr \<lparr>op_router_id = u32_at bs 4, op_area = u32_at bs 8, op_body = parsed\<rparr>))"

section \<open>Round trips of the bodies\<close>

definition lsa_len :: "Lsa \<Rightarrow> nat" where
  "lsa_len l = (case Lsa_encode l of Inl _ \<Rightarrow> 0 | Inr bs \<Rightarrow> length bs)"

fun wire_ospf_body :: "OspfV2Body \<Rightarrow> bool" where
  "wire_ospf_body (Hello h) = (length (oh_neighbors h) \<le> 16372)"
| "wire_ospf_body (DatabaseDescription mtu options flags sequence headers) =
     (length headers \<le> 3275 \<and> list_all wire_header headers \<and> flags AND NOT 7 = 0 \<and> options \<le> 255)"
| "wire_ospf_body (LinkStateRequest keys) = (length keys \<le> 5459)"
| "wire_ospf_body (LinkStateUpdate lsas) =
     (length lsas \<le> 3275 \<and> list_all wire_lsa lsas \<and> 4 + sum_list (map lsa_len lsas) \<le> 65511)"
| "wire_ospf_body (LinkStateAck headers) = (length headers \<le> 3275 \<and> list_all wire_header headers)"

lemma key_decode_encode: "LsaKey_decode (LsaKey_encode k) = Inr k"
proof -
  have kind: "u32_be (ucast (LsaType_code t)) = [0, 0, 0, LsaType_code t]" for t
    by (cases t) (simp_all add: u32_be_def u16_be_def)
  let ?bs = "LsaKey_encode k"
  have "slice 0 3 ?bs = [0, 0, 0]" "?bs ! 3 = LsaType_code (key_kind k)" "u32_at ?bs 4 = key_link_state_id k"
    "u32_at ?bs 8 = key_advertising_router k"
    unfolding LsaKey_encode_def kind by (simp_all add: codec_simps)
  then show ?thesis by (cases k) (simp add: LsaKey_decode_def)
qed

interpretation key_run: checked_fixed_codec LsaKey_encode LsaKey_decode 12 "\<lambda>_. True"
  by unfold_locales (simp_all add: key_decode_encode, simp add: LsaKey_encode_def)

lemma headers_run:
  "list_all wire_header hs \<Longrightarrow> decode_headers (concat (map LsaHeader_encode hs)) = Inr hs"
  using header_run.decode_run [of hs] header_run.length_run [of hs]
  by (simp add: decode_headers_def list_all_iff)

definition lsa_bytes :: "Lsa \<Rightarrow> bytes" where
  "lsa_bytes l = (case Lsa_encode l of Inl _ \<Rightarrow> [] | Inr bs \<Rightarrow> bs)"

lemma lsa_bytes_len: "length (lsa_bytes l) = lsa_len l"
  by (simp add: lsa_bytes_def lsa_len_def split: sum.splits)

lemma encode_lsas_bytes:
  assumes "list_all wire_lsa ls" "length body + sum_list (map lsa_len ls) \<le> 65511"
  shows "encode_lsas ls body = Inr (body @ concat (map lsa_bytes ls))"
  using assms
proof (induction ls arbitrary: body)
  case (Cons l ls)
  obtain bs where "Lsa_encode l = Inr bs" using lsa_decode_encode [of l] Cons.prems(1) by auto
  then have bs: "Lsa_encode l = Inr (lsa_bytes l)" by (simp add: lsa_bytes_def)
  show ?case using Cons bs by (simp add: lsa_bytes_len)
qed simp

lemma decode_lsas_step:
  assumes "wire_lsa l" "drop offset body = lsa_bytes l @ rest"
  shows "decode_lsas (Suc n) body offset acc = decode_lsas n body (offset + lsa_len l) (acc @ [l])"
proof -
  obtain bs where bs: "Lsa_encode l = Inr bs" "Lsa_decode bs = Inr l" "20 \<le> length bs"
    "\<exists>h. \<forall>rest. LsaHeader_decode (bs @ rest) = Inr h \<and> unat (lh_length h) = length bs \<and> lh_key h = Lsa_key l"
    by (rule lsa_decode_encode [OF assms(1)])
  then obtain h where h: "LsaHeader_decode (bs @ rest) = Inr h" "unat (lh_length h) = length bs" by blast
  have eq: "lsa_bytes l = bs" "lsa_len l = length bs" by (simp_all add: lsa_bytes_def lsa_len_def bs(1))
  have d: "drop offset body = bs @ rest" using assms(2) by (simp add: eq)
  then have "get_range offset (offset + length bs) body = Some bs"
    using drop_appendD(2,3) [OF d] bs(3) by (cases bs) (simp_all add: get_range_def)
  then show ?thesis by (simp add: d h bs(2) Let_def eq)
qed

lemma decode_lsas_run:
  assumes "list_all wire_lsa ls" "drop offset body = concat (map lsa_bytes ls)"
  shows "decode_lsas (length ls) body offset acc = Inr (acc @ ls, offset + sum_list (map lsa_len ls))"
  using assms
proof (induction ls arbitrary: offset acc)
  case (Cons l ls)
  have d: "drop offset body = lsa_bytes l @ concat (map lsa_bytes ls)" using Cons.prems(2) by simp
  have "drop (offset + lsa_len l) body = concat (map lsa_bytes ls)"
    using drop_appendD(1) [OF d] by (simp add: lsa_bytes_len)
  then show ?case
    using Cons.IH [of "offset + lsa_len l" "acc @ [l]"] Cons.prems decode_lsas_step [OF _ d]
    by (simp add: add.assoc)
qed simp

lemma lsa_len_ge: "list_all wire_lsa ls \<Longrightarrow> 20 * length ls \<le> sum_list (map lsa_len ls)"
proof (induction ls)
  case (Cons l ls)
  obtain bs where "Lsa_encode l = Inr bs" "20 \<le> length bs"
    using lsa_decode_encode [of l] Cons.prems by auto
  then have "20 \<le> lsa_len l" by (simp add: lsa_len_def)
  then show ?case using Cons by simp
qed simp

lemma ospf_body_round_trip:
  assumes "wire_ospf_body b"
  obtains kind body where "OspfBody_encode b = Inr (kind, body)" "OspfBody_decode kind body = Inr b"
    "length body \<le> 65511"
proof (cases b)
  case (Hello h)
  let ?n = "concat (map octets (oh_neighbors h))"
  let ?bs = "octets (oh_mask h) @ u16_be (oh_hello_interval h) @ [oh_options h, oh_priority h] @
        u32_be (oh_dead_interval h) @ octets (oh_designated_router h) @ octets (oh_backup_router h) @ ?n"
  have n: "length (oh_neighbors h) \<le> 16372" using assms Hello by simp
  have len: "length ?bs = 20 + 4 * length (oh_neighbors h)" using ip_run.length_run [of "oh_neighbors h"] by simp
  have "u32_at ?bs 0 = oh_mask h" "u16_at ?bs 4 = oh_hello_interval h" "?bs ! 6 = oh_options h"
    "?bs ! 7 = oh_priority h" "u32_at ?bs 8 = oh_dead_interval h" "u32_at ?bs 12 = oh_designated_router h"
    "u32_at ?bs 16 = oh_backup_router h" "drop 20 ?bs = ?n"
    by (simp_all add: codec_simps)
  then have "OspfBody_decode 1 ?bs = Inr b"
    using len ip_run.decode_run [of "oh_neighbors h"] Hello by (simp add: OspfBody_decode_def)
  then show thesis using that [of 1 ?bs] n len Hello by simp
next
  case (DatabaseDescription mtu options flags sequence headers)
  let ?h = "concat (map LsaHeader_encode headers)"
  let ?bs = "u16_be mtu @ [ucast options, flags] @ u32_be sequence @ ?h"
  have wire: "length headers \<le> 3275" "list_all wire_header headers" "flags AND NOT 7 = 0" "options \<le> 255"
    using assms DatabaseDescription by simp_all
  have opt: "ucast (ucast options :: u8) = options"
  proof -
    have "unat (take_bit 8 options) = take_bit 8 (unat options)" by (rule unsigned_take_bit_eq)
    also have "\<dots> = unat options" using wire(4) by (simp add: word_le_nat_alt take_bit_nat_eq_self)
    finally show ?thesis by (simp add: word_unat_eq_iff unsigned_ucast_eq)
  qed
  have len: "length ?bs = 8 + 20 * length headers" using header_run.length_run [of headers] by simp
  have "u16_at ?bs 0 = mtu" "?bs ! 2 = ucast options" "?bs ! 3 = flags" "u32_at ?bs 4 = sequence" "drop 8 ?bs = ?h"
    by (simp_all add: codec_simps)
  then have "OspfBody_decode 2 ?bs = Inr b"
    using wire opt len DatabaseDescription by (simp add: OspfBody_decode_def headers_run)
  then show thesis using that [of 2 ?bs] wire len DatabaseDescription by (simp add: not_less)
next
  case (LinkStateRequest keys)
  let ?bs = "concat (map LsaKey_encode keys)"
  have len: "length ?bs = 12 * length keys" by (rule key_run.length_run)
  then have "OspfBody_decode 3 ?bs = Inr b"
    using key_run.decode_run [of keys] LinkStateRequest by (simp add: OspfBody_decode_def)
  then show thesis using that [of 3 ?bs] assms len LinkStateRequest by simp
next
  case (LinkStateUpdate lsas)
  let ?bs = "u32_be (of_nat (length lsas)) @ concat (map lsa_bytes lsas)"
  have wire: "length lsas \<le> 3275" "list_all wire_lsa lsas" "4 + sum_list (map lsa_len lsas) \<le> 65511"
    using assms LinkStateUpdate by simp_all
  have enc: "encode_lsas lsas (u32_be (of_nat (length lsas))) = Inr ?bs"
    using wire by (intro encode_lsas_bytes) simp_all
  have len: "length ?bs = 4 + sum_list (map lsa_len lsas)"
    by (simp add: length_concat comp_def lsa_bytes_len)
  have "unat (u32_at ?bs 0) = length lsas" using wire(1) by (simp add: unat_of_nat)
  moreover have "decode_lsas (length lsas) ?bs 4 [] = Inr ([] @ lsas, 4 + sum_list (map lsa_len lsas))"
    using wire(2) by (intro decode_lsas_run) simp_all
  moreover have "length lsas \<le> (length ?bs - 4) div 20" using lsa_len_ge [OF wire(2)] len by simp
  ultimately have "OspfBody_decode 4 ?bs = Inr b"
    using len LinkStateUpdate by (simp add: OspfBody_decode_def Let_def)
  then show thesis using that [of 4 ?bs] wire len enc LinkStateUpdate by simp
next
  case (LinkStateAck headers)
  let ?bs = "concat (map LsaHeader_encode headers)"
  have len: "length ?bs = 20 * length headers" by (rule header_run.length_run)
  then have "OspfBody_decode 5 ?bs = Inr b"
    using assms LinkStateAck by (simp add: OspfBody_decode_def headers_run)
  then show thesis using that [of 5 ?bs] assms len LinkStateAck by simp
qed

section \<open>Round trip of the packet\<close>

definition ospf_bytes :: "OspfV2Packet \<Rightarrow> u8 \<Rightarrow> u16 \<Rightarrow> bytes \<Rightarrow> bytes" where
  "ospf_bytes p kind c body =
     [2, kind] @ u16_be (of_nat (24 + length body)) @ octets (op_router_id p) @ u32_be (op_area p) @
     u16_be c @ replicate 10 0 @ body"

definition wire_ospf :: "OspfV2Packet \<Rightarrow> bool" where
  "wire_ospf p = wire_ospf_body (op_body p)"

lemma length_ospf_bytes [simp]: "length (ospf_bytes p kind c body) = 24 + length body"
  by (simp add: ospf_bytes_def)

lemma ospf_bytes_insert: "copy_into 12 (u16_be c) (ospf_bytes p kind 0 body) = ospf_bytes p kind c body"
  by (simp add: ospf_bytes_def codec_simps copy_into_def)

lemma ospf_header_buffer:
  "copy_into 8 (u32_be (op_area p)) (copy_into 4 (octets (op_router_id p))
     (copy_into 2 (u16_be (of_nat (24 + length body))) ((replicate 24 0)[0 := 2, 1 := kind]))) @ body
   = ospf_bytes p kind 0 body"
proof -
  have split: "replicate 24 (0::u8) = replicate 12 0 @ replicate 12 0" by (simp flip: replicate_add)
  show ?thesis unfolding split by (simp add: codec_simps ospf_bytes_def replicate_numeral)
qed

lemma ospf_bytes_fields:
  "ospf_bytes p kind c body ! 0 = 2" "ospf_bytes p kind c body ! 1 = kind"
  "u16_at (ospf_bytes p kind c body) 2 = of_nat (24 + length body)"
  "u32_at (ospf_bytes p kind c body) 4 = op_router_id p" "u32_at (ospf_bytes p kind c body) 8 = op_area p"
  "slice 12 14 (ospf_bytes p kind c body) = u16_be c" "slice 14 24 (ospf_bytes p kind c body) = replicate 10 0"
  "drop 24 (ospf_bytes p kind c body) = body"
  by (simp_all add: ospf_bytes_def codec_simps)

lemma ospf_round_trip:
  assumes "wire_ospf p"
  obtains bs where "OspfV2Packet_encode p = Inr bs" "OspfV2Packet_decode bs = Inr p"
proof -
  obtain kind body where b: "OspfBody_encode (op_body p) = Inr (kind, body)"
    "OspfBody_decode kind body = Inr (op_body p)" "length body \<le> 65511"
    using ospf_body_round_trip assms by (metis wire_ospf_def)
  let ?out = "ospf_bytes p kind 0 body"
  let ?bs = "ospf_bytes p kind (checksum ?out) body"
  have enc: "OspfV2Packet_encode p = Inr ?bs"
    using b(3) unfolding OspfV2Packet_encode_def b(1) and_then_simps prod.case Let_def ospf_header_buffer
    by (simp add: ospf_bytes_insert)
  have "checksum (copy_into 12 (u16_be (checksum ?out)) ?out) = 0"
    using b(3) by (intro checksum_insert) (simp_all add: ospf_bytes_fields)
  then have sum: "checksum ?bs = 0" by (simp add: ospf_bytes_insert)
  have "unat (of_nat (24 + length body) :: u16) = 24 + length body"
    using b(3) by (simp only: unat_of_nat) simp
  then have "OspfV2Packet_decode ?bs = Inr p"
    using sum b(2) ospf_bytes_fields [of p kind "checksum ?out" body]
    by (simp add: OspfV2Packet_decode_def del: of_nat_add)
  with enc show thesis by (rule that)
qed

interpretation ospf: wire_codec OspfV2Packet_encode OspfV2Packet_decode wire_ospf
proof unfold_locales
  show "\<exists>bs. OspfV2Packet_encode p = Inr bs" if "wire_ospf p" for p using ospf_round_trip [OF that] by blast
  show "OspfV2Packet_decode bs = Inr p" if "wire_ospf p" "OspfV2Packet_encode p = Inr bs" for p bs
    using ospf_round_trip [OF that(1)] that(2) by (metis sum.inject(2))
qed

section \<open>Properties\<close>

text \<open>
  C31. OSPFv2 packets survive the wire: hellos, database descriptions, requests, updates with whole
  advertisements and acknowledgments are encoded with the packet checksum and decoded back unchanged.
\<close>

theorem ospf_packet_round_trip:
  assumes "wire_ospf p"
  shows "\<exists>bs. OspfV2Packet_encode p = Inr bs \<and> OspfV2Packet_decode bs = Inr p"
  using assms by (rule ospf.round_trip)

theorem ospf_packet_round_trip_witness:
  "\<exists>bs. OspfV2Packet_encode \<lparr>op_router_id = 1, op_area = 0, op_body = LinkStateRequest [Lsa_key sample_lsa]\<rparr> = Inr bs \<and>
     OspfV2Packet_decode bs = Inr \<lparr>op_router_id = 1, op_area = 0, op_body = LinkStateRequest [Lsa_key sample_lsa]\<rparr>"
  by (rule ospf_packet_round_trip) (simp add: wire_ospf_def)

end
