(* ===== verification/BTree.thy ===== *)
theory BTree
  imports Prelude
begin

text \<open>
  The standard library's \<open>BTreeMap\<close>: an association list with strictly increasing keys, iterated
  in key order. \<open>ordered_map\<close> is the interface the components rely on.
\<close>

section \<open>The interface\<close>

locale ordered_map =
  fixes get :: "'m \<Rightarrow> 'k::linorder \<Rightarrow> 'v option" and insert_kv :: "'k \<Rightarrow> 'v \<Rightarrow> 'm \<Rightarrow> 'm"
    and remove :: "'k \<Rightarrow> 'm \<Rightarrow> 'm" and entries :: "'m \<Rightarrow> ('k \<times> 'v) list" and wf :: "'m \<Rightarrow> bool"
  assumes get_insert: "get (insert_kv k v m) = (get m)(k \<mapsto> v)"
    and get_remove: "get (remove k m) = (get m)(k := None)"
    and wf_insert: "wf m \<Longrightarrow> wf (insert_kv k v m)"
    and wf_remove: "wf m \<Longrightarrow> wf (remove k m)"
    and entries_get: "wf m \<Longrightarrow> (k, v) \<in> set (entries m) \<longleftrightarrow> get m k = Some v"
    and entries_sorted: "wf m \<Longrightarrow> sorted_wrt (<) (map fst (entries m))"
begin

lemma insert_same: "get (insert_kv k v m) k = Some v"
  by (simp add: get_insert)

lemma insert_other: "k' \<noteq> k \<Longrightarrow> get (insert_kv k v m) k' = get m k'"
  by (simp add: get_insert)

lemma wf_fold_insert: "wf m \<Longrightarrow> wf (foldl (\<lambda>m (k, v). insert_kv k v m) m kvs)"
  by (induction kvs arbitrary: m) (auto simp: wf_insert)

text \<open>Collecting a list keeps the last value of each key.\<close>

lemma get_fold_insert:
  "get (foldl (\<lambda>m (k, v). insert_kv k v m) m kvs) = get m ++ map_of (rev kvs)"
  by (induction kvs arbitrary: m) (auto simp: get_insert map_add_def split: option.splits)

lemma entries_distinct: "wf m \<Longrightarrow> distinct (map fst (entries m))"
  using entries_sorted strict_sorted_iff by blast

end

section \<open>The model\<close>

type_synonym ('k, 'v) btree = "('k \<times> 'v) list"

definition bt_get :: "('k, 'v) btree \<Rightarrow> 'k \<Rightarrow> 'v option" where
  "bt_get m k = map_of m k"

fun bt_insert :: "'k::linorder \<Rightarrow> 'v \<Rightarrow> ('k, 'v) btree \<Rightarrow> ('k, 'v) btree" where
  "bt_insert k v [] = [(k, v)]"
| "bt_insert k v ((k', v') # m) =
     (if k < k' then (k, v) # (k', v') # m
      else if k = k' then (k, v) # m
      else (k', v') # bt_insert k v m)"

definition bt_remove :: "'k \<Rightarrow> ('k, 'v) btree \<Rightarrow> ('k, 'v) btree" where
  "bt_remove k m = filter (\<lambda>(k', v). k' \<noteq> k) m"

definition bt_wf :: "('k::linorder, 'v) btree \<Rightarrow> bool" where
  "bt_wf m = sorted_wrt (<) (map fst m)"

definition bt_collect :: "('k::linorder \<times> 'v) list \<Rightarrow> ('k, 'v) btree" where
  "bt_collect kvs = foldl (\<lambda>m (k, v). bt_insert k v m) [] kvs"

definition bt_values :: "('k, 'v) btree \<Rightarrow> 'v list" where
  "bt_values m = map snd m"

lemma bt_get_insert: "bt_get (bt_insert k v m) = (bt_get m)(k \<mapsto> v)"
proof
  fix x show "bt_get (bt_insert k v m) x = ((bt_get m)(k \<mapsto> v)) x"
    by (induction k v m rule: bt_insert.induct) (auto simp: bt_get_def)
qed

lemma keys_insert: "set (map fst (bt_insert k v m)) = insert k (set (map fst m))"
  by (induction k v m rule: bt_insert.induct) auto

lemma wf_bt_insert: "bt_wf m \<Longrightarrow> bt_wf (bt_insert k v m)"
proof (induction k v m rule: bt_insert.induct)
  case (2 k v k' v' m)
  then show ?case
    using keys_insert [of k v m] by (auto simp: bt_wf_def dest: less_trans)
qed (simp add: bt_wf_def)

lemma bt_get_remove: "bt_get (bt_remove k m) = (bt_get m)(k := None)"
proof
  fix x show "bt_get (bt_remove k m) x = ((bt_get m)(k := None)) x"
    by (induction m) (auto simp: bt_get_def bt_remove_def)
qed

lemma wf_filter: "bt_wf m \<Longrightarrow> bt_wf (filter P m)"
  by (induction m) (auto simp: bt_wf_def)

lemma wf_distinct: "bt_wf m \<Longrightarrow> distinct (map fst m)"
  by (simp add: bt_wf_def strict_sorted_iff)

interpretation bt: ordered_map bt_get bt_insert bt_remove "\<lambda>m. m" bt_wf
proof unfold_locales
  show "((k, v) \<in> set m) = (bt_get m k = Some v)" if "bt_wf m" for m :: "('k::linorder, 'v) btree" and k v
    using wf_distinct [OF that] by (auto simp: bt_get_def intro: map_of_is_SomeI map_of_SomeD)
  show "bt_wf (bt_remove k m)" if "bt_wf m" for m :: "('k::linorder, 'v) btree" and k
    using wf_filter [OF that] by (simp add: bt_remove_def)
qed (simp_all add: bt_get_insert bt_get_remove wf_bt_insert, simp add: bt_wf_def)

lemma bt_get_Nil [simp]: "bt_get [] k = None"
  by (simp add: bt_get_def)

lemma bt_wf_Nil [simp]: "bt_wf []"
  by (simp add: bt_wf_def)

lemma bt_get_collect: "bt_get (bt_collect kvs) = map_of (rev kvs)"
proof -
  have "bt_get ([] :: ('a, 'b) btree) = Map.empty" by (rule ext) simp
  then show ?thesis using bt.get_fold_insert [of "[]" kvs] by (simp add: bt_collect_def)
qed

lemma bt_wf_collect: "bt_wf (bt_collect kvs)"
  by (simp add: bt_collect_def bt.wf_fold_insert)

lemma bt_values_get: "bt_wf m \<Longrightarrow> v \<in> set (bt_values m) \<longleftrightarrow> (\<exists>k. bt_get m k = Some v)"
  using bt.entries_get [of m] by (force simp: bt_values_def)

lemma length_bt_insert:
  "bt_wf m \<Longrightarrow> length (bt_insert k v m) = (if bt_get m k = None then length m + 1 else length m)"
proof (induction k v m rule: bt_insert.induct)
  case (2 k v k' v' m)
  have wf: "bt_wf m" and above: "\<forall>x\<in>set (map fst m). k' < x" using "2.prems" by (auto simp: bt_wf_def)
  have "k < k' \<Longrightarrow> bt_get m k = None"
    using above less_trans by (fastforce simp: bt_get_def map_of_eq_None_iff)
  then show ?case using "2.IH" wf by (auto simp: bt_get_def)
qed simp

lemma length_bt_remove: "length (bt_remove k m) \<le> length m"
  by (simp add: bt_remove_def)

lemma bt_remove_Nil [simp]: "bt_remove k [] = []"
  by (simp add: bt_remove_def)

lemma bt_wf_map: "bt_wf (map (\<lambda>(k, v). (k, f k v)) m) = bt_wf m"
  by (simp add: bt_wf_def comp_def case_prod_beta)

end
