(* ===== verification/Ospf_Exchange.thy ===== *)
theory Ospf_Exchange
  imports Ospf_Packet BTree Sim_Queue
begin

text \<open>
  The crate \<open>rios-routing\<close>, adjacency formation (\<open>ospf.rs\<close>, \<open>ospf_exchange.rs\<close>,
  \<open>ospf_exchange/advertisement.rs\<close>): instance comparison, the master/slave database exchange,
  explicit requests, and reliable flooding with retransmission. The trait
  \<open>ExchangeAdvertisement\<close> is the record \<open>Advertisement\<close> of its constants and functions; the
  locale \<open>advertisement\<close> states what the exchange relies on, and OSPFv2 interprets it.
\<close>

section \<open>Instances\<close>

datatype OspfNeighborState = NbrDown | NbrInit | TwoWay | ExStart | Exchange | Loading | Full

datatype ordering = OrdLess | OrdEqual | OrdGreater

definition cmp :: "'a::linorder \<Rightarrow> 'a \<Rightarrow> ordering" where
  "cmp a b = (if a < b then OrdLess else if a = b then OrdEqual else OrdGreater)"

definition and_then_cmp :: "ordering \<Rightarrow> ordering \<Rightarrow> ordering" where
  "and_then_cmp a b = (if a = OrdEqual then b else a)"

fun flip_ord :: "ordering \<Rightarrow> ordering" where
  "flip_ord OrdLess = OrdGreater"
| "flip_ord OrdEqual = OrdEqual"
| "flip_ord OrdGreater = OrdLess"

definition compare_lsa_instances :: "u32 \<times> u16 \<times> u16 \<Rightarrow> u32 \<times> u16 \<times> u16 \<Rightarrow> ordering" where
  "compare_lsa_instances = (\<lambda>(seq_a, sum_a, age_a) (seq_b, sum_b, age_b).
     and_then_cmp (and_then_cmp (cmp (sint seq_a) (sint seq_b)) (cmp sum_a sum_b))
       (if age_a = LSA_MAX_AGE \<or> age_b = LSA_MAX_AGE then cmp (age_a = LSA_MAX_AGE) (age_b = LSA_MAX_AGE)
        else if 900 < (if age_a < age_b then age_b - age_a else age_a - age_b) then cmp age_b age_a
        else OrdEqual))"

definition compare_lsa :: "LsaHeader \<Rightarrow> LsaHeader \<Rightarrow> ordering" where
  "compare_lsa a b =
     compare_lsa_instances (lh_sequence a, lh_checksum a, lh_age a) (lh_sequence b, lh_checksum b, lh_age b)"

lemma cmp_flip: "cmp b a = flip_ord (cmp a b)"
  by (auto simp: cmp_def)

lemma cmp_refl [simp]: "cmp a a = OrdEqual"
  by (simp add: cmp_def)

lemma and_then_cmp_flip: "and_then_cmp (flip_ord a) (flip_ord b) = flip_ord (and_then_cmp a b)"
  by (cases a) (simp_all add: and_then_cmp_def)

lemma compare_instances_flip: "compare_lsa_instances b a = flip_ord (compare_lsa_instances a b)"
proof -
  obtain sa ca ga sb cb gb where ab: "a = (sa, ca, ga)" "b = (sb, cb, gb)" by (metis surj_pair)
  let ?age = "\<lambda>x y::u16. if x = LSA_MAX_AGE \<or> y = LSA_MAX_AGE then cmp (x = LSA_MAX_AGE) (y = LSA_MAX_AGE)
    else if 900 < (if x < y then y - x else x - y) then cmp y x else OrdEqual"
  have age: "?age gb ga = flip_ord (?age ga gb)"
    by (auto simp: cmp_flip [of "gb = LSA_MAX_AGE"] cmp_flip [of ga gb] cmp_flip [of gb ga] cmp_def
        simp flip: not_less_iff_gr_or_eq)
  show ?thesis
    unfolding ab compare_lsa_instances_def prod.case
    by (subst age, subst cmp_flip [of "sint sb" "sint sa"], subst cmp_flip [of cb ca], simp only: and_then_cmp_flip)
qed

section \<open>The interface of an advertisement\<close>

record ('lsa, 'key, 'header) Advertisement =
  ad_options :: u32
  ad_packet_overhead :: u16
  ad_dd_overhead :: u16
  ad_key :: "'lsa \<Rightarrow> 'key"
  ad_header :: "'lsa \<Rightarrow> WireError + 'header"
  ad_encoded_len :: "'lsa \<Rightarrow> WireError + nat"
  ad_header_key :: "'header \<Rightarrow> 'key"
  ad_compare :: "'header \<Rightarrow> 'header \<Rightarrow> ordering"

definition Lsa_advertisement :: "(Lsa, LsaKey, LsaHeader) Advertisement" where
  "Lsa_advertisement = \<lparr>ad_options = 2, ad_packet_overhead = 44, ad_dd_overhead = 52, ad_key = Lsa_key,
     ad_header = Lsa_header, ad_encoded_len = (\<lambda>l. and_then (Lsa_encode l) (\<lambda>bs. Inr (length bs))),
     ad_header_key = lh_key, ad_compare = compare_lsa\<rparr>"

locale advertisement =
  fixes ad :: "('lsa, 'key::linorder, 'header) Advertisement" and valid :: "'lsa \<Rightarrow> bool"
  assumes header_total: "valid l \<Longrightarrow> \<exists>h. ad_header ad l = Inr h"
    and header_key: "valid l \<Longrightarrow> ad_header ad l = Inr h \<Longrightarrow> ad_header_key ad h = ad_key ad l"
    and compare_flip: "ad_compare ad b a = flip_ord (ad_compare ad a b)"
begin

lemma compare_refl: "ad_compare ad h h = OrdEqual"
  using compare_flip [of h h] by (cases "ad_compare ad h h") simp_all

lemma newer_is_not_older: "ad_compare ad a b = OrdGreater \<Longrightarrow> ad_compare ad b a = OrdLess"
  by (simp add: compare_flip [of b a])

end

interpretation lsa_ad: advertisement Lsa_advertisement wire_lsa
proof unfold_locales
  fix l h assume wire: "wire_lsa l"
  obtain bs where enc: "Lsa_encode l = Inr bs"
    and hdr: "\<exists>h. \<forall>rest. LsaHeader_decode (bs @ rest) = Inr h \<and> unat (lh_length h) = length bs \<and> lh_key h = Lsa_key l"
    by (rule lsa_decode_encode [OF wire])
  from hdr obtain h' where h': "\<forall>rest. LsaHeader_decode (bs @ rest) = Inr h' \<and> unat (lh_length h') = length bs \<and>
      lh_key h' = Lsa_key l" ..
  have "LsaHeader_decode (bs @ []) = Inr h'" "lh_key h' = Lsa_key l" using spec [OF h', of "[]"] by simp_all
  note e = enc this
  then show "\<exists>h. ad_header Lsa_advertisement l = Inr h"
    by (simp add: Lsa_advertisement_def Lsa_header_def)
  assume "ad_header Lsa_advertisement l = Inr h"
  then show "ad_header_key Lsa_advertisement h = ad_key Lsa_advertisement l"
    using e by (simp add: Lsa_advertisement_def Lsa_header_def)
next
  fix a b show "ad_compare Lsa_advertisement b a = flip_ord (ad_compare Lsa_advertisement a b)"
    unfolding Lsa_advertisement_def Advertisement.simps compare_lsa_def by (rule compare_instances_flip)
qed

section \<open>The exchange\<close>

definition RETRANSMIT_US :: u64 where "RETRANSMIT_US = 5000000"

definition OSPF_DATABASE_LIMIT :: nat where "OSPF_DATABASE_LIMIT = 4096"

record ('hello, 'header, 'key, 'lsa) OspfExchange =
  ex_state :: OspfNeighborState
  ex_master :: bool
  ex_mtu :: u16
  ex_sequence :: u32
  ex_summary :: "'header list"
  ex_offset :: nat
  ex_last_dd :: "('hello, 'header, 'key, 'lsa) OspfBody option"
  ex_dd_due :: SimTime
  ex_requests :: "('key, 'header) btree"
  ex_request_due :: SimTime
  ex_retransmit :: "('key, 'lsa \<times> SimTime) btree"

record ('hello, 'header, 'key, 'lsa) OspfExchangeResult =
  er_packets :: "('hello, 'header, 'key, 'lsa) OspfBody list"
  er_advertisements :: "'lsa list"

definition OspfExchange_new :: "ipv4 \<Rightarrow> ipv4 \<Rightarrow> u16 \<Rightarrow> u32 \<Rightarrow> ('hello, 'header, 'key, 'lsa) OspfExchange" where
  "OspfExchange_new local_id peer mtu sequence =
     \<lparr>ex_state = ExStart, ex_master = (peer < local_id), ex_mtu = mtu, ex_sequence = sequence, ex_summary = [],
      ex_offset = 0, ex_last_dd = None, ex_dd_due = 0, ex_requests = [], ex_request_due = 0, ex_retransmit = []\<rparr>"

definition OspfExchange_pending :: "('hello, 'header, 'key, 'lsa) OspfExchange \<Rightarrow> nat \<times> nat" where
  "OspfExchange_pending x = (length (ex_requests x), length (ex_retransmit x))"

definition send_dd ::
  "('lsa, 'key, 'header) Advertisement \<Rightarrow> u8 \<Rightarrow> 'header list \<Rightarrow> SimTime \<Rightarrow> ('hello, 'header, 'key, 'lsa) OspfExchange \<Rightarrow>
     ('hello, 'header, 'key, 'lsa) OspfBody \<times> ('hello, 'header, 'key, 'lsa) OspfExchange" where
  "send_dd ad flags headers now x =
     (let body = DatabaseDescription (ex_mtu x) (ad_options ad) flags (ex_sequence x) headers
      in (body, x\<lparr>ex_last_dd := Some body, ex_dd_due := saturating_add now RETRANSMIT_US\<rparr>))"

definition ok_headers :: "('lsa, 'key, 'header) Advertisement \<Rightarrow> ('key, 'lsa) btree \<Rightarrow> 'header list" where
  "ok_headers ad database =
     List.map_filter (\<lambda>l. case ad_header ad l of Inl _ \<Rightarrow> None | Inr h \<Rightarrow> Some h) (bt_values database)"

definition OspfExchange_start ::
  "('lsa, 'key, 'header) Advertisement \<Rightarrow> ('key, 'lsa) btree \<Rightarrow> SimTime \<Rightarrow> ('hello, 'header, 'key, 'lsa) OspfExchange \<Rightarrow>
     ('hello, 'header, 'key, 'lsa) OspfBody \<times> ('hello, 'header, 'key, 'lsa) OspfExchange" where
  "OspfExchange_start ad database now x =
     send_dd ad 7 [] now (x\<lparr>ex_state := ExStart, ex_summary := take OSPF_DATABASE_LIMIT (ok_headers ad database),
       ex_offset := 0, ex_requests := [], ex_retransmit := []\<rparr>)"

definition next_dd ::
  "('lsa, 'key, 'header) Advertisement \<Rightarrow> SimTime \<Rightarrow> ('hello, 'header, 'key, 'lsa) OspfExchange \<Rightarrow>
     ('hello, 'header, 'key, 'lsa) OspfBody \<times> ('hello, 'header, 'key, 'lsa) OspfExchange" where
  "next_dd ad now x =
     (let count = unat (saturating_sub (ex_mtu x) (ad_dd_overhead ad)) div 20;
          end = min (ex_offset x + max count 1) (length (ex_summary x));
          headers = slice (ex_offset x) end (ex_summary x);
          flags = of_bool (ex_master x) OR (if end < length (ex_summary x) then 2 else 0)
      in send_dd ad flags headers now (x\<lparr>ex_offset := end\<rparr>))"

text \<open>One header of \<open>request_headers\<close>: ask for what the database lacks or has in an older instance.\<close>

definition request_header ::
  "('lsa, 'key::linorder, 'header) Advertisement \<Rightarrow> ('key, 'lsa) btree \<Rightarrow> ('key, 'header) btree \<Rightarrow> 'header \<Rightarrow>
     ('key, 'header) btree" where
  "request_header ad database requests header =
     (let k = ad_header_key ad header;
          old = (case bt_get database k of None \<Rightarrow> None
                 | Some l \<Rightarrow> (case ad_header ad l of Inl _ \<Rightarrow> None | Inr h \<Rightarrow> Some h))
      in if (case old of None \<Rightarrow> True | Some h \<Rightarrow> ad_compare ad header h = OrdGreater) \<and>
            (length requests < OSPF_DATABASE_LIMIT \<or> bt_get requests k \<noteq> None)
         then (case bt_get requests k of
                 None \<Rightarrow> bt_insert k header requests
               | Some r \<Rightarrow> if ad_compare ad header r = OrdGreater then bt_insert k header requests else requests)
         else requests)"

definition request_headers ::
  "('lsa, 'key::linorder, 'header) Advertisement \<Rightarrow> 'header list \<Rightarrow> ('key, 'lsa) btree \<Rightarrow>
     ('hello, 'header, 'key, 'lsa) OspfExchange \<Rightarrow> ('hello, 'header, 'key, 'lsa) OspfExchange" where
  "request_headers ad headers database x =
     x\<lparr>ex_requests := foldl (request_header ad database) (ex_requests x) headers\<rparr>"

definition request_packets ::
  "('lsa, 'key, 'header) Advertisement \<Rightarrow> ('hello, 'header, 'key, 'lsa) OspfExchange \<Rightarrow>
     ('hello, 'header, 'key, 'lsa) OspfBody list" where
  "request_packets ad x =
     (let keys = map fst (ex_requests x);
          size = max (unat (saturating_sub (ex_mtu x) (ad_packet_overhead ad)) div 12) 1
      in map LinkStateRequest (chunks size keys))"

definition finish ::
  "('lsa, 'key, 'header) Advertisement \<Rightarrow> SimTime \<Rightarrow> ('hello, 'header, 'key, 'lsa) OspfExchange \<Rightarrow>
     ('hello, 'header, 'key, 'lsa) OspfBody list \<times> ('hello, 'header, 'key, 'lsa) OspfExchange" where
  "finish ad now x =
     (let x1 = x\<lparr>ex_state := (if ex_requests x = [] then Full else Loading)\<rparr>
      in if ex_requests x \<noteq> []
         then (request_packets ad x1, x1\<lparr>ex_request_due := saturating_add now RETRANSMIT_US\<rparr>)
         else ([], x1))"

definition can_exchange :: "('hello, 'header, 'key, 'lsa) OspfExchange \<Rightarrow> bool" where
  "can_exchange x = (ex_state x \<in> {Exchange, Loading, Full})"

definition flood ::
  "('lsa, 'key::linorder, 'header) Advertisement \<Rightarrow> 'lsa \<Rightarrow> SimTime \<Rightarrow> ('hello, 'header, 'key, 'lsa) OspfExchange \<Rightarrow>
     ('hello, 'header, 'key, 'lsa) OspfBody option \<times> ('hello, 'header, 'key, 'lsa) OspfExchange" where
  "flood ad l now x =
     (if \<not> can_exchange x then (None, x)
      else case ad_encoded_len ad l of
        Inl _ \<Rightarrow> (None, x)
      | Inr len \<Rightarrow>
          if unat (ex_mtu x) < len + unat (ad_packet_overhead ad) + 4 \<or>
             (OSPF_DATABASE_LIMIT \<le> length (ex_retransmit x) \<and> bt_get (ex_retransmit x) (ad_key ad l) = None)
          then (None, x)
          else (Some (LinkStateUpdate [l]),
                x\<lparr>ex_retransmit := bt_insert (ad_key ad l) (l, saturating_add now RETRANSMIT_US) (ex_retransmit x)\<rparr>))"

definition result :: "('hello, 'header, 'key, 'lsa) OspfBody list \<Rightarrow> 'lsa list \<Rightarrow> ('hello, 'header, 'key, 'lsa) OspfExchangeResult" where
  "result packets lsas = \<lparr>er_packets = packets, er_advertisements = lsas\<rparr>"

definition opt_list :: "'a option \<Rightarrow> 'a list" where
  "opt_list p = (case p of None \<Rightarrow> [] | Some v \<Rightarrow> [v])"

definition restart ::
  "('lsa, 'key, 'header) Advertisement \<Rightarrow> ('key, 'lsa) btree \<Rightarrow> SimTime \<Rightarrow> ('hello, 'header, 'key, 'lsa) OspfExchange \<Rightarrow>
     ('hello, 'header, 'key, 'lsa) OspfBody list \<times> ('hello, 'header, 'key, 'lsa) OspfExchange" where
  "restart ad database now x =
     (let (p, x') = OspfExchange_start ad database now (x\<lparr>ex_sequence := ex_sequence x + 1\<rparr>) in ([p], x'))"

fun sent_more :: "('hello, 'header, 'key, 'lsa) OspfBody option \<Rightarrow> bool" where
  "sent_more (Some (DatabaseDescription _ _ flags _ _)) = (flags AND 2 \<noteq> 0)"
| "sent_more _ = False"

definition receive_dd ::
  "('lsa, 'key::linorder, 'header) Advertisement \<Rightarrow> u16 \<Rightarrow> u32 \<Rightarrow> u8 \<Rightarrow> u32 \<Rightarrow> 'header list \<Rightarrow> ('key, 'lsa) btree \<Rightarrow> SimTime \<Rightarrow>
     ('hello, 'header, 'key, 'lsa) OspfExchange \<Rightarrow>
     ('hello, 'header, 'key, 'lsa) OspfBody list \<times> ('hello, 'header, 'key, 'lsa) OspfExchange" where
  "receive_dd ad mtu options flags sequence headers database now x =
     (if ex_mtu x < mtu \<or> flags AND NOT 7 \<noteq> 0 \<or> options AND ad_options ad \<noteq> ad_options ad then ([], x)
      else if ex_state x = ExStart then
        if \<not> ex_master x \<and> flags = 7 \<and> headers = [] then
          let (p, x') = next_dd ad now (x\<lparr>ex_sequence := sequence, ex_state := Exchange\<rparr>) in ([p], x')
        else if ex_master x \<and> flags AND 5 = 0 \<and> sequence = ex_sequence x then
          let x1 = request_headers ad headers database (x\<lparr>ex_state := Exchange\<rparr>);
              (p, x') = next_dd ad now (x1\<lparr>ex_sequence := ex_sequence x1 + 1\<rparr>)
          in ([p], x')
        else ([], x)
      else if \<not> can_exchange x then ([], x)
      else if \<not> ex_master x \<and> sequence = ex_sequence x then (opt_list (ex_last_dd x), x)
      else if ex_master x \<and> ex_state x \<in> {Loading, Full} \<and> sequence = ex_sequence x \<and> flags AND 5 = 0 then ([], x)
      else if ex_master x \<and> sequence = ex_sequence x - 1 then ([], x)
      else let expected = (if ex_master x then ex_sequence x else ex_sequence x + 1)
      in if flags AND 4 \<noteq> 0 \<or> (flags AND 1 \<noteq> 0) = ex_master x \<or> sequence \<noteq> expected \<or> ex_state x \<noteq> Exchange then
           restart ad database now x
         else let x1 = request_headers ad headers database x
         in if ex_master x1 then
              if \<not> sent_more (ex_last_dd x1) \<and> flags AND 2 = 0 then finish ad now x1
              else let (p, x') = next_dd ad now (x1\<lparr>ex_sequence := ex_sequence x1 + 1\<rparr>) in ([p], x')
            else let (p, x2) = next_dd ad now (x1\<lparr>ex_sequence := sequence\<rparr>)
                 in if ex_offset x2 = length (ex_summary x2) \<and> flags AND 2 = 0
                    then let (ps, x') = finish ad now x2 in (p # ps, x')
                    else ([p], x2))"

fun receive_requests ::
  "('lsa, 'key::linorder, 'header) Advertisement \<Rightarrow> 'key list \<Rightarrow> ('key, 'lsa) btree \<Rightarrow> SimTime \<Rightarrow>
     ('hello, 'header, 'key, 'lsa) OspfBody list \<Rightarrow> ('hello, 'header, 'key, 'lsa) OspfExchange \<Rightarrow>
     ('hello, 'header, 'key, 'lsa) OspfBody list \<times> ('hello, 'header, 'key, 'lsa) OspfExchange" where
  "receive_requests ad [] database now packets x = (packets, x)"
| "receive_requests ad (k # ks) database now packets x =
     (case bt_get database k of
        None \<Rightarrow> restart ad database now x
      | Some l \<Rightarrow>
          let (p, x') = flood ad l now x in receive_requests ad ks database now (packets @ opt_list p) x')"

text \<open>One advertisement of an update; the accumulator holds packets, acknowledgments and offered LSAs.\<close>

definition receive_lsa ::
  "('lsa, 'key::linorder, 'header) Advertisement \<Rightarrow> ('key, 'lsa) btree \<Rightarrow> SimTime \<Rightarrow>
     (('hello, 'header, 'key, 'lsa) OspfBody list \<times> 'header list \<times> 'lsa list) \<times> ('hello, 'header, 'key, 'lsa) OspfExchange \<Rightarrow> 'lsa \<Rightarrow>
     (('hello, 'header, 'key, 'lsa) OspfBody list \<times> 'header list \<times> 'lsa list) \<times> ('hello, 'header, 'key, 'lsa) OspfExchange" where
  "receive_lsa ad database now = (\<lambda>((packets, ack, offered), x) l.
     case ad_header ad l of
       Inl _ \<Rightarrow> ((packets, ack, offered), x)
     | Inr header \<Rightarrow>
         let k = ad_header_key ad header
         in if (case bt_get (ex_requests x) k of None \<Rightarrow> False | Some r \<Rightarrow> ad_compare ad header r = OrdLess)
            then ((packets, ack, offered), x)
            else let x1 = x\<lparr>ex_requests := bt_remove k (ex_requests x)\<rparr>;
                     old = (case bt_get database k of None \<Rightarrow> None
                            | Some d \<Rightarrow> (case ad_header ad d of Inl _ \<Rightarrow> None | Inr h \<Rightarrow> Some h))
                 in if (case old of None \<Rightarrow> True | Some h \<Rightarrow> ad_compare ad header h \<noteq> OrdLess)
                    then ((packets, ack @ [header], offered @ [l]), x1)
                    else (case bt_get database k of
                            None \<Rightarrow> ((packets, ack, offered), x1)
                          | Some d \<Rightarrow> let (p, x2) = flood ad d now x1 in ((packets @ opt_list p, ack, offered), x2)))"

definition receive_update ::
  "('lsa, 'key::linorder, 'header) Advertisement \<Rightarrow> 'lsa list \<Rightarrow> ('key, 'lsa) btree \<Rightarrow> SimTime \<Rightarrow>
     ('hello, 'header, 'key, 'lsa) OspfExchange \<Rightarrow>
     ('hello, 'header, 'key, 'lsa) OspfExchangeResult \<times> ('hello, 'header, 'key, 'lsa) OspfExchange" where
  "receive_update ad lsas database now x =
     (let ((packets, ack, offered), x1) = foldl (receive_lsa ad database now) (([], [], []), x) lsas;
          size = max (unat (saturating_sub (ex_mtu x1) (ad_packet_overhead ad)) div 20) 1
      in (result (packets @ map LinkStateAck (chunks size ack)) offered,
          if ex_state x1 = Loading \<and> ex_requests x1 = [] then x1\<lparr>ex_state := Full\<rparr> else x1))"

definition receive_ack ::
  "('lsa, 'key::linorder, 'header) Advertisement \<Rightarrow> ('key, 'lsa \<times> SimTime) btree \<Rightarrow> 'header \<Rightarrow> ('key, 'lsa \<times> SimTime) btree" where
  "receive_ack ad retransmit header =
     (case bt_get retransmit (ad_header_key ad header) of
        None \<Rightarrow> retransmit
      | Some (l, _) \<Rightarrow>
          (case ad_header ad l of
             Inl _ \<Rightarrow> retransmit
           | Inr sent \<Rightarrow>
               if ad_compare ad header sent = OrdEqual then bt_remove (ad_header_key ad header) retransmit else retransmit))"

definition OspfExchange_receive ::
  "('lsa, 'key::linorder, 'header) Advertisement \<Rightarrow> ('hello, 'header, 'key, 'lsa) OspfBody \<Rightarrow> ('key, 'lsa) btree \<Rightarrow> SimTime \<Rightarrow>
     ('hello, 'header, 'key, 'lsa) OspfExchange \<Rightarrow>
     ('hello, 'header, 'key, 'lsa) OspfExchangeResult \<times> ('hello, 'header, 'key, 'lsa) OspfExchange" where
  "OspfExchange_receive ad body database now x =
     (case body of
        DatabaseDescription mtu options flags sequence headers \<Rightarrow>
          let (ps, x') = receive_dd ad mtu options flags sequence headers database now x in (result ps [], x')
      | LinkStateRequest keys \<Rightarrow>
          if can_exchange x
          then let (ps, x') = receive_requests ad keys database now [] x in (result ps [], x')
          else (result [] [], x)
      | LinkStateUpdate lsas \<Rightarrow>
          if can_exchange x then receive_update ad lsas database now x else (result [] [], x)
      | LinkStateAck headers \<Rightarrow>
          if can_exchange x
          then (result [] [], x\<lparr>ex_retransmit := foldl (receive_ack ad) (ex_retransmit x) headers\<rparr>)
          else (result [] [], x)
      | Hello _ \<Rightarrow> (result [] [], x))"

section \<open>Timers\<close>

definition dd_active :: "('hello, 'header, 'key, 'lsa) OspfExchange \<Rightarrow> bool" where
  "dd_active x = (ex_state x = ExStart \<or> (ex_state x = Exchange \<and> ex_master x))"

definition deadlines :: "('hello, 'header, 'key, 'lsa) OspfExchange \<Rightarrow> SimTime list" where
  "deadlines x =
     (if dd_active x then [ex_dd_due x] else []) @ (if ex_state x = Loading then [ex_request_due x] else []) @
     map snd (bt_values (ex_retransmit x))"

definition OspfExchange_next_deadline :: "('hello, 'header, 'key, 'lsa) OspfExchange \<Rightarrow> SimTime option" where
  "OspfExchange_next_deadline x = (if deadlines x = [] then None else Some (Min (set (deadlines x))))"

definition OspfExchange_tick ::
  "('lsa, 'key, 'header) Advertisement \<Rightarrow> SimTime \<Rightarrow> ('hello, 'header, 'key, 'lsa) OspfExchange \<Rightarrow>
     ('hello, 'header, 'key, 'lsa) OspfBody list \<times> ('hello, 'header, 'key, 'lsa) OspfExchange" where
  "OspfExchange_tick ad now x =
     (let (o1, x1) = (if dd_active x \<and> ex_dd_due x \<le> now \<and> ex_last_dd x \<noteq> None
                      then (opt_list (ex_last_dd x), x\<lparr>ex_dd_due := saturating_add now RETRANSMIT_US\<rparr>) else ([], x));
          (o2, x2) = (if ex_state x1 = Loading \<and> ex_request_due x1 \<le> now
                      then (request_packets ad x1, x1\<lparr>ex_request_due := saturating_add now RETRANSMIT_US\<rparr>) else ([], x1));
          o3 = List.map_filter (\<lambda>(k, (l, due)). if due \<le> now then Some (LinkStateUpdate [l]) else None) (ex_retransmit x2)
      in (o1 @ o2 @ o3,
          x2\<lparr>ex_retransmit := map (\<lambda>(k, (l, due)).
             (k, (l, if due \<le> now then saturating_add now RETRANSMIT_US else due))) (ex_retransmit x2)\<rparr>))"

section \<open>Invariant\<close>

text \<open>
  Every list of an adjacency is bounded; a neighbor is Full exactly when nothing is left to
  request; and an adjacency that is starting over holds no requests and no unacknowledged updates.
\<close>

definition ex_inv :: "('hello, 'header, 'key::linorder, 'lsa) OspfExchange \<Rightarrow> bool" where
  "ex_inv x =
     (ex_offset x \<le> length (ex_summary x) \<and> length (ex_summary x) \<le> OSPF_DATABASE_LIMIT \<and>
      bt_wf (ex_requests x) \<and> length (ex_requests x) \<le> OSPF_DATABASE_LIMIT \<and>
      bt_wf (ex_retransmit x) \<and> length (ex_retransmit x) \<le> OSPF_DATABASE_LIMIT \<and>
      ex_state x \<in> {ExStart, Exchange, Loading, Full} \<and>
      (ex_state x = Full \<longrightarrow> ex_requests x = []) \<and> (ex_state x = Loading \<longrightarrow> ex_requests x \<noteq> []) \<and>
      (ex_state x = ExStart \<longrightarrow> ex_requests x = [] \<and> ex_retransmit x = []))"

lemma ex_new_inv: "ex_inv (OspfExchange_new local_id peer mtu sequence)"
  by (simp add: ex_inv_def OspfExchange_new_def)

lemma request_header_wf:
  "bt_wf r \<Longrightarrow> length r \<le> OSPF_DATABASE_LIMIT \<Longrightarrow>
     bt_wf (request_header ad database r h) \<and> length (request_header ad database r h) \<le> OSPF_DATABASE_LIMIT"
  by (auto simp: request_header_def Let_def wf_bt_insert length_bt_insert split: option.splits)

lemma request_headers_wf:
  "bt_wf r \<Longrightarrow> length r \<le> OSPF_DATABASE_LIMIT \<Longrightarrow>
     bt_wf (foldl (request_header ad database) r hs) \<and> length (foldl (request_header ad database) r hs) \<le> OSPF_DATABASE_LIMIT"
  by (induction hs arbitrary: r) (simp_all add: request_header_wf)

lemma start_inv: "ex_inv (snd (OspfExchange_start ad database now x))"
  by (simp add: OspfExchange_start_def send_dd_def Let_def ex_inv_def)

lemma exchange_restart_inv: "ex_inv (snd (restart ad database now x))"
  using start_inv [of ad database now "x\<lparr>ex_sequence := ex_sequence x + 1\<rparr>"]
  by (simp add: restart_def case_prod_beta)

text \<open>The part of the invariant that holds while the state is being decided.\<close>

definition ex_bounds :: "('hello, 'header, 'key::linorder, 'lsa) OspfExchange \<Rightarrow> bool" where
  "ex_bounds x =
     (ex_offset x \<le> length (ex_summary x) \<and> length (ex_summary x) \<le> OSPF_DATABASE_LIMIT \<and>
      bt_wf (ex_requests x) \<and> length (ex_requests x) \<le> OSPF_DATABASE_LIMIT \<and>
      bt_wf (ex_retransmit x) \<and> length (ex_retransmit x) \<le> OSPF_DATABASE_LIMIT)"

lemma ex_inv_bounds: "ex_inv x \<Longrightarrow> ex_bounds x"
  by (simp add: ex_inv_def ex_bounds_def)

lemma ex_inv_exchange: "ex_bounds x \<Longrightarrow> ex_state x = Exchange \<Longrightarrow> ex_inv x"
  by (simp add: ex_inv_def ex_bounds_def)

lemma next_dd_same [simp]:
  "ex_state (snd (next_dd ad now x)) = ex_state x" "ex_requests (snd (next_dd ad now x)) = ex_requests x"
  "ex_retransmit (snd (next_dd ad now x)) = ex_retransmit x"
  by (simp_all add: next_dd_def send_dd_def Let_def)

lemma next_dd_bounds: "ex_bounds x \<Longrightarrow> ex_bounds (snd (next_dd ad now x))"
  by (simp add: ex_bounds_def next_dd_def send_dd_def Let_def)

lemma request_headers_bounds: "ex_bounds x \<Longrightarrow> ex_bounds (request_headers ad hs database x)"
  using request_headers_wf [of "ex_requests x" ad database hs] by (simp add: ex_bounds_def request_headers_def)

lemma request_headers_state [simp]:
  "ex_state (request_headers ad hs database x) = ex_state x"
  "ex_master (request_headers ad hs database x) = ex_master x"
  by (simp_all add: request_headers_def)

lemma finish_inv: "ex_bounds x \<Longrightarrow> ex_inv (snd (finish ad now x))"
  by (simp add: finish_def Let_def ex_inv_def ex_bounds_def)

lemma ex_bounds_update [simp]:
  "ex_bounds (x\<lparr>ex_sequence := s\<rparr>) = ex_bounds x" "ex_bounds (x\<lparr>ex_state := t\<rparr>) = ex_bounds x"
  by (simp_all add: ex_bounds_def)

lemma receive_dd_inv:
  assumes "ex_inv x"
  shows "ex_inv (snd (receive_dd ad mtu options flags sequence headers database now x))"
proof -
  note bounds = ex_inv_bounds [OF assms]
  have step: "ex_inv (snd (next_dd ad now y))" if "ex_bounds y" "ex_state y = Exchange" for y :: "('a, 'b, 'c, 'd) OspfExchange"
    using that by (intro ex_inv_exchange next_dd_bounds) simp_all
  have req: "ex_bounds (request_headers ad headers database y)" if "ex_bounds y" for y :: "('a, 'b, 'c, 'd) OspfExchange"
    using that by (rule request_headers_bounds)
  show ?thesis
    unfolding receive_dd_def Let_def case_prod_beta
    by (simp add: assms bounds step req next_dd_bounds finish_inv exchange_restart_inv)
qed

lemma flood_same [simp]:
  "ex_state (snd (flood ad l now x)) = ex_state x" "ex_requests (snd (flood ad l now x)) = ex_requests x"
  by (auto simp: flood_def split: sum.splits)

lemma flood_inv: "ex_inv x \<Longrightarrow> ex_inv (snd (flood ad l now x))"
  by (auto simp: flood_def ex_inv_def can_exchange_def wf_bt_insert length_bt_insert split: sum.splits)

lemma receive_requests_inv: "ex_inv x \<Longrightarrow> ex_inv (snd (receive_requests ad ks database now ps x))"
proof (induction ks arbitrary: ps x)
  case (Cons k ks)
  show ?case
    using Cons.IH [OF flood_inv [OF Cons.prems]] exchange_restart_inv
    by (auto simp: Let_def case_prod_beta split: option.splits)
qed simp

text \<open>While an update is applied, Loading may transiently have no requests left.\<close>

definition ex_inv_update :: "('hello, 'header, 'key::linorder, 'lsa) OspfExchange \<Rightarrow> bool" where
  "ex_inv_update x =
     (ex_bounds x \<and> ex_state x \<in> {Exchange, Loading, Full} \<and> (ex_state x = Full \<longrightarrow> ex_requests x = []))"

lemma flood_bounds: "ex_bounds x \<Longrightarrow> ex_bounds (snd (flood ad l now x))"
  by (auto simp: flood_def ex_bounds_def wf_bt_insert length_bt_insert split: sum.splits)

lemma remove_request_inv:
  "ex_inv_update x \<Longrightarrow> ex_inv_update (x\<lparr>ex_requests := bt_remove k (ex_requests x)\<rparr>)"
  using length_bt_remove [of k "ex_requests x"] by (auto simp: ex_inv_update_def ex_bounds_def bt.wf_remove)

lemma receive_lsa_inv: "ex_inv_update (snd s) \<Longrightarrow> ex_inv_update (snd (receive_lsa ad database now s l))"
proof -
  assume inv: "ex_inv_update (snd s)"
  obtain ps ack off x where s: "s = ((ps, ack, off), x)" by (metis surj_pair)
  have fl: "ex_inv_update (snd (flood ad d now y))" if "ex_inv_update y" for d y
    using that by (simp add: ex_inv_update_def flood_bounds)
  show ?thesis
    using inv remove_request_inv fl unfolding s
    by (auto simp: receive_lsa_def Let_def case_prod_beta split: sum.splits option.splits)
qed

lemma receive_update_inv:
  assumes "ex_inv x" "can_exchange x"
  shows "ex_inv (snd (receive_update ad lsas database now x))"
proof -
  have "ex_inv_update (snd (foldl (receive_lsa ad database now) s lsas))" if "ex_inv_update (snd s)" for s
    using that by (induction lsas arbitrary: s) (simp_all add: receive_lsa_inv)
  moreover have "ex_inv_update (snd (([], [], []), x))"
    using assms by (auto simp: ex_inv_update_def ex_inv_bounds can_exchange_def ex_inv_def)
  ultimately have "ex_inv_update (snd (foldl (receive_lsa ad database now) (([], [], []), x) lsas))" by blast
  then show ?thesis
    by (auto simp: receive_update_def Let_def case_prod_beta ex_inv_update_def ex_inv_def ex_bounds_def)
qed

lemma receive_ack_wf:
  "bt_wf r \<Longrightarrow> bt_wf (receive_ack ad r h) \<and> length (receive_ack ad r h) \<le> length r \<and> (r = [] \<longrightarrow> receive_ack ad r h = [])"
  using length_bt_remove by (auto simp: receive_ack_def bt.wf_remove split: option.splits sum.splits)

lemma receive_acks_wf:
  "bt_wf r \<Longrightarrow> bt_wf (foldl (receive_ack ad) r hs) \<and> length (foldl (receive_ack ad) r hs) \<le> length r"
proof (induction hs arbitrary: r)
  case (Cons h hs)
  show ?case using Cons.IH [of "receive_ack ad r h"] receive_ack_wf [OF Cons.prems, of ad h] by auto
qed simp

lemma receive_inv: "ex_inv x \<Longrightarrow> ex_inv (snd (OspfExchange_receive ad body database now x))"
proof (cases body)
  case (LinkStateAck headers)
  assume inv: "ex_inv x"
  then show ?thesis
    using LinkStateAck receive_acks_wf [of "ex_retransmit x" ad headers]
    by (auto simp: OspfExchange_receive_def ex_inv_def can_exchange_def)
qed (auto simp: OspfExchange_receive_def case_prod_beta receive_dd_inv receive_requests_inv receive_update_inv)

lemma retransmit_wf:
  "bt_wf r \<Longrightarrow> bt_wf (map (\<lambda>(k, (l, due)). (k, (l, if due \<le> now then t else due))) r)"
  by (simp add: bt_wf_def comp_def case_prod_beta)

lemma tick_inv: "ex_inv x \<Longrightarrow> ex_inv (snd (OspfExchange_tick ad now x))"
  by (simp add: OspfExchange_tick_def Let_def ex_inv_def retransmit_wf)

inductive ex_op :: "('lsa, 'key::linorder, 'header) Advertisement \<Rightarrow> ('hello, 'header, 'key, 'lsa) OspfExchange \<Rightarrow>
    ('hello, 'header, 'key, 'lsa) OspfExchange \<Rightarrow> bool" for ad where
  start: "ex_op ad x (snd (OspfExchange_start ad database now x))"
| flood: "ex_op ad x (snd (flood ad l now x))"
| receive: "ex_op ad x (snd (OspfExchange_receive ad body database now x))"
| tick: "ex_op ad x (snd (OspfExchange_tick ad now x))"

lemma ex_op_inv: "ex_op ad x y \<Longrightarrow> ex_inv x \<Longrightarrow> ex_inv y"
  by (induction rule: ex_op.induct) (simp_all add: start_inv flood_inv receive_inv tick_inv)

interpretation exchange_machine: invariant_system
  "\<lambda>x. \<exists>local_id peer mtu sequence. x = OspfExchange_new local_id peer mtu sequence" "ex_op ad" ex_inv
  for ad :: "('lsa, 'key::linorder, 'header) Advertisement"
  by unfold_locales (auto intro: ex_new_inv ex_op_inv)

section \<open>Properties\<close>

text \<open>
  C20. An adjacency stays within its bounds under every interleaving of starts, floods, received
  packets of any content and timer ticks: summary, request and retransmission lists hold at most
  4096 entries, the description offset stays inside the summary, Full means nothing is left to
  request, Loading means something is, and ExStart holds no stale requests or retransmissions.
\<close>

theorem exchange_bounded:
  fixes ad :: "('lsa, 'key::linorder, 'header) Advertisement"
  assumes "(ex_op ad)\<^sup>*\<^sup>* (OspfExchange_new local_id peer mtu sequence) x"
  shows "length (ex_summary x) \<le> 4096 \<and> length (ex_requests x) \<le> 4096 \<and> length (ex_retransmit x) \<le> 4096 \<and>
    ex_offset x \<le> length (ex_summary x) \<and> (ex_state x = Full \<longrightarrow> ex_requests x = []) \<and>
    (ex_state x = Loading \<longrightarrow> ex_requests x \<noteq> []) \<and>
    (ex_state x = ExStart \<longrightarrow> ex_requests x = [] \<and> ex_retransmit x = [])"
proof -
  have "ex_inv x" using exchange_machine.reachable_inv assms by blast
  then show ?thesis by (simp add: ex_inv_def OSPF_DATABASE_LIMIT_def)
qed

theorem exchange_bounded_witness:
  "length (ex_summary (snd (OspfExchange_start Lsa_advertisement [] 0
     (OspfExchange_new 2 1 1500 1 :: (OspfHello, LsaHeader, LsaKey, Lsa) OspfExchange)))) \<le> 4096"
proof -
  let ?x = "OspfExchange_new 2 1 1500 1 :: (OspfHello, LsaHeader, LsaKey, Lsa) OspfExchange"
  have "ex_op Lsa_advertisement ?x (snd (OspfExchange_start Lsa_advertisement [] 0 ?x))" by (rule ex_op.start)
  from exchange_bounded [OF r_into_rtranclp [of "ex_op Lsa_advertisement", OF this]] show ?thesis by blast
qed

text \<open>
  Instances of an advertisement are compared consistently: of two headers exactly one verdict
  holds from both sides, a header is never newer than itself, so two neighbours cannot each
  believe to hold the newer copy and flood it at the other forever.
\<close>

theorem instance_order_consistent:
  "compare_lsa b a = flip_ord (compare_lsa a b) \<and> compare_lsa a a = OrdEqual"
  using lsa_ad.compare_flip [of b a] lsa_ad.compare_refl [of a] by (simp add: Lsa_advertisement_def)

end
