(* ===== verification/Ospf_Election.thy ===== *)
theory Ospf_Election
  imports Codec
begin

text \<open>
  Designated router election of \<open>rios-routing\<close> (\<open>ospf_election.rs\<close>), shared by OSPFv2 and
  OSPFv3. Routers that see the same candidates elect the same pair, and an elected designated
  router is not displaced by a newcomer.
\<close>

record OspfElectionCandidate =
  el_priority :: u8
  el_id :: ipv4
  el_address :: ipv4
  el_dr :: ipv4
  el_bdr :: ipv4

definition rank :: "OspfElectionCandidate \<Rightarrow> u8 \<times> ipv4" where
  "rank c = (el_priority c, el_id c)"

definition declares_dr :: "OspfElectionCandidate \<Rightarrow> bool" where
  "declares_dr c = (el_dr c = el_address c)"

definition declares_bdr :: "OspfElectionCandidate \<Rightarrow> bool" where
  "declares_bdr c = (el_bdr c = el_address c)"

definition address_or :: "ipv4 \<Rightarrow> OspfElectionCandidate option \<Rightarrow> ipv4" where
  "address_or d r = (case r of None \<Rightarrow> d | Some c \<Rightarrow> el_address c)"

definition eligible_routers :: "OspfElectionCandidate list \<Rightarrow> OspfElectionCandidate list" where
  "eligible_routers candidates = filter (\<lambda>c. 0 < el_priority c) candidates"

definition ospf_election :: "OspfElectionCandidate list \<Rightarrow> ipv4 \<times> ipv4" where
  "ospf_election candidates =
     (let eligible = eligible_routers candidates;
          declared = max_by_key rank (filter (\<lambda>c. \<not> declares_dr c \<and> declares_bdr c) eligible);
          chosen = (case declared of
                      None \<Rightarrow> max_by_key rank (filter (\<lambda>c. \<not> declares_dr c) eligible)
                    | Some c \<Rightarrow> Some c);
          bdr = address_or 0 chosen;
          dr = address_or bdr (max_by_key rank (filter declares_dr eligible))
      in (dr, bdr))"

section \<open>What the election elects\<close>

lemma dr_not_preempted:
  assumes "c \<in> set (xs @ ys)" "0 < el_priority c" "declares_dr c" "\<not> declares_dr new"
  shows "fst (ospf_election (xs @ new # ys)) = fst (ospf_election (xs @ ys))"
proof -
  have same: "filter declares_dr (eligible_routers (xs @ new # ys)) = filter declares_dr (eligible_routers (xs @ ys))"
    using assms(4) by (simp add: eligible_routers_def)
  have "filter declares_dr (eligible_routers (xs @ ys)) \<noteq> []"
    using assms(1-3) by (auto simp: eligible_routers_def filter_empty_conv)
  then obtain d where "max_by_key rank (filter declares_dr (eligible_routers (xs @ ys))) = Some d"
    by (metis max_by_key_None option.exhaust)
  then show ?thesis
    unfolding ospf_election_def Let_def fst_conv same by (simp add: address_or_def)
qed

lemma rank_selection_same_set:
  assumes "set cs = set ds" "inj_on rank (set cs)"
  shows "max_by_key rank (filter P (eligible_routers cs)) = max_by_key rank (filter P (eligible_routers ds))"
  using assms by (intro max_by_key_same_set) (auto simp: eligible_routers_def inj_on_def)

lemma election_same_set:
  assumes "set cs = set ds" "inj_on rank (set cs)"
  shows "ospf_election cs = ospf_election ds"
  unfolding ospf_election_def Let_def
  by (simp only: rank_selection_same_set [OF assms])

text \<open>The specification: the candidate of a set with the highest priority, then the highest identifier.\<close>

definition top :: "OspfElectionCandidate set \<Rightarrow> OspfElectionCandidate \<Rightarrow> bool" where
  "top S d = (d \<in> S \<and> (\<forall>e\<in>S. el_priority e < el_priority d \<or> el_priority e = el_priority d \<and> el_id e \<le> el_id d))"

definition elected :: "OspfElectionCandidate set \<Rightarrow> ipv4 \<Rightarrow> ipv4 \<Rightarrow> bool" where
  "elected S otherwise a = (if S = {} then a = otherwise else (\<exists>d. top S d \<and> a = el_address d))"

lemma elected_by_rank: "elected (set cs) a (address_or a (max_by_key rank cs))"
proof (cases "max_by_key rank cs")
  case (Some d)
  then have "d \<in> set cs" "\<forall>e\<in>set cs. rank e \<le> rank d" using max_by_key_Some [OF Some] by auto
  then have "top (set cs) d" by (auto simp: top_def rank_def)
  then show ?thesis using \<open>d \<in> set cs\<close> by (auto simp: elected_def address_or_def Some)
qed (simp add: elected_def address_or_def)

lemma elects_dr:
  "elected {c \<in> set cs. 0 < el_priority c \<and> el_dr c = el_address c} (snd (ospf_election cs)) (fst (ospf_election cs))"
  using elected_by_rank [of "filter declares_dr (eligible_routers cs)" "snd (ospf_election cs)"]
  by (simp add: ospf_election_def Let_def eligible_routers_def declares_dr_def conj_commute conj_left_commute)

lemma elects_bdr:
  assumes "backups = {c \<in> set cs. 0 < el_priority c \<and> el_dr c \<noteq> el_address c \<and> el_bdr c = el_address c}"
    and "others = {c \<in> set cs. 0 < el_priority c \<and> el_dr c \<noteq> el_address c}"
  shows "elected (if backups = {} then others else backups) 0 (snd (ospf_election cs))"
proof -
  let ?backups = "filter (\<lambda>c. \<not> declares_dr c \<and> declares_bdr c) (eligible_routers cs)"
  let ?others = "filter (\<lambda>c. \<not> declares_dr c) (eligible_routers cs)"
  have sets: "set ?backups = backups" "set ?others = others"
    by (auto simp: assms eligible_routers_def declares_dr_def declares_bdr_def)
  have "?backups = [] \<longleftrightarrow> backups = {}" by (metis sets(1) set_empty)
  moreover have "snd (ospf_election cs) = address_or 0 (max_by_key rank (if ?backups = [] then ?others else ?backups))"
    by (cases "max_by_key rank ?backups") (auto simp: ospf_election_def Let_def)
  ultimately show ?thesis
    using elected_by_rank [of ?backups 0] elected_by_rank [of ?others 0] by (simp only: sets if_split) auto
qed

section \<open>Properties\<close>

text \<open>
  C30. Designated router election. When no two candidates share priority and identifier, routers that see
  the same candidates, in whatever order, elect the same designated and backup routers, whether or not a
  router already declares itself designated. The backup is the highest candidate among the eligible routers
  that declare themselves backup and not designated, or else among all that do not declare themselves
  designated; the designated router is the highest that declares itself designated, or else the backup;
  highest means by priority, then identifier. A declared designated router is not displaced by a newcomer
  that does not declare itself designated, whatever its priority.
\<close>

theorem election_agreement:
  assumes "set (xs @ ys) = set ds" "inj_on (\<lambda>c. (el_priority c, el_id c)) (set (xs @ ys))"
    and "eligible = {c \<in> set (xs @ ys). 0 < el_priority c}"
    and "declared = {c \<in> eligible. el_dr c = el_address c}" "others = {c \<in> eligible. el_dr c \<noteq> el_address c}"
    and "backups = {c \<in> others. el_bdr c = el_address c}"
    and "ospf_election (xs @ ys) = (dr, bdr)"
  shows "ospf_election ds = (dr, bdr) \<and> elected (if backups = {} then others else backups) 0 bdr \<and> elected declared bdr dr \<and>
    (declared \<noteq> {} \<longrightarrow> el_dr new \<noteq> el_address new \<longrightarrow> fst (ospf_election (xs @ new # ys)) = dr)"
proof -
  have rank: "rank = (\<lambda>c. (el_priority c, el_id c))" by (simp add: rank_def fun_eq_iff)
  have "ospf_election ds = (dr, bdr)"
    using election_same_set [of "xs @ ys" ds] assms(1, 2, 7) by (simp add: rank)
  moreover have "elected (if backups = {} then others else backups) 0 bdr"
    using elects_bdr [of backups "xs @ ys" others] assms(3, 5, 6) unfolding assms(7) by simp
  moreover have "declared = {c \<in> set (xs @ ys). 0 < el_priority c \<and> el_dr c = el_address c}"
    using assms(3, 4) by simp
  then have "elected declared bdr dr" using elects_dr [of "xs @ ys"] unfolding assms(7) by simp
  moreover have "fst (ospf_election (xs @ new # ys)) = dr" if "declared \<noteq> {}" "el_dr new \<noteq> el_address new"
    using that dr_not_preempted [of _ xs ys new] assms by (auto simp: declares_dr_def)
  ultimately show ?thesis by blast
qed

definition sample_candidate :: "u8 \<Rightarrow> ipv4 \<Rightarrow> ipv4 \<Rightarrow> OspfElectionCandidate" where
  "sample_candidate priority i dr = \<lparr>el_priority = priority, el_id = i, el_address = i, el_dr = dr, el_bdr = 0\<rparr>"

text \<open>A first election, and one with a designated router that a newcomer of the highest priority cannot displace.\<close>

theorem election_agreement_witness:
  "ospf_election [sample_candidate 1 1 0, sample_candidate 1 2 0] = (2, 2) \<and>
   ospf_election [sample_candidate 1 2 0, sample_candidate 1 1 0] = (2, 2) \<and>
   fst (ospf_election [sample_candidate 1 2 2, sample_candidate 255 9 0, sample_candidate 1 1 2]) = 2"
proof -
  let ?first = "[sample_candidate 1 1 0] @ [sample_candidate 1 2 0]" and ?later = "[sample_candidate 1 2 2] @ [sample_candidate 1 1 2]"
  have e: "ospf_election ?first = (2, 2)" "ospf_election ?later = (2, 1)" by code_simp+
  have i: "inj_on (\<lambda>c. (el_priority c, el_id c)) (set ?first)" "inj_on (\<lambda>c. (el_priority c, el_id c)) (set ?later)"
    by (simp_all add: sample_candidate_def)
  have "set ?first = set [sample_candidate 1 2 0, sample_candidate 1 1 0]" by auto
  then have "ospf_election [sample_candidate 1 2 0, sample_candidate 1 1 0] = (2, 2)"
    using election_agreement [OF _ i(1) refl refl refl refl e(1)] by blast
  moreover have "fst (ospf_election ([sample_candidate 1 2 2] @ sample_candidate 255 9 0 # [sample_candidate 1 1 2])) = 2"
  proof -
    have "sample_candidate 1 2 2 \<in> {c \<in> {c \<in> set ?later. 0 < el_priority c}. el_dr c = el_address c}"
      "el_dr (sample_candidate 255 9 0) \<noteq> el_address (sample_candidate 255 9 0)" by (simp_all add: sample_candidate_def)
    then show ?thesis using election_agreement [OF refl i(2) refl refl refl refl e(2)] by blast
  qed
  ultimately show ?thesis using e(1) by simp
qed

end
