(* ===== verification/Ospf_Spf.thy ===== *)
theory Ospf_Spf
  imports Ospf_Lsa BTree
begin

text \<open>
  The crate \<open>rios-routing\<close>, shortest paths (\<open>ospf_spf.rs\<close>): the label-correcting search over
  router and transit-network vertices with its priority queue, and the computation of prefixes
  and border-router paths from its result.
\<close>

section \<open>Vertices\<close>

datatype Vertex = Router ipv4 | Network ipv4

fun vertex_key :: "Vertex \<Rightarrow> nat \<times> ipv4" where
  "vertex_key (Router a) = (0, a)"
| "vertex_key (Network a) = (1, a)"

lemma vertex_key_inj: "vertex_key a = vertex_key b \<longleftrightarrow> a = b"
  by (cases a; cases b) simp_all

text \<open>The derived order: routers before networks, then by address.\<close>

instantiation Vertex :: linorder
begin

definition less_eq_Vertex :: "Vertex \<Rightarrow> Vertex \<Rightarrow> bool" where
  "less_eq_Vertex a b = (vertex_key a \<le> vertex_key b)"

definition less_Vertex :: "Vertex \<Rightarrow> Vertex \<Rightarrow> bool" where
  "less_Vertex a b = (vertex_key a < vertex_key b)"

instance
proof
  fix a b c :: Vertex
  show "(a < b) = (a \<le> b \<and> \<not> b \<le> a)" by (simp add: less_eq_Vertex_def less_Vertex_def less_le_not_le)
  show "a \<le> a" by (simp add: less_eq_Vertex_def)
  show "a \<le> b \<Longrightarrow> b \<le> c \<Longrightarrow> a \<le> c" using order_trans by (simp only: less_eq_Vertex_def)
  show "a \<le> b \<Longrightarrow> b \<le> a \<Longrightarrow> a = b" by (simp add: less_eq_Vertex_def flip: vertex_key_inj)
  show "a \<le> b \<or> b \<le> a" by (simp add: less_eq_Vertex_def linear)
qed

end

lemma finite_Vertex: "finite (UNIV :: Vertex set)"
proof -
  have "UNIV = range Router \<union> range Network"
  proof (rule set_eqI)
    fix v show "v \<in> UNIV \<longleftrightarrow> v \<in> range Router \<union> range Network" by (cases v) auto
  qed
  moreover have "finite (range Router \<union> range Network)" by (intro finite_UnI finite_imageI finite)
  ultimately show ?thesis by (simp only:)
qed

section \<open>The graph\<close>

type_synonym label = "u32 \<times> ipv4 option"
type_synonym routers = "(ipv4, u8 \<times> RouterLink list) btree"
type_synonym networks = "(ipv4, ipv4 \<times> ipv4 list \<times> ipv4) btree"

definition live_lsas :: "Lsa list \<Rightarrow> Lsa list" where
  "live_lsas lsas = filter (\<lambda>l. lsa_age l < LSA_MAX_AGE) lsas"

definition router_map :: "Lsa list \<Rightarrow> routers" where
  "router_map lsas = bt_collect (List.map_filter (\<lambda>l. case lsa_body l of
     RouterLsa flags links \<Rightarrow> Some (lsa_advertising_router l, (flags, links)) | _ \<Rightarrow> None) lsas)"

definition network_map :: "Lsa list \<Rightarrow> networks" where
  "network_map lsas = bt_collect (List.map_filter (\<lambda>l. case lsa_body l of
     NetworkLsa netmask members \<Rightarrow> Some (lsa_link_state_id l, (netmask, members, lsa_advertising_router l))
     | _ \<Rightarrow> None) lsas)"

definition has_link :: "RouterLinkType \<Rightarrow> ipv4 \<Rightarrow> RouterLink list \<Rightarrow> bool" where
  "has_link kind i links = list_ex (\<lambda>back. rl_kind back = kind \<and> rl_id back = i) links"

fun edges :: "routers \<Rightarrow> networks \<Rightarrow> Vertex \<Rightarrow> (Vertex \<times> u32) list" where
  "edges routers networks (Router i) =
     (case bt_get routers i of
        None \<Rightarrow> []
      | Some (_, links) \<Rightarrow> List.map_filter (\<lambda>link. case rl_kind link of
            PointToPoint \<Rightarrow>
              (case bt_get routers (rl_id link) of
                 Some (_, back) \<Rightarrow>
                   if has_link PointToPoint i back then Some (Router (rl_id link), ucast (rl_metric link)) else None
               | None \<Rightarrow> None)
          | Transit \<Rightarrow>
              (case bt_get networks (rl_id link) of
                 Some (_, members, _) \<Rightarrow>
                   if i \<in> set members then Some (Network (rl_id link), ucast (rl_metric link)) else None
               | None \<Rightarrow> None)
          | _ \<Rightarrow> None) links)"
| "edges routers networks (Network i) =
     (case bt_get networks i of
        None \<Rightarrow> []
      | Some (_, members, _) \<Rightarrow> List.map_filter (\<lambda>member. case bt_get routers member of
            Some (_, links) \<Rightarrow> if has_link Transit i links then Some (Router member, 0) else None
          | None \<Rightarrow> None) members)"

section \<open>The search\<close>

type_synonym paths = "(Vertex, label) btree"
type_synonym pending = "(u32 \<times> Vertex \<times> ipv4 option) list"

definition first_hop_via :: "ipv4 \<Rightarrow> ipv4 option \<Rightarrow> Vertex \<Rightarrow> ipv4 option" where
  "first_hop_via self_id hop v =
     (case hop of Some h \<Rightarrow> Some h
      | None \<Rightarrow> (case v of Router i \<Rightarrow> if i \<noteq> self_id then Some i else None | _ \<Rightarrow> None))"

definition relax ::
  "ipv4 \<Rightarrow> u32 \<Rightarrow> ipv4 option \<Rightarrow> paths \<times> pending \<Rightarrow> Vertex \<times> u32 \<Rightarrow> paths \<times> pending" where
  "relax self_id cost hop = (\<lambda>(paths, pending) (v, metric).
     let distance = saturating_add cost metric;
         first = first_hop_via self_id hop v
     in if v \<noteq> Router self_id \<and> (case bt_get paths v of None \<Rightarrow> True | Some old \<Rightarrow> (distance, first) < old)
        then (bt_insert v (distance, first) paths, heap_push (distance, v, first) pending)
        else (paths, pending))"

subsection \<open>Termination\<close>

text \<open>
  Every accepted relaxation strictly lowers one label. Labels are ranked by a natural number, an
  absent label above all, so the sum of the ranks over the finitely many vertices decreases.
\<close>

definition hop_rank :: "ipv4 option \<Rightarrow> nat" where
  "hop_rank h = (case h of None \<Rightarrow> 0 | Some a \<Rightarrow> unat a + 1)"

definition label_rank :: "label option \<Rightarrow> nat" where
  "label_rank l = (case l of None \<Rightarrow> 2 ^ 65 | Some (c, h) \<Rightarrow> unat c * (2 ^ 32 + 1) + hop_rank h)"

definition total_rank :: "paths \<Rightarrow> nat" where
  "total_rank paths = (\<Sum>v\<in>UNIV. label_rank (bt_get paths v))"

lemma hop_rank_bound: "hop_rank h < 2 ^ 32 + 1"
  using unat_bound [where 'a = 32] by (auto simp: hop_rank_def split: option.splits)

lemma hop_rank_mono: "h < h' \<Longrightarrow> hop_rank h < hop_rank h'"
  by (cases h; cases h') (auto simp: hop_rank_def word_less_nat_alt)

lemma label_rank_mono: "l < l' \<Longrightarrow> label_rank (Some l) < label_rank (Some l')"
proof (cases l; cases l')
  fix c h c' h' assume less: "l < l'" and l: "l = (c, h)" "l' = (c', h')"
  show ?thesis
  proof (cases "c = c'")
    case True
    then show ?thesis using less l by (simp add: label_rank_def less_prod_def hop_rank_mono)
  next
    case False
    then have "c < c'" using less l by (auto simp: less_prod_def order.strict_iff_order)
    then have "unat c + 1 \<le> unat c'" by (simp add: word_less_nat_alt)
    then have "(unat c + 1) * (2 ^ 32 + 1) \<le> unat c' * (2 ^ 32 + 1)" by (rule mult_le_mono1)
    then show ?thesis using hop_rank_bound [of h] by (simp add: label_rank_def l)
  qed
qed

lemma label_rank_None: "label_rank (Some l) < label_rank None"
proof (cases l)
  case (Pair c h)
  have "unat c \<le> 2 ^ 32 - 1" using unat_le_max [of c] by simp
  then have "unat c * (2 ^ 32 + 1) \<le> (2 ^ 32 - 1) * (2 ^ 32 + 1)" by (rule mult_le_mono1)
  then show ?thesis using hop_rank_bound [of h] by (simp add: label_rank_def Pair)
qed

lemma total_rank_insert:
  assumes "case bt_get paths v of None \<Rightarrow> True | Some old \<Rightarrow> l < old"
  shows "total_rank (bt_insert v l paths) < total_rank paths"
  unfolding total_rank_def
proof (rule sum_strict_mono_ex1)
  have less: "label_rank (Some l) < label_rank (bt_get paths v)"
    using assms by (cases "bt_get paths v") (auto simp: label_rank_mono label_rank_None)
  then show "\<exists>u\<in>UNIV. label_rank (bt_get (bt_insert v l paths) u) < label_rank (bt_get paths u)"
    by (intro bexI [of _ v]) (simp_all add: bt.get_insert)
  show "\<forall>u\<in>UNIV. label_rank (bt_get (bt_insert v l paths) u) \<le> label_rank (bt_get paths u)"
    using less by (simp add: bt.get_insert)
qed (rule finite_Vertex)

lemma relax_progress:
  "relax self_id cost hop (paths, pending) e = (paths', pending') \<Longrightarrow>
     (paths', pending') = (paths, pending) \<or> total_rank paths' < total_rank paths"
  by (cases e) (auto simp: relax_def Let_def total_rank_insert split: if_splits)

lemma relax_all_progress:
  "foldl (relax self_id cost hop) (paths, pending) es = (paths', pending') \<Longrightarrow>
     (paths', pending') = (paths, pending) \<or> total_rank paths' < total_rank paths"
proof (induction es arbitrary: paths pending)
  case (Cons e es)
  obtain p q where pq: "relax self_id cost hop (paths, pending) e = (p, q)" by (metis surj_pair)
  show ?case
    using Cons.IH [of p q] Cons.prems pq relax_progress [OF pq] by auto
qed simp

function spf_loop :: "ipv4 \<Rightarrow> routers \<Rightarrow> networks \<Rightarrow> paths \<times> pending \<Rightarrow> paths" where
  "spf_loop self_id routers networks (paths, pending) =
     (case heap_pop (\<lambda>x. x) pending of
        None \<Rightarrow> paths
      | Some ((cost, current, hop), rest) \<Rightarrow>
          if bt_get paths current \<noteq> Some (cost, hop) then spf_loop self_id routers networks (paths, rest)
          else spf_loop self_id routers networks
            (foldl (relax self_id cost hop) (paths, rest) (edges routers networks current)))"
  by pat_completeness auto
termination
proof (relation "measures [\<lambda>(_, _, _, paths, _). total_rank paths, \<lambda>(_, _, _, _, pending). length pending]")
  fix self_id routers networks paths and pending rest :: pending and x y cost current hop
  assume pop: "heap_pop (\<lambda>x. x) pending = Some x" and x: "(y, rest) = x" "(cost, current) = y"
  have shorter: "length rest < length pending"
    using heap.pop_size [of "\<lambda>x. x" pending y rest] pop x by simp
  {
    fix c h assume "(c, h) = current"
    show "((self_id, routers, networks, paths, rest), (self_id, routers, networks, paths, pending))
        \<in> measures [\<lambda>(_, _, _, paths, _). total_rank paths, \<lambda>(_, _, _, _, pending). length pending]"
      using shorter by simp
  next
    fix c h
    obtain p q where pq: "foldl (relax self_id cost h) (paths, rest) (edges routers networks c) = (p, q)"
      by (metis surj_pair)
    show "((self_id, routers, networks, foldl (relax self_id cost h) (paths, rest) (edges routers networks c)),
        (self_id, routers, networks, paths, pending))
        \<in> measures [\<lambda>(_, _, _, paths, _). total_rank paths, \<lambda>(_, _, _, _, pending). length pending]"
      using relax_all_progress [OF pq] shorter by (auto simp: pq)
  }
qed simp

declare spf_loop.simps [simp del]

subsection \<open>Walks\<close>

text \<open>The reference: a walk from the root, its cost, and the first router on it other than the root.\<close>

inductive walk :: "ipv4 \<Rightarrow> routers \<Rightarrow> networks \<Rightarrow> Vertex list \<Rightarrow> u32 \<Rightarrow> bool"
  for self_id routers networks where
  start: "walk self_id routers networks [Router self_id] 0"
| step: "walk self_id routers networks vs c \<Longrightarrow> (v, m) \<in> set (edges routers networks (last vs)) \<Longrightarrow>
     walk self_id routers networks (vs @ [v]) (saturating_add c m)"

fun first_router :: "ipv4 \<Rightarrow> Vertex list \<Rightarrow> ipv4 option" where
  "first_router self_id [] = None"
| "first_router self_id (Router i # vs) = (if i \<noteq> self_id then Some i else first_router self_id vs)"
| "first_router self_id (Network i # vs) = first_router self_id vs"

lemma first_router_snoc:
  "first_router self_id (vs @ [v]) = first_hop_via self_id (first_router self_id vs) v"
  by (induction self_id vs rule: first_router.induct) (auto simp: first_hop_via_def split: Vertex.splits)

lemma walk_nonempty: "walk self_id routers networks vs c \<Longrightarrow> vs \<noteq> [] \<and> hd vs = Router self_id"
  by (induction rule: walk.induct) auto

definition justified :: "ipv4 \<Rightarrow> routers \<Rightarrow> networks \<Rightarrow> Vertex \<Rightarrow> label \<Rightarrow> bool" where
  "justified self_id routers networks v l =
     (\<exists>vs. walk self_id routers networks vs (fst l) \<and> last vs = v \<and> first_router self_id vs = snd l)"

subsection \<open>The loop invariant\<close>

definition relaxed :: "ipv4 \<Rightarrow> paths \<Rightarrow> label \<Rightarrow> Vertex \<times> u32 \<Rightarrow> bool" where
  "relaxed self_id paths l e =
     (fst e = Router self_id \<or>
      (\<exists>l'. bt_get paths (fst e) = Some l' \<and>
        l' \<le> (saturating_add (fst l) (snd e), first_hop_via self_id (snd l) (fst e))))"

definition spf_inv :: "ipv4 \<Rightarrow> routers \<Rightarrow> networks \<Rightarrow> paths \<times> pending \<Rightarrow> bool" where
  "spf_inv self_id routers networks = (\<lambda>(paths, pending).
     bt_wf paths \<and> bt_get paths (Router self_id) = Some (0, None) \<and>
     (\<forall>v l. bt_get paths v = Some l \<longrightarrow> justified self_id routers networks v l) \<and>
     (\<forall>v l. bt_get paths v = Some l \<longrightarrow>
        (fst l, v, snd l) \<in> set pending \<or> (\<forall>e\<in>set (edges routers networks v). relaxed self_id paths l e)))"

definition improves :: "ipv4 \<Rightarrow> routers \<Rightarrow> networks \<Rightarrow> paths \<times> pending \<Rightarrow> paths \<times> pending \<Rightarrow> bool" where
  "improves self_id routers networks = (\<lambda>(paths, pending) (paths', pending').
     (bt_wf paths \<longrightarrow> bt_wf paths') \<and> set pending \<subseteq> set pending' \<and>
     bt_get paths' (Router self_id) = bt_get paths (Router self_id) \<and>
     (\<forall>v l. bt_get paths v = Some l \<longrightarrow> (\<exists>l'. bt_get paths' v = Some l' \<and> l' \<le> l)) \<and>
     (\<forall>v l. bt_get paths' v = Some l \<longrightarrow> bt_get paths v = Some l \<or>
        (fst l, v, snd l) \<in> set pending' \<and> justified self_id routers networks v l))"

lemma improvesD:
  assumes "improves self_id routers networks (p, q) (p', q')"
  shows "bt_wf p \<Longrightarrow> bt_wf p'" "set q \<subseteq> set q'" "bt_get p' (Router self_id) = bt_get p (Router self_id)"
    "bt_get p v = Some l \<Longrightarrow> \<exists>l'. bt_get p' v = Some l' \<and> l' \<le> l"
    "bt_get p' v = Some l \<Longrightarrow> bt_get p v = Some l \<or>
       (fst l, v, snd l) \<in> set q' \<and> justified self_id routers networks v l"
  using assms unfolding improves_def case_prod_conv by blast+

lemma improvesI:
  assumes "bt_wf p \<Longrightarrow> bt_wf p'" "set q \<subseteq> set q'" "bt_get p' (Router self_id) = bt_get p (Router self_id)"
    and "\<And>v l. bt_get p v = Some l \<Longrightarrow> \<exists>l'. bt_get p' v = Some l' \<and> l' \<le> l"
    and "\<And>v l. bt_get p' v = Some l \<Longrightarrow> bt_get p v = Some l \<or>
       (fst l, v, snd l) \<in> set q' \<and> justified self_id routers networks v l"
  shows "improves self_id routers networks (p, q) (p', q')"
  using assms unfolding improves_def case_prod_conv by blast

lemma improves_refl: "improves self_id routers networks s s"
  by (cases s) (auto intro!: improvesI)

lemma improves_trans:
  assumes "improves self_id routers networks s t" "improves self_id routers networks t u"
  shows "improves self_id routers networks s u"
proof -
  obtain p q p' q' p'' q'' where s: "s = (p, q)" "t = (p', q')" "u = (p'', q'')" by (metis surj_pair)
  note st = improvesD [OF assms(1) [unfolded s]] and tu = improvesD [OF assms(2) [unfolded s]]
  show ?thesis
    unfolding s
  proof (rule improvesI)
    fix v l assume "bt_get p v = Some l"
    then obtain l' where "bt_get p' v = Some l'" "l' \<le> l" using st(4) by blast
    then show "\<exists>l'. bt_get p'' v = Some l' \<and> l' \<le> l" using tu(4) order_trans by blast
  next
    fix v l assume "bt_get p'' v = Some l"
    then show "bt_get p v = Some l \<or> (fst l, v, snd l) \<in> set q'' \<and> justified self_id routers networks v l"
      using tu(5) st(5) tu(2) by blast
  qed (use st tu in auto)
qed

lemma relaxed_improves:
  assumes "relaxed self_id paths l e" "improves self_id routers networks (paths, q) (paths', q')"
  shows "relaxed self_id paths' l e"
proof (cases "fst e = Router self_id")
  case False
  then obtain l' where l': "bt_get paths (fst e) = Some l'"
    "l' \<le> (saturating_add (fst l) (snd e), first_hop_via self_id (snd l) (fst e))"
    using assms(1) unfolding relaxed_def by blast
  then obtain l'' where "bt_get paths' (fst e) = Some l''" "l'' \<le> l'"
    using improvesD(4) [OF assms(2)] by blast
  then show ?thesis using l'(2) order_trans unfolding relaxed_def by blast
qed (simp add: relaxed_def)

lemma relax_improves:
  assumes "justified self_id routers networks u (cost, hop)" "e \<in> set (edges routers networks u)"
  shows "improves self_id routers networks s (relax self_id cost hop s e)"
    and "relaxed self_id (fst (relax self_id cost hop s e)) (cost, hop) e"
proof -
  obtain paths pending v m where s: "s = (paths, pending)" and e: "e = (v, m)" by (metis surj_pair)
  let ?l = "(saturating_add cost m, first_hop_via self_id hop v)"
  obtain vs where vs: "walk self_id routers networks vs cost" "last vs = u" "first_router self_id vs = hop"
    using assms(1) by (auto simp: justified_def)
  have "walk self_id routers networks (vs @ [v]) (saturating_add cost m)"
    using assms(2) vs by (intro walk.step) (simp_all add: e)
  then have just: "justified self_id routers networks v ?l"
    unfolding justified_def by (intro exI [of _ "vs @ [v]"]) (simp add: first_router_snoc vs)
  let ?accept = "v \<noteq> Router self_id \<and> (case bt_get paths v of None \<Rightarrow> True | Some old \<Rightarrow> ?l < old)"
  show "improves self_id routers networks s (relax self_id cost hop s e)"
  proof (cases ?accept)
    case True
    then have r: "relax self_id cost hop s e = (bt_insert v ?l paths, (saturating_add cost m, v, first_hop_via self_id hop v) # pending)"
      by (simp add: relax_def s e Let_def heap_push_def)
    have old: "?l \<le> old" if "bt_get paths v = Some old" for old
      using True that by auto
    show ?thesis
      unfolding r unfolding s
    proof (rule improvesI)
      fix w l assume w: "bt_get paths w = Some l"
      show "\<exists>l'. bt_get (bt_insert v ?l paths) w = Some l' \<and> l' \<le> l"
        using old [of l] w by (cases "w = v") (simp_all only: bt.insert_same bt.insert_other option.inject ex_simps simp_thms order_refl)
    next
      fix w l assume w: "bt_get (bt_insert v ?l paths) w = Some l"
      show "bt_get paths w = Some l \<or> (fst l, w, snd l) \<in> set ((saturating_add cost m, v, first_hop_via self_id hop v) # pending) \<and>
          justified self_id routers networks w l"
        using w just by (cases "w = v") (auto simp: bt.get_insert)
    qed (use True in \<open>auto simp: bt.get_insert wf_bt_insert\<close>)
  next
    case False
    then have "relax self_id cost hop s e = s" by (auto simp: relax_def s e Let_def)
    then show ?thesis by (simp add: improves_refl)
  qed
  show "relaxed self_id (fst (relax self_id cost hop s e)) (cost, hop) e"
  proof (cases ?accept)
    case True
    then show ?thesis by (simp add: relax_def relaxed_def s e Let_def bt.get_insert)
  next
    case False
    then have "v = Router self_id \<or> (\<exists>old. bt_get paths v = Some old \<and> old \<le> ?l)"
      by (cases "bt_get paths v") (simp_all add: not_less del: split_paired_Ex)
    moreover have "relax self_id cost hop s e = s" using False by (auto simp: relax_def s e Let_def)
    ultimately show ?thesis by (simp add: relaxed_def s e del: split_paired_Ex)
  qed
qed

lemma relax_all_improves:
  assumes "justified self_id routers networks u (cost, hop)" "set es \<subseteq> set (edges routers networks u)"
  shows "improves self_id routers networks s (foldl (relax self_id cost hop) s es) \<and>
    (\<forall>e\<in>set es. relaxed self_id (fst (foldl (relax self_id cost hop) s es)) (cost, hop) e)"
  using assms(2)
proof (induction es arbitrary: s)
  case (Cons e es)
  let ?t = "relax self_id cost hop s e" and ?u = "foldl (relax self_id cost hop) s (e # es)"
  have e: "e \<in> set (edges routers networks u)" using Cons.prems by simp
  have IH: "improves self_id routers networks ?t ?u" "\<forall>e\<in>set es. relaxed self_id (fst ?u) (cost, hop) e"
    using Cons.IH [of ?t] Cons.prems by simp_all
  have "relaxed self_id (fst ?u) (cost, hop) e"
    using relaxed_improves [OF relax_improves(2) [OF assms(1) e, of s], of routers networks "snd ?t" "fst ?u" "snd ?u"] IH(1)
    by simp
  moreover have "improves self_id routers networks s ?u"
    by (rule improves_trans [OF relax_improves(1) [OF assms(1) e] IH(1)])
  ultimately show ?case using IH(2) by simp
qed (simp add: improves_refl)

lemma spf_invD:
  assumes "spf_inv self_id routers networks (p, q)"
  shows "bt_wf p" "bt_get p (Router self_id) = Some (0, None)"
    "bt_get p v = Some l \<Longrightarrow> justified self_id routers networks v l"
    "bt_get p v = Some l \<Longrightarrow> (fst l, v, snd l) \<in> set q \<or> (\<forall>e\<in>set (edges routers networks v). relaxed self_id p l e)"
  using assms unfolding spf_inv_def case_prod_conv by blast+

lemma spf_invI:
  assumes "bt_wf p" "bt_get p (Router self_id) = Some (0, None)"
    and "\<And>v l. bt_get p v = Some l \<Longrightarrow> justified self_id routers networks v l"
    and "\<And>v l. bt_get p v = Some l \<Longrightarrow>
      (fst l, v, snd l) \<in> set q \<or> (\<forall>e\<in>set (edges routers networks v). relaxed self_id p l e)"
  shows "spf_inv self_id routers networks (p, q)"
  using assms unfolding spf_inv_def case_prod_conv by blast

lemma pop_split: "heap_pop (\<lambda>x. x) q = Some (x, rest) \<Longrightarrow> set q = insert x (set rest)"
  using heap.elems_pop [of "\<lambda>x. x" q x rest] by (metis set_mset_add_mset_insert set_mset_mset)

lemma spf_inv_stale:
  assumes "spf_inv self_id routers networks (p, q)" "heap_pop (\<lambda>x. x) q = Some ((cost, v, hop), rest)"
    and "bt_get p v \<noteq> Some (cost, hop)"
  shows "spf_inv self_id routers networks (p, rest)"
proof (rule spf_invI)
  note inv = spf_invD [OF assms(1)]
  fix u l assume l: "bt_get p u = Some l"
  show "(fst l, u, snd l) \<in> set rest \<or> (\<forall>e\<in>set (edges routers networks u). relaxed self_id p l e)"
    using inv(4) [OF l] pop_split [OF assms(2)] assms(3) l by auto
qed (use spf_invD [OF assms(1)] in blast)+

lemma spf_inv_relax:
  assumes "spf_inv self_id routers networks (p, q)" "heap_pop (\<lambda>x. x) q = Some ((cost, v, hop), rest)"
    and "bt_get p v = Some (cost, hop)"
  shows "spf_inv self_id routers networks (foldl (relax self_id cost hop) (p, rest) (edges routers networks v))"
proof -
  note inv = spf_invD [OF assms(1)]
  obtain p' q' where f: "foldl (relax self_id cost hop) (p, rest) (edges routers networks v) = (p', q')"
    by (metis surj_pair)
  have imp: "improves self_id routers networks (p, rest) (p', q')"
    and all_relaxed: "\<forall>e\<in>set (edges routers networks v). relaxed self_id p' (cost, hop) e"
    using relax_all_improves [OF inv(3) [OF assms(3)], of "edges routers networks v" "(p, rest)"] f by simp_all
  note D = improvesD [OF imp]
  have "spf_inv self_id routers networks (p', q')"
  proof (rule spf_invI)
    fix u l assume l: "bt_get p' u = Some l"
    from D(5) [OF l] inv(3) show "justified self_id routers networks u l" by blast
    from D(5) [OF l] show "(fst l, u, snd l) \<in> set q' \<or> (\<forall>e\<in>set (edges routers networks u). relaxed self_id p' l e)"
    proof
      assume old: "bt_get p u = Some l"
      show ?thesis
      proof (cases "u = v")
        case True
        then show ?thesis using old assms(3) all_relaxed by simp
      next
        case False
        then have "(fst l, u, snd l) \<in> set q \<Longrightarrow> (fst l, u, snd l) \<in> set q'"
          using pop_split [OF assms(2)] D(2) by auto
        then show ?thesis using inv(4) [OF old] relaxed_improves [OF _ imp] by blast
      qed
    qed simp
  qed (use inv D in simp_all)
  then show ?thesis by (simp add: f)
qed

lemma spf_loop_inv:
  "spf_inv self_id routers networks s \<Longrightarrow> spf_inv self_id routers networks (spf_loop self_id routers networks s, [])"
proof (induction self_id routers networks s rule: spf_loop.induct)
  case (1 self_id routers networks paths pending)
  show ?case
  proof (cases "heap_pop (\<lambda>x. x) pending")
    case None
    then have "pending = []" by (simp add: heap.pop_None)
    then show ?thesis using "1.prems" by (subst spf_loop.simps) (simp add: heap_pop_def heap_peek_def)
  next
    case (Some x)
    obtain cost v hop rest where x: "x = ((cost, v, hop), rest)" by (metis surj_pair)
    note pop = Some [unfolded x]
    show ?thesis
    proof (cases "bt_get paths v = Some (cost, hop)")
      case True
      show ?thesis
        using "1.IH"(2) [OF pop refl refl refl] spf_inv_relax [OF "1.prems" pop True] True
        by (subst spf_loop.simps) (simp add: pop)
    next
      case False
      show ?thesis
        using "1.IH"(1) [OF pop refl refl refl] spf_inv_stale [OF "1.prems" pop False] False
        by (subst spf_loop.simps) (simp add: pop)
    qed
  qed
qed

definition spf_paths :: "ipv4 \<Rightarrow> routers \<Rightarrow> networks \<Rightarrow> paths" where
  "spf_paths self_id routers networks =
     spf_loop self_id routers networks ([(Router self_id, (0, None))], [(0, Router self_id, None)])"

lemma spf_paths_inv: "spf_inv self_id routers networks (spf_paths self_id routers networks, [])"
  unfolding spf_paths_def
proof (rule spf_loop_inv, rule spf_invI)
  show "bt_wf [(Router self_id, (0::u32, None :: ipv4 option))]" by (simp add: bt_wf_def)
  fix v l assume "bt_get [(Router self_id, (0::u32, None :: ipv4 option))] v = Some l"
  then have vl: "v = Router self_id" "l = (0, None)" by (simp_all add: bt_get_def split: if_splits)
  then show "(fst l, v, snd l) \<in> set [(0, Router self_id, None)] \<or>
      (\<forall>e\<in>set (edges routers networks v). relaxed self_id [(Router self_id, 0, None)] l e)" by simp
  show "justified self_id routers networks v l"
    unfolding justified_def vl by (intro exI [of _ "[Router self_id]"]) (simp add: walk.start)
qed (simp add: bt_get_def)

text \<open>Every walk is bounded below by the label of the vertex it ends in.\<close>

lemma spf_lower_bound:
  assumes "walk self_id routers networks vs c"
  shows "\<exists>l. bt_get (spf_paths self_id routers networks) (last vs) = Some l \<and> fst l \<le> c"
  using assms
proof (induction rule: walk.induct)
  case start
  show ?case using spf_invD(2) [OF spf_paths_inv] by simp
next
  case (step vs c v m)
  let ?p = "spf_paths self_id routers networks"
  note inv = spf_invD [OF spf_paths_inv [of self_id routers networks]]
  obtain l where l: "bt_get ?p (last vs) = Some l" "fst l \<le> c" using step.IH by blast
  have "relaxed self_id ?p l (v, m)" using inv(4) [OF l(1)] step.hyps(2) by auto
  then consider "v = Router self_id"
    | l' where "bt_get ?p v = Some l'" "l' \<le> (saturating_add (fst l) m, first_hop_via self_id (snd l) v)"
    unfolding relaxed_def by auto
  then show ?case
  proof cases
    case 1
    then show ?thesis using inv(2) by simp
  next
    case 2
    have "fst l' \<le> saturating_add (fst l) m" using 2(2) by (auto simp: less_eq_prod_def)
    also have "\<dots> \<le> saturating_add c m" using l(2) by (rule saturating_add_mono)
    finally show ?thesis using 2(1) by auto
  qed
qed

lemma spf_sound:
  "bt_get (spf_paths self_id routers networks) v = Some l \<Longrightarrow> justified self_id routers networks v l"
  by (rule spf_invD(3) [OF spf_paths_inv])

subsection \<open>Reciprocity\<close>

lemma edges_router:
  "(v, m) \<in> set (edges routers networks (Router i)) \<longleftrightarrow>
     (\<exists>flags links link. bt_get routers i = Some (flags, links) \<and> link \<in> set links \<and> m = ucast (rl_metric link) \<and>
       (rl_kind link = PointToPoint \<and> v = Router (rl_id link) \<and>
          (\<exists>f back. bt_get routers (rl_id link) = Some (f, back) \<and> has_link PointToPoint i back) \<or>
        rl_kind link = Transit \<and> v = Network (rl_id link) \<and>
          (\<exists>k members adv. bt_get networks (rl_id link) = Some (k, members, adv) \<and> i \<in> set members)))"
proof (cases "bt_get routers i")
  case (Some r)
  obtain flags links where r: "r = (flags, links)" by (cases r)
  have step: "(case rl_kind link of
        PointToPoint \<Rightarrow> (case bt_get routers (rl_id link) of
            Some (_, back) \<Rightarrow> if has_link PointToPoint i back then Some (Router (rl_id link), ucast (rl_metric link)) else None
          | None \<Rightarrow> None)
      | Transit \<Rightarrow> (case bt_get networks (rl_id link) of
            Some (_, members, _) \<Rightarrow> if i \<in> set members then Some (Network (rl_id link), ucast (rl_metric link)) else None
          | None \<Rightarrow> None)
      | _ \<Rightarrow> None) = Some (v, m) \<longleftrightarrow> m = ucast (rl_metric link) \<and>
       (rl_kind link = PointToPoint \<and> v = Router (rl_id link) \<and>
          (\<exists>f back. bt_get routers (rl_id link) = Some (f, back) \<and> has_link PointToPoint i back) \<or>
        rl_kind link = Transit \<and> v = Network (rl_id link) \<and>
          (\<exists>k members adv. bt_get networks (rl_id link) = Some (k, members, adv) \<and> i \<in> set members))" for link
    by (cases "rl_kind link") (auto split: option.splits if_splits)
  show ?thesis
    by (auto simp: Some r in_map_filter step)
qed simp

lemma edges_network:
  "(v, m) \<in> set (edges routers networks (Network i)) \<longleftrightarrow>
     (\<exists>k members adv member flags links. bt_get networks i = Some (k, members, adv) \<and> member \<in> set members \<and>
       bt_get routers member = Some (flags, links) \<and> has_link Transit i links \<and> v = Router member \<and> m = 0)"
proof (cases "bt_get networks i")
  case (Some n)
  obtain k members adv where n: "n = (k, members, adv)" by (cases n)
  have step: "(case bt_get routers member of Some (_, links) \<Rightarrow> if has_link Transit i links then Some (Router member, 0) else None
      | None \<Rightarrow> None) = Some (v, m) \<longleftrightarrow>
    (\<exists>flags links. bt_get routers member = Some (flags, links) \<and> has_link Transit i links \<and> v = Router member \<and> m = 0)" for member
    by (auto split: option.splits if_splits)
  show ?thesis
    by (auto simp: Some n in_map_filter step Bex_def)
qed simp

text \<open>A link counts only when its far end advertises it back, so edges come in pairs.\<close>

lemma edges_symmetric:
  assumes "(v, m) \<in> set (edges routers networks u)"
  shows "\<exists>m'. (u, m') \<in> set (edges routers networks v)"
proof (cases u)
  case (Router i)
  obtain flags links link where l: "bt_get routers i = Some (flags, links)" "link \<in> set links"
    and c: "rl_kind link = PointToPoint \<and> v = Router (rl_id link) \<and>
        (\<exists>f back. bt_get routers (rl_id link) = Some (f, back) \<and> has_link PointToPoint i back) \<or>
      rl_kind link = Transit \<and> v = Network (rl_id link) \<and>
        (\<exists>k members adv. bt_get networks (rl_id link) = Some (k, members, adv) \<and> i \<in> set members)"
    using assms unfolding Router edges_router by blast
  have here: "has_link (rl_kind link) (rl_id link) links" using l(2) by (auto simp: has_link_def list_ex_iff)
  from c show ?thesis
  proof
    assume p: "rl_kind link = PointToPoint \<and> v = Router (rl_id link) \<and>
        (\<exists>f back. bt_get routers (rl_id link) = Some (f, back) \<and> has_link PointToPoint i back)"
    then obtain f far where far: "bt_get routers (rl_id link) = Some (f, far)" "has_link PointToPoint i far" by blast
    then obtain b where b: "b \<in> set far" "rl_kind b = PointToPoint" "rl_id b = i"
      by (auto simp: has_link_def list_ex_iff)
    have "(u, ucast (rl_metric b)) \<in> set (edges routers networks v)"
      using p far b l here unfolding Router by (auto simp: edges_router simp del: edges.simps)
    then show ?thesis ..
  next
    assume t: "rl_kind link = Transit \<and> v = Network (rl_id link) \<and>
        (\<exists>k members adv. bt_get networks (rl_id link) = Some (k, members, adv) \<and> i \<in> set members)"
    then have "(u, 0) \<in> set (edges routers networks v)"
      using l(1) here unfolding Router by (fastforce simp: edges_network simp del: edges.simps)
    then show ?thesis ..
  qed
next
  case (Network i)
  obtain k members adv member flags links where n: "bt_get networks i = Some (k, members, adv)" "member \<in> set members"
    "bt_get routers member = Some (flags, links)" "has_link Transit i links" "v = Router member"
    using assms unfolding Network edges_network by blast
  then obtain b where b: "b \<in> set links" "rl_kind b = Transit" "rl_id b = i"
    by (auto simp: has_link_def list_ex_iff)
  have "(u, ucast (rl_metric b)) \<in> set (edges routers networks v)"
    using n b unfolding Network by (auto simp: edges_router simp del: edges.simps)
  then show ?thesis ..
qed

definition adjacent :: "routers \<Rightarrow> networks \<Rightarrow> Vertex \<Rightarrow> Vertex \<Rightarrow> bool" where
  "adjacent routers networks u v = (\<exists>m. (v, m) \<in> set (edges routers networks u))"

lemma spf_reaches:
  "bt_get (spf_paths a routers networks) v \<noteq> None \<longleftrightarrow> (adjacent routers networks)\<^sup>*\<^sup>* (Router a) v"
proof
  assume "bt_get (spf_paths a routers networks) v \<noteq> None"
  then obtain vs c where vs: "walk a routers networks vs c" "last vs = v"
    using spf_sound by (fastforce simp: justified_def)
  have "(adjacent routers networks)\<^sup>*\<^sup>* (Router a) (last vs)"
    using vs(1) by (induction rule: walk.induct) (auto simp: adjacent_def intro: rtranclp.rtrancl_into_rtrancl)
  then show "(adjacent routers networks)\<^sup>*\<^sup>* (Router a) v" using vs(2) by simp
next
  assume "(adjacent routers networks)\<^sup>*\<^sup>* (Router a) v"
  then have "\<exists>vs c. walk a routers networks vs c \<and> last vs = v"
  proof (induction rule: rtranclp_induct)
    case base
    show ?case using walk.start [of a routers networks] by (metis last.simps)
  next
    case (step u w)
    then obtain vs c m where "walk a routers networks vs c" "last vs = u" "(w, m) \<in> set (edges routers networks u)"
      by (auto simp: adjacent_def)
    then show ?case using walk.step [of a routers networks vs c w m] by (metis last_snoc)
  qed
  then show "bt_get (spf_paths a routers networks) v \<noteq> None" using spf_lower_bound by fastforce
qed

lemma adjacent_sym: "symp (adjacent routers networks)"
  unfolding symp_def adjacent_def using edges_symmetric by blast

section \<open>Properties\<close>

text \<open>A triangle of three routers: the direct link 1--3 costs 30, the detour over 2 costs 20.\<close>

definition triangle :: routers where
  "triangle =
     [(1, (0, [\<lparr>rl_id = 2, rl_data = 0, rl_kind = PointToPoint, rl_metric = 10\<rparr>,
              \<lparr>rl_id = 3, rl_data = 0, rl_kind = PointToPoint, rl_metric = 30\<rparr>])),
      (2, (0, [\<lparr>rl_id = 1, rl_data = 0, rl_kind = PointToPoint, rl_metric = 10\<rparr>,
              \<lparr>rl_id = 3, rl_data = 0, rl_kind = PointToPoint, rl_metric = 10\<rparr>])),
      (3, (0, [\<lparr>rl_id = 1, rl_data = 0, rl_kind = PointToPoint, rl_metric = 30\<rparr>,
              \<lparr>rl_id = 2, rl_data = 0, rl_kind = PointToPoint, rl_metric = 10\<rparr>]))]"

lemma triangle_edges:
  "edges triangle [] (Router 1) = [(Router 2, 10), (Router 3, 30)]"
  "edges triangle [] (Router 2) = [(Router 1, 10), (Router 3, 10)]"
  "edges triangle [] (Router 3) = [(Router 1, 30), (Router 2, 10)]"
  by (simp_all add: triangle_def bt_get_def has_link_def)

lemmas spf_eval =
  spf_loop.simps heap_pop_def heap_peek_def heap_push_def bt_get_def relax_def first_hop_via_def
  saturating_add_def less_prod_def' less_Vertex_def Let_def

text \<open>
  C1. The label the shortest-path loop leaves at a vertex is the cost of an actual walk from the
  calculating router with that first hop, and no walk to the vertex is cheaper. The loop
  terminates on every database, so the label always exists as a value of \<open>spf_paths\<close>.
\<close>

theorem spf_shortest:
  assumes "bt_get (spf_paths self_id routers networks) v = Some (cost, hop)"
  shows "(\<exists>vs. walk self_id routers networks vs cost \<and> last vs = v \<and> first_router self_id vs = hop) \<and>
    (\<forall>vs c. walk self_id routers networks vs c \<and> last vs = v \<longrightarrow> cost \<le> c)"
proof -
  have "\<exists>vs. walk self_id routers networks vs cost \<and> last vs = v \<and> first_router self_id vs = hop"
    using spf_sound [OF assms] by (simp add: justified_def)
  moreover have "cost \<le> c" if "walk self_id routers networks vs c" "last vs = v" for vs c
    using spf_lower_bound [OF that(1)] that(2) assms by auto
  ultimately show ?thesis by blast
qed

theorem spf_shortest_witness:
  "(\<exists>vs. walk 1 triangle [] vs 20 \<and> last vs = Router 3 \<and> first_router 1 vs = Some 2) \<and>
   \<not> (\<exists>vs c. walk 1 triangle [] vs c \<and> last vs = Router 3 \<and> c < 20)"
proof -
  have "bt_get (spf_paths 1 triangle []) (Router 3) = Some (20, Some 2)"
    by (simp add: spf_paths_def spf_eval triangle_edges del: edges.simps)
  from spf_shortest [OF this] show ?thesis by (meson not_le)
qed

text \<open>
  C27. A vertex is labelled exactly when the reciprocated links of the database connect it to the
  calculating router, and reachability is mutual: two routers that hold the same database agree on
  whether they reach each other.
\<close>

theorem spf_reachability:
  "(bt_get (spf_paths a routers networks) v \<noteq> None \<longleftrightarrow> (adjacent routers networks)\<^sup>*\<^sup>* (Router a) v) \<and>
   (bt_get (spf_paths a routers networks) (Router b) \<noteq> None \<longleftrightarrow>
    bt_get (spf_paths b routers networks) (Router a) \<noteq> None)"
  unfolding spf_reaches using symp_rtranclp [OF adjacent_sym] by (auto elim: sympE)

end
