(* ===== verification/Ospf_Routes.thy ===== *)
theory Ospf_Routes
  imports Ospf_Spf
begin

text \<open>
  The crate \<open>rios-routing\<close>, route calculation (\<open>ospf_spf.rs\<close>): stub and transit prefixes of the
  area, inter-area summaries, AS-external prefixes and the paths to AS boundary routers. A map
  keyed by \<open>Ipv4Network\<close> is keyed by the pair its derived order compares.
\<close>

section \<open>Routes\<close>

record OspfSpfRoute =
  sr_prefix :: Ipv4Network
  sr_metric :: u32
  sr_internal_cost :: u32
  sr_first_hop :: ipv4
  sr_origin :: ipv4
  sr_source :: RouteSource

type_synonym spf_routes = "(ipv4 \<times> u8, OspfSpfRoute) btree"

definition network_key :: "Ipv4Network \<Rightarrow> ipv4 \<times> u8" where
  "network_key n = (nw_address n, nw_prefix_len n)"

definition prefix_of :: "ipv4 \<Rightarrow> ipv4 \<Rightarrow> Ipv4Network option" where
  "prefix_of address netmask =
     (case Ipv4InterfaceConfig_from_mask address netmask of
        Inl _ \<Rightarrow> None
      | Inr ip \<Rightarrow> (case Ipv4Network_new address (ic_prefix_len ip) of Inl _ \<Rightarrow> None | Inr n \<Rightarrow> Some n))"

definition source_rank :: "RouteSource \<Rightarrow> nat" where
  "source_rank s = (case s of Ospf \<Rightarrow> 0 | OspfInterArea \<Rightarrow> 1 | OspfExternal1 \<Rightarrow> 2 | _ \<Rightarrow> 3)"

definition preference :: "OspfSpfRoute \<Rightarrow> nat \<times> u32 \<times> u32 \<times> ipv4 \<times> ipv4" where
  "preference r =
     (source_rank (sr_source r), sr_metric r, sr_internal_cost r, sr_origin r, sr_first_hop r)"

definition install :: "spf_routes \<Rightarrow> OspfSpfRoute \<Rightarrow> spf_routes" where
  "install routes route =
     (if sr_metric route < 0x00ffffff \<and>
         (case bt_get routes (network_key (sr_prefix route)) of None \<Rightarrow> True
          | Some old \<Rightarrow> preference route < preference old)
      then bt_insert (network_key (sr_prefix route)) route routes else routes)"

record OspfAsbrPath =
  ap_metric :: u32
  ap_first_hop :: ipv4
  ap_inter_area :: bool

record OspfSpfResult =
  res_routes :: spf_routes
  res_asbrs :: "(ipv4, OspfAsbrPath) btree"

section \<open>The area's own prefixes\<close>

definition hop_or :: "ipv4 \<Rightarrow> ipv4 option \<Rightarrow> ipv4" where
  "hop_or self_id hop = (case hop of None \<Rightarrow> self_id | Some h \<Rightarrow> h)"

fun vertex_routes :: "ipv4 \<Rightarrow> routers \<Rightarrow> networks \<Rightarrow> Vertex \<times> label \<Rightarrow> OspfSpfRoute list" where
  "vertex_routes self_id routers networks (Router i, cost, hop) =
     (case bt_get routers i of
        None \<Rightarrow> []
      | Some (_, links) \<Rightarrow> List.map_filter (\<lambda>link.
          if rl_kind link = Stub then
            (case prefix_of (rl_id link) (rl_data link) of
               None \<Rightarrow> None
             | Some p \<Rightarrow> Some \<lparr>sr_prefix = p, sr_metric = saturating_add cost (ucast (rl_metric link)),
                 sr_internal_cost = cost, sr_first_hop = hop_or self_id hop, sr_origin = i, sr_source = Ospf\<rparr>)
          else None) links)"
| "vertex_routes self_id routers networks (Network i, cost, hop) =
     (case bt_get networks i of
        None \<Rightarrow> []
      | Some (netmask, _, origin) \<Rightarrow>
          (case prefix_of i netmask of
             None \<Rightarrow> []
           | Some p \<Rightarrow> [\<lparr>sr_prefix = p, sr_metric = cost, sr_internal_cost = cost,
               sr_first_hop = hop_or self_id hop, sr_origin = origin, sr_source = Ospf\<rparr>]))"

definition intra_routes :: "ipv4 \<Rightarrow> routers \<Rightarrow> networks \<Rightarrow> paths \<Rightarrow> spf_routes" where
  "intra_routes self_id routers networks paths =
     foldl install [] (concat (map (vertex_routes self_id routers networks) paths))"

section \<open>Summaries and externals\<close>

definition router_flag :: "routers \<Rightarrow> ipv4 \<Rightarrow> u8 \<Rightarrow> bool" where
  "router_flag routers i flag =
     (case bt_get routers i of None \<Rightarrow> False | Some (flags, _) \<Rightarrow> flags AND flag \<noteq> 0)"

definition hop_path :: "paths \<Rightarrow> ipv4 \<Rightarrow> (u32 \<times> ipv4) option" where
  "hop_path paths i =
     (case bt_get paths (Router i) of Some (cost, Some hop) \<Rightarrow> Some (cost, hop) | _ \<Rightarrow> None)"

definition asbr_step ::
  "ipv4 \<Rightarrow> routers \<Rightarrow> paths \<Rightarrow> (ipv4, u32 \<times> ipv4) btree \<Rightarrow> Lsa \<Rightarrow> (ipv4, u32 \<times> ipv4) btree" where
  "asbr_step self_id routers paths asbrs l =
     (case lsa_body l of
        AsbrSummaryLsa metric \<Rightarrow>
          if lsa_advertising_router l \<noteq> self_id \<and> metric < 0x00ffffff \<and>
             router_flag routers (lsa_advertising_router l) 1
          then (case hop_path paths (lsa_advertising_router l) of
              None \<Rightarrow> asbrs
            | Some (cost, hop) \<Rightarrow>
                let candidate = (saturating_add cost metric, hop);
                    old = (case bt_get asbrs (lsa_link_state_id l) of None \<Rightarrow> candidate | Some old \<Rightarrow> old)
                in bt_insert (lsa_link_state_id l) (min old candidate) asbrs)
          else asbrs
      | _ \<Rightarrow> asbrs)"

text \<open>The longest matching area prefix of a forwarding address.\<close>

definition forwarding_route :: "spf_routes \<Rightarrow> ipv4 \<Rightarrow> OspfSpfRoute option" where
  "forwarding_route routes address =
     max_by_key (\<lambda>r. nw_prefix_len (sr_prefix r))
       (filter (\<lambda>r. sr_source r \<in> {Ospf, OspfInterArea} \<and> Ipv4Network_contains (sr_prefix r) address) (bt_values routes))"

definition lsa_path :: "routers \<Rightarrow> paths \<Rightarrow> (ipv4, u32 \<times> ipv4) btree \<Rightarrow> Lsa \<Rightarrow> (u32 \<times> ipv4) option" where
  "lsa_path routers paths asbrs l =
     (let path = hop_path paths (lsa_advertising_router l)
      in case lsa_body l of
           ExternalLsa _ _ _ _ _ \<Rightarrow>
             (case (if router_flag routers (lsa_advertising_router l) 2 then path else None) of
                Some p \<Rightarrow> Some p
              | None \<Rightarrow> bt_get asbrs (lsa_advertising_router l))
         | _ \<Rightarrow> path)"

definition remote_route ::
  "ipv4 \<Rightarrow> routers \<Rightarrow> paths \<Rightarrow> (ipv4, u32 \<times> ipv4) btree \<Rightarrow> spf_routes \<Rightarrow> Lsa \<Rightarrow> OspfSpfRoute option" where
  "remote_route self_id routers paths asbrs routes l =
     (if lsa_advertising_router l = self_id then None
      else case lsa_path routers paths asbrs l of
        None \<Rightarrow> None
      | Some (cost, hop) \<Rightarrow>
          (case lsa_body l of
             SummaryLsa netmask metric \<Rightarrow>
               if router_flag routers (lsa_advertising_router l) 1 then
                 map_option (\<lambda>p. \<lparr>sr_prefix = p, sr_metric = saturating_add cost metric, sr_internal_cost = cost,
                     sr_first_hop = hop, sr_origin = lsa_advertising_router l, sr_source = OspfInterArea\<rparr>)
                   (prefix_of (lsa_link_state_id l) netmask)
               else None
           | ExternalLsa netmask metric type_two forwarding _ \<Rightarrow>
               (case (if is_unspecified forwarding then Some (cost, hop)
                      else map_option (\<lambda>r. (sr_metric r, sr_first_hop r)) (forwarding_route routes forwarding)) of
                  None \<Rightarrow> None
                | Some (internal, hop) \<Rightarrow>
                    map_option (\<lambda>p. \<lparr>sr_prefix = p,
                        sr_metric = (if type_two then metric else saturating_add internal metric),
                        sr_internal_cost = internal, sr_first_hop = hop, sr_origin = lsa_advertising_router l,
                        sr_source = (if type_two then OspfExternal2 else OspfExternal1)\<rparr>)
                      (prefix_of (lsa_link_state_id l) netmask))
           | _ \<Rightarrow> None))"

definition remote_step ::
  "ipv4 \<Rightarrow> routers \<Rightarrow> paths \<Rightarrow> (ipv4, u32 \<times> ipv4) btree \<Rightarrow> spf_routes \<Rightarrow> Lsa \<Rightarrow> spf_routes" where
  "remote_step self_id routers paths asbrs routes l =
     (case remote_route self_id routers paths asbrs routes l of None \<Rightarrow> routes | Some r \<Rightarrow> install routes r)"

definition ospf_calculate :: "ipv4 \<Rightarrow> Lsa list \<Rightarrow> OspfSpfResult" where
  "ospf_calculate self_id input =
     (let lsas = live_lsas input;
          routers = router_map lsas;
          networks = network_map lsas;
          paths = spf_paths self_id routers networks;
          intra = intra_routes self_id routers networks paths;
          ordered = sort_key Lsa_key lsas;
          asbr_paths = foldl (asbr_step self_id routers paths) [] ordered;
          routes = foldl (remote_step self_id routers paths asbr_paths) intra ordered;
          asbrs = bt_collect (map (\<lambda>(i, (metric, hop)).
                    (i, \<lparr>ap_metric = metric, ap_first_hop = hop, ap_inter_area = True\<rparr>)) asbr_paths)
      in \<lparr>res_routes = routes,
          res_asbrs = foldl (\<lambda>m (i, (flags, _)).
            if flags AND 2 \<noteq> 0 then
              (case bt_get paths (Router i) of
                 None \<Rightarrow> m
               | Some (metric, hop) \<Rightarrow>
                   bt_insert i \<lparr>ap_metric = metric, ap_first_hop = hop_or self_id hop, ap_inter_area = False\<rparr> m)
            else m) asbrs routers\<rparr>)"

definition ospf_spf :: "ipv4 \<Rightarrow> Lsa list \<Rightarrow> spf_routes" where
  "ospf_spf self_id lsas = res_routes (ospf_calculate self_id lsas)"

section \<open>Installation keeps the best\<close>

text \<open>\<open>covers r routes\<close>: the table has an entry for the prefix of \<open>r\<close> that is at least as good.\<close>

definition covers :: "spf_routes \<Rightarrow> OspfSpfRoute \<Rightarrow> bool" where
  "covers routes r =
     (\<exists>best. bt_get routes (network_key (sr_prefix r)) = Some best \<and> preference best \<le> preference r)"

definition routes_wf :: "spf_routes \<Rightarrow> bool" where
  "routes_wf routes =
     (bt_wf routes \<and> (\<forall>k r. bt_get routes k = Some r \<longrightarrow>
        k = network_key (sr_prefix r) \<and> wf_network (sr_prefix r) \<and> sr_metric r < 0x00ffffff))"

lemma covers_refl: "bt_get routes (network_key (sr_prefix r)) = Some r \<Longrightarrow> covers routes r"
  by (auto simp: covers_def)

lemma install_covers: "sr_metric r < 0x00ffffff \<Longrightarrow> covers (install routes r) r"
proof -
  assume m: "sr_metric r < 0x00ffffff"
  show ?thesis
  proof (cases "case bt_get routes (network_key (sr_prefix r)) of None \<Rightarrow> True | Some old \<Rightarrow> preference r < preference old")
    case True
    then have "bt_get (install routes r) (network_key (sr_prefix r)) = Some r"
      using m by (simp add: install_def bt.insert_same)
    then show ?thesis by (rule covers_refl)
  next
    case False
    then obtain old where "bt_get routes (network_key (sr_prefix r)) = Some old" "preference old \<le> preference r"
      by (auto simp: not_less split: option.splits)
    then show ?thesis using False by (auto simp: covers_def install_def)
  qed
qed

lemma install_keeps: "covers routes r \<Longrightarrow> covers (install routes c) r"
proof -
  assume "covers routes r"
  then obtain best where best: "bt_get routes (network_key (sr_prefix r)) = Some best" "preference best \<le> preference r"
    by (auto simp: covers_def)
  let ?accept = "sr_metric c < 0x00ffffff \<and> (case bt_get routes (network_key (sr_prefix c)) of None \<Rightarrow> True
    | Some old \<Rightarrow> preference c < preference old)"
  show ?thesis
  proof (cases "network_key (sr_prefix c) = network_key (sr_prefix r) \<and> ?accept")
    case True
    then have "bt_get (install routes c) (network_key (sr_prefix r)) = Some c" "preference c < preference best"
      using best by (auto simp: install_def bt.get_insert)
    then show ?thesis using order_trans [OF less_imp_le best(2)] unfolding covers_def by blast
  next
    case False
    then have "bt_get (install routes c) (network_key (sr_prefix r)) = Some best"
      using best(1) by (auto simp: install_def bt.get_insert)
    then show ?thesis using best(2) by (auto simp: covers_def)
  qed
qed

lemma install_all_covers:
  "(c \<in> set cs \<and> sr_metric c < 0x00ffffff) \<or> covers routes c \<Longrightarrow> covers (foldl install routes cs) c"
  by (induction cs arbitrary: routes) (auto intro: install_covers install_keeps)

lemma install_origin:
  "bt_get (install routes c) k = Some r \<Longrightarrow> bt_get routes k = Some r \<or> r = c"
  by (auto simp: install_def bt.get_insert split: if_splits)

lemma install_wf: "routes_wf routes \<Longrightarrow> wf_network (sr_prefix c) \<Longrightarrow> routes_wf (install routes c)"
  by (auto simp: routes_wf_def install_def bt.get_insert wf_bt_insert)

lemma remote_step_keeps: "covers routes r \<Longrightarrow> covers (remote_step self_id routers paths asbrs routes l) r"
  by (auto simp: remote_step_def install_keeps split: option.splits)

lemma remote_all_keeps: "covers routes r \<Longrightarrow> covers (foldl (remote_step self_id routers paths asbrs) routes ls) r"
  by (induction ls arbitrary: routes) (auto intro: remote_step_keeps)

lemma prefix_of_wf: "prefix_of a netmask = Some p \<Longrightarrow> wf_network p"
  by (auto simp: prefix_of_def intro: new_wf split: sum.splits)

lemma remote_route_source:
  "remote_route self_id routers paths asbrs routes l = Some r \<Longrightarrow>
     sr_source r \<noteq> Ospf \<and> wf_network (sr_prefix r)"
  by (auto simp: remote_route_def split: if_splits option.splits LsaBody.splits) (erule prefix_of_wf)+

lemma remote_step_wf: "routes_wf routes \<Longrightarrow> routes_wf (remote_step self_id routers paths asbrs routes l)"
  by (auto simp: remote_step_def intro: install_wf dest: remote_route_source split: option.splits)

lemma remote_all_wf: "routes_wf routes \<Longrightarrow> routes_wf (foldl (remote_step self_id routers paths asbrs) routes ls)"
  by (induction ls arbitrary: routes) (auto intro: remote_step_wf)

lemma remote_all_origin:
  "bt_get (foldl (remote_step self_id routers paths asbrs) routes ls) k = Some r \<Longrightarrow> sr_source r = Ospf \<Longrightarrow>
     bt_get routes k = Some r"
proof (induction ls arbitrary: routes)
  case (Cons l ls)
  then have "bt_get (remote_step self_id routers paths asbrs routes l) k = Some r" by simp
  then show ?case
    using Cons.prems(2)
    by (auto simp: remote_step_def dest!: install_origin dest: remote_route_source split: option.splits)
qed simp

lemma vertex_routes_router:
  "r \<in> set (vertex_routes self_id routers networks (Router i, cost, hop)) \<longleftrightarrow>
     (\<exists>flags links link p. bt_get routers i = Some (flags, links) \<and> link \<in> set links \<and> rl_kind link = Stub \<and>
       prefix_of (rl_id link) (rl_data link) = Some p \<and>
       r = \<lparr>sr_prefix = p, sr_metric = saturating_add cost (ucast (rl_metric link)), sr_internal_cost = cost,
            sr_first_hop = hop_or self_id hop, sr_origin = i, sr_source = Ospf\<rparr>)"
proof (cases "bt_get routers i")
  case (Some x)
  obtain flags links where x: "x = (flags, links)" by (cases x)
  have step: "(if rl_kind link = Stub then (case prefix_of (rl_id link) (rl_data link) of None \<Rightarrow> None
      | Some p \<Rightarrow> Some \<lparr>sr_prefix = p, sr_metric = saturating_add cost (ucast (rl_metric link)),
          sr_internal_cost = cost, sr_first_hop = hop_or self_id hop, sr_origin = i, sr_source = Ospf\<rparr>) else None) = Some r \<longleftrightarrow>
    rl_kind link = Stub \<and> (\<exists>p. prefix_of (rl_id link) (rl_data link) = Some p \<and>
      r = \<lparr>sr_prefix = p, sr_metric = saturating_add cost (ucast (rl_metric link)), sr_internal_cost = cost,
            sr_first_hop = hop_or self_id hop, sr_origin = i, sr_source = Ospf\<rparr>)" for link
    by (auto split: option.splits)
  show ?thesis by (auto simp: Some x in_map_filter step)
qed simp

lemma vertex_routes_network:
  "r \<in> set (vertex_routes self_id routers networks (Network i, cost, hop)) \<longleftrightarrow>
     (\<exists>netmask members origin p. bt_get networks i = Some (netmask, members, origin) \<and> prefix_of i netmask = Some p \<and>
       r = \<lparr>sr_prefix = p, sr_metric = cost, sr_internal_cost = cost, sr_first_hop = hop_or self_id hop,
            sr_origin = origin, sr_source = Ospf\<rparr>)"
proof (cases "bt_get networks i")
  case (Some n)
  obtain netmask members origin where n: "n = (netmask, members, origin)" by (cases n)
  show ?thesis by (cases "prefix_of i netmask") (auto simp: Some n)
qed simp

lemmas vertex_routes_iff = vertex_routes_router vertex_routes_network

lemma vertex_routes_wf: "r \<in> set (vertex_routes self_id routers networks e) \<Longrightarrow> wf_network (sr_prefix r)"
proof -
  assume r: "r \<in> set (vertex_routes self_id routers networks e)"
  obtain v c h where e: "e = (v, c, h)" by (metis surj_pair)
  show ?thesis
    using r unfolding e by (cases v) (auto simp: vertex_routes_iff intro: prefix_of_wf simp del: vertex_routes.simps)
qed

lemma intra_routes_wf: "routes_wf (intra_routes self_id routers networks paths)"
proof -
  have "routes_wf (foldl install routes cs)" if "routes_wf routes" "\<forall>c\<in>set cs. wf_network (sr_prefix c)" for routes cs
    using that by (induction cs arbitrary: routes) (auto intro: install_wf)
  moreover have "routes_wf []" by (simp add: routes_wf_def)
  moreover have "\<forall>c\<in>set (concat (map (vertex_routes self_id routers networks) paths)). wf_network (sr_prefix c)"
    by (auto intro: vertex_routes_wf simp del: vertex_routes.simps)
  ultimately show ?thesis unfolding intra_routes_def by blast
qed

lemma install_all_origin:
  "bt_get (foldl install routes cs) k = Some r \<Longrightarrow> bt_get routes k = Some r \<or> r \<in> set cs"
  by (induction cs arbitrary: routes) (auto dest: install_origin)

section \<open>End to end\<close>

lemma calculate_routes:
  "ospf_spf self_id input =
     (let lsas = live_lsas input; routers = router_map lsas; networks = network_map lsas;
          paths = spf_paths self_id routers networks; ordered = sort_key Lsa_key lsas
      in foldl (remote_step self_id routers paths (foldl (asbr_step self_id routers paths) [] ordered))
           (intra_routes self_id routers networks paths) ordered)"
  by (simp add: ospf_spf_def ospf_calculate_def Let_def)

lemma spf_routes_wf: "routes_wf (ospf_spf self_id input)"
  by (simp add: calculate_routes Let_def remote_all_wf intra_routes_wf)

text \<open>
  A stub prefix advertised by a router that some walk reaches is routed, at a cost no worse than
  that walk followed by the stub link.
\<close>

lemma stub_routed:
  assumes "walk self_id (router_map (live_lsas lsas)) (network_map (live_lsas lsas)) vs c" "last vs = Router i"
    and "bt_get (router_map (live_lsas lsas)) i = Some (flags, links)" "link \<in> set links" "rl_kind link = Stub"
    and "prefix_of (rl_id link) (rl_data link) = Some p" "saturating_add c (ucast (rl_metric link)) < 0x00ffffff"
  shows "\<exists>r. bt_get (ospf_spf self_id lsas) (network_key p) = Some r \<and> sr_source r = Ospf \<and>
    sr_metric r \<le> saturating_add c (ucast (rl_metric link))"
proof -
  let ?R = "router_map (live_lsas lsas)" and ?N = "network_map (live_lsas lsas)"
  let ?P = "spf_paths self_id ?R ?N"
  obtain cost hop where l: "bt_get ?P (Router i) = Some (cost, hop)" "cost \<le> c"
    using spf_lower_bound [OF assms(1)] assms(2) by auto
  let ?r = "\<lparr>sr_prefix = p, sr_metric = saturating_add cost (ucast (rl_metric link)), sr_internal_cost = cost,
    sr_first_hop = hop_or self_id hop, sr_origin = i, sr_source = Ospf\<rparr>"
  have less: "saturating_add cost (ucast (rl_metric link)) \<le> saturating_add c (ucast (rl_metric link))"
    using l(2) by (rule saturating_add_mono)
  have "(Router i, cost, hop) \<in> set ?P"
    using l(1) bt.entries_get [OF spf_invD(1) [OF spf_paths_inv]] by blast
  moreover have "?r \<in> set (vertex_routes self_id ?R ?N (Router i, cost, hop))"
    using assms(3-6) unfolding vertex_routes_router by blast
  ultimately have "?r \<in> set (concat (map (vertex_routes self_id ?R ?N) ?P))" unfolding set_concat set_map by blast
  moreover have "sr_metric ?r < 0x00ffffff" using le_less_trans [OF less assms(7)] by simp
  ultimately have "covers (intra_routes self_id ?R ?N ?P) ?r"
    unfolding intra_routes_def using install_all_covers by blast
  then have "covers (ospf_spf self_id lsas) ?r"
    by (simp only: calculate_routes Let_def remote_all_keeps)
  then obtain best where best: "bt_get (ospf_spf self_id lsas) (network_key p) = Some best"
    "preference best \<le> preference ?r" by (auto simp: covers_def)
  then have "source_rank (sr_source best) = 0" "sr_metric best \<le> saturating_add cost (ucast (rl_metric link))"
    by (auto simp: preference_def less_eq_prod_def source_rank_def)
  then show ?thesis
    using best(1) less by (auto simp: source_rank_def split: RouteSource.splits intro: order_trans)
qed

text \<open>An intra-area route comes from a walk to the router or network that owns the prefix.\<close>

lemma intra_route_sound:
  assumes "bt_get (ospf_spf self_id lsas) k = Some r" "sr_source r = Ospf"
  shows "\<exists>v l. justified self_id (router_map (live_lsas lsas)) (network_map (live_lsas lsas)) v l \<and>
    r \<in> set (vertex_routes self_id (router_map (live_lsas lsas)) (network_map (live_lsas lsas)) (v, l))"
proof -
  let ?R = "router_map (live_lsas lsas)" and ?N = "network_map (live_lsas lsas)"
  let ?P = "spf_paths self_id ?R ?N"
  have "bt_get (intra_routes self_id ?R ?N ?P) k = Some r"
    by (rule remote_all_origin [OF assms(1) [unfolded calculate_routes Let_def] assms(2)])
  then have "r \<in> set (concat (map (vertex_routes self_id ?R ?N) ?P))"
    unfolding intra_routes_def using install_all_origin [of "[]"] bt_get_Nil by (metis option.distinct(1))
  then obtain v l where vl: "(v, l) \<in> set ?P" "r \<in> set (vertex_routes self_id ?R ?N (v, l))" by auto
  then have "bt_get ?P v = Some l" using bt.entries_get [OF spf_invD(1) [OF spf_paths_inv]] by blast
  then show ?thesis using spf_sound vl(2) by blast
qed

section \<open>Properties\<close>

text \<open>Router 2, one hop away at cost 10, advertises the stub network 10.0.2.0/24 at cost 1.\<close>

definition stub_link :: RouterLink where
  "stub_link = \<lparr>rl_id = 0x0a000200, rl_data = 0xffffff00, rl_kind = Stub, rl_metric = 1\<rparr>"

definition hop_link :: "ipv4 \<Rightarrow> RouterLink" where
  "hop_link i = \<lparr>rl_id = i, rl_data = 0, rl_kind = PointToPoint, rl_metric = 10\<rparr>"

definition router_lsa :: "ipv4 \<Rightarrow> RouterLink list \<Rightarrow> Lsa" where
  "router_lsa i links = \<lparr>lsa_age = 1, lsa_options = 2, lsa_link_state_id = i, lsa_advertising_router = i,
     lsa_sequence = 0x80000001, lsa_body = RouterLsa 0 links\<rparr>"

definition stub_area :: "Lsa list" where
  "stub_area = [router_lsa 1 [hop_link 2], router_lsa 2 [hop_link 1, stub_link]]"

lemma stub_area_maps:
  "router_map (live_lsas stub_area) = [(1, (0, [hop_link 2])), (2, (0, [hop_link 1, stub_link]))]"
  "network_map (live_lsas stub_area) = []"
  by (simp_all add: stub_area_def live_lsas_def router_lsa_def LSA_MAX_AGE_def router_map_def network_map_def bt_collect_def)

lemma stub_area_prefix: "prefix_of 0x0a000200 0xffffff00 = Some \<lparr>nw_address = 0x0a000200, nw_prefix_len = 24\<rparr>"
proof -
  have "prefix_mask 24 = 0xffffff00" "(0x0a000200 :: u32) AND push_bit 8 (- 1) = 0x0a000200" by code_simp+
  moreover from this(1) have "Ipv4InterfaceConfig_from_mask 0x0a000200 0xffffff00 = Inr \<lparr>ic_address = 0x0a000200, ic_prefix_len = 24\<rparr>"
    using from_mask_mask [of 24 "0x0a000200"] by simp
  ultimately show ?thesis by (simp add: prefix_of_def Ipv4Network_new_def)
qed

lemma stub_area_walk:
  "walk 1 (router_map (live_lsas stub_area)) (network_map (live_lsas stub_area)) [Router 1, Router 2] 10"
proof -
  have "walk 1 (router_map (live_lsas stub_area)) (network_map (live_lsas stub_area)) [Router 1] 0"
    by (rule walk.start)
  moreover have "(Router 2, 10) \<in> set (edges (router_map (live_lsas stub_area)) (network_map (live_lsas stub_area)) (last [Router 1]))"
    by (simp add: stub_area_maps bt_get_def has_link_def hop_link_def)
  ultimately have "walk 1 (router_map (live_lsas stub_area)) (network_map (live_lsas stub_area)) ([Router 1] @ [Router 2])
      (saturating_add 0 10)"
    by (rule walk.step)
  then show ?thesis by (simp add: saturating_add_def)
qed

lemma stub_area_facts:
  "last [Router 1, Router 2] = Router 2"
  "bt_get (router_map (live_lsas stub_area)) 2 = Some (0, [hop_link 1, stub_link])"
  "stub_link \<in> set [hop_link 1, stub_link]" "rl_kind stub_link = Stub"
  "prefix_of (rl_id stub_link) (rl_data stub_link) = Some \<lparr>nw_address = 0x0a000200, nw_prefix_len = 24\<rparr>"
  "saturating_add 10 (ucast (rl_metric stub_link)) < (0x00ffffff :: u32)"
  by (simp_all add: stub_area_maps bt_get_def stub_link_def stub_area_prefix saturating_add_def)

text \<open>
  C2. End to end: a stub prefix advertised in the link-state database by a router that some walk
  reaches is installed, as an intra-area route, at a cost no worse than that walk plus the stub
  link. Aged-out advertisements count neither for the walk nor for the prefix.
\<close>

theorem stub_prefix_routed:
  assumes "walk self_id (router_map (live_lsas lsas)) (network_map (live_lsas lsas)) vs c" "last vs = Router i"
    and "bt_get (router_map (live_lsas lsas)) i = Some (flags, links)" "link \<in> set links" "rl_kind link = Stub"
    and "prefix_of (rl_id link) (rl_data link) = Some p" "saturating_add c (ucast (rl_metric link)) < 0x00ffffff"
  shows "\<exists>r. bt_get (ospf_spf self_id lsas) (network_key p) = Some r \<and> sr_source r = Ospf \<and>
    sr_metric r \<le> saturating_add c (ucast (rl_metric link))"
  using assms by (rule stub_routed)

theorem stub_prefix_routed_witness:
  "\<exists>r. bt_get (ospf_spf 1 stub_area) (0x0a000200, 24) = Some r \<and> sr_source r = Ospf \<and> sr_metric r \<le> 11"
  using stub_prefix_routed [OF stub_area_walk stub_area_facts]
  by (simp add: network_key_def stub_link_def saturating_add_def)

text \<open>
  C29. Every route the calculation returns sits under the key of its own prefix, its prefix is
  normalised, its metric is below infinity, and the table has one route per prefix.
\<close>

theorem spf_table_well_formed: "routes_wf (ospf_spf self_id lsas)"
  by (rule spf_routes_wf)

text \<open>
  C28. An intra-area route comes from a vertex that a walk over live advertisements justifies: no
  prefix is invented and none survives the expiry of its advertisement.
\<close>

theorem intra_route_justified:
  assumes "bt_get (ospf_spf self_id lsas) k = Some r" "sr_source r = Ospf"
  shows "\<exists>v l. justified self_id (router_map (live_lsas lsas)) (network_map (live_lsas lsas)) v l \<and>
    r \<in> set (vertex_routes self_id (router_map (live_lsas lsas)) (network_map (live_lsas lsas)) (v, l))"
  using assms by (rule intra_route_sound)

theorem intra_route_justified_witness:
  "\<exists>r v l. bt_get (ospf_spf 1 stub_area) (0x0a000200, 24) = Some r \<and>
     justified 1 (router_map (live_lsas stub_area)) (network_map (live_lsas stub_area)) v l \<and>
     r \<in> set (vertex_routes 1 (router_map (live_lsas stub_area)) (network_map (live_lsas stub_area)) (v, l))"
proof -
  obtain r where r: "bt_get (ospf_spf 1 stub_area) (0x0a000200, 24) = Some r" "sr_source r = Ospf"
    using stub_routed [OF stub_area_walk stub_area_facts] by (auto simp: network_key_def)
  from intra_route_justified [OF this] r show ?thesis by blast
qed

end
