(* ===== verification/Bgp_Types.thy ===== *)
theory Bgp_Types
  imports Ipv4_Route BTree
begin

text \<open>
  BGP of \<open>rios-routing\<close>: the messages of \<open>bgp/mod.rs\<close>, the path attributes of
  \<open>bgp/attributes.rs\<close> (AS path inspection and prepending) and the best-path decision of
  \<open>bgp/selection.rs\<close>. \<open>Bgp_Session\<close> holds the connection state machine, \<open>Bgp_Wire\<close> the codecs.
\<close>

definition BGP_MAX_MESSAGE :: nat where "BGP_MAX_MESSAGE = 4096"

record BgpError =
  be_code :: u8
  be_subcode :: u8

definition BgpError_new :: "u8 \<Rightarrow> u8 \<Rightarrow> BgpError" where
  "BgpError_new code subcode = \<lparr>be_code = code, be_subcode = subcode\<rparr>"

section \<open>Open parameters\<close>

datatype BgpCapability =
  FourOctetAs u32
| Multiprotocol (cap_afi: u16) (cap_safi: u8)
| RouteRefresh
| UnknownCapability (cap_code: u8) (cap_value: bytes)

record BgpOpen =
  op_autonomous_system :: u16
  op_hold_time :: u16
  op_router_id :: ipv4
  op_capabilities :: "BgpCapability list"

fun four_octet_asn :: "BgpCapability \<Rightarrow> u32 option" where
  "four_octet_asn (FourOctetAs asn) = Some asn"
| "four_octet_asn _ = None"

fun find_map :: "('a \<Rightarrow> 'b option) \<Rightarrow> 'a list \<Rightarrow> 'b option" where
  "find_map f [] = None"
| "find_map f (x # xs) = (case f x of None \<Rightarrow> find_map f xs | Some y \<Rightarrow> Some y)"

definition BgpOpen_effective_asn :: "BgpOpen \<Rightarrow> u32" where
  "BgpOpen_effective_asn x =
     (case find_map four_octet_asn (op_capabilities x) of None \<Rightarrow> ucast (op_autonomous_system x) | Some a \<Rightarrow> a)"

definition BgpOpen_four_octet_as :: "BgpOpen \<Rightarrow> bool" where
  "BgpOpen_four_octet_as x = (\<exists>c\<in>set (op_capabilities x). four_octet_asn c \<noteq> None)"

definition BgpOpen_validate :: "BgpOpen \<Rightarrow> BgpError + unit" where
  "BgpOpen_validate x =
     (if op_hold_time x \<noteq> 0 \<and> op_hold_time x < 3 then Inl (BgpError_new 2 6)
      else if is_unspecified (op_router_id x) \<or> is_multicast (op_router_id x) \<or> is_broadcast (op_router_id x)
      then Inl (BgpError_new 2 3)
      else if BgpOpen_effective_asn x = 0 then Inl (BgpError_new 2 2)
      else if 1 < card (set (List.map_filter four_octet_asn (op_capabilities x))) then Inl (BgpError_new 2 4)
      else Inr ())"

section \<open>Path attributes\<close>

datatype BgpOrigin = Igp | Egp | Incomplete

fun origin_u8 :: "BgpOrigin \<Rightarrow> u8" where
  "origin_u8 Igp = 0"
| "origin_u8 Egp = 1"
| "origin_u8 Incomplete = 2"

lemma origin_u8_inj: "origin_u8 a = origin_u8 b \<Longrightarrow> a = b"
  by (cases a; cases b) simp_all

instantiation BgpOrigin :: linorder
begin

definition less_eq_BgpOrigin :: "BgpOrigin \<Rightarrow> BgpOrigin \<Rightarrow> bool" where
  "less_eq_BgpOrigin a b = (origin_u8 a \<le> origin_u8 b)"

definition less_BgpOrigin :: "BgpOrigin \<Rightarrow> BgpOrigin \<Rightarrow> bool" where
  "less_BgpOrigin a b = (origin_u8 a < origin_u8 b)"

instance
  by standard (auto simp: less_eq_BgpOrigin_def less_BgpOrigin_def dest: origin_u8_inj)

end

datatype AsPathSegment =
  Sequence "u32 list"
| AsSet "u32 list"

fun AsPathSegment_members :: "AsPathSegment \<Rightarrow> u32 list" where
  "AsPathSegment_members (Sequence v) = v"
| "AsPathSegment_members (AsSet v) = v"

record BgpUnknownAttribute =
  ua_flags :: u8
  ua_code :: u8
  ua_value :: bytes

record BgpAttributes =
  at_origin :: BgpOrigin
  at_as_path :: "AsPathSegment list"
  at_next_hop :: ipv4
  at_atomic_aggregate :: bool
  at_med :: "u32 option"
  at_local_preference :: "u32 option"
  at_originator_id :: "ipv4 option"
  at_cluster_list :: "ipv4 list"
  at_unknown_transitive :: "BgpUnknownAttribute list"

definition BgpAttributes_contains_as :: "u32 \<Rightarrow> BgpAttributes \<Rightarrow> bool" where
  "BgpAttributes_contains_as asn a = (\<exists>s\<in>set (at_as_path a). asn \<in> set (AsPathSegment_members s))"

fun segment_length :: "AsPathSegment \<Rightarrow> nat" where
  "segment_length (Sequence v) = length v"
| "segment_length (AsSet _) = 1"

definition BgpAttributes_path_length :: "BgpAttributes \<Rightarrow> nat" where
  "BgpAttributes_path_length a = sum_list (map segment_length (at_as_path a))"

definition first_of :: "'a list \<Rightarrow> 'a option" where
  "first_of xs = (case xs of [] \<Rightarrow> None | x # _ \<Rightarrow> Some x)"

definition BgpAttributes_first_as :: "BgpAttributes \<Rightarrow> u32 option" where
  "BgpAttributes_first_as a =
     (case first_of (at_as_path a) of None \<Rightarrow> None | Some s \<Rightarrow> first_of (AsPathSegment_members s))"

text \<open>\<open>prepend\<close> merges the new members into a leading sequence and splits the result again.\<close>

definition merge_first :: "u32 list \<Rightarrow> AsPathSegment list \<Rightarrow> u32 list \<times> AsPathSegment list" where
  "merge_first asns path =
     (case path of Sequence old # rest \<Rightarrow> (asns @ old, rest) | _ \<Rightarrow> (asns, path))"

definition BgpAttributes_prepend :: "u32 list \<Rightarrow> BgpAttributes \<Rightarrow> BgpError + BgpAttributes" where
  "BgpAttributes_prepend asns a =
     (if 0 \<in> set asns \<or>
         1024 < length asns + sum_list (map (length \<circ> AsPathSegment_members) (at_as_path a))
      then Inl (BgpError_new 6 8)
      else let (values, rest) = merge_first asns (at_as_path a)
           in Inr (a\<lparr>at_as_path := map Sequence (chunks 255 values) @ rest\<rparr>))"

subsection \<open>Prepending\<close>

lemma sum_list_chunks: "0 < n \<Longrightarrow> sum_list (map length (chunks n xs)) = length xs"
  using concat_chunks [of n xs] by (metis length_concat)

lemma merge_first_cases:
  assumes "merge_first asns path = (vs, rest)"
  obtains (merged) old where "path = Sequence old # rest" "vs = asns @ old" | (plain) "vs = asns" "rest = path"
  using assms by (auto simp: merge_first_def split: list.splits AsPathSegment.splits)

lemma merge_first_length:
  "merge_first asns path = (values, rest) \<Longrightarrow>
     length values + sum_list (map segment_length rest) = length asns + sum_list (map segment_length path)"
  by (auto simp: merge_first_def split: list.splits AsPathSegment.splits)

lemma prepend_length:
  assumes "BgpAttributes_prepend asns a = Inr b"
  shows "BgpAttributes_path_length b = length asns + BgpAttributes_path_length a"
proof -
  obtain vs rest where m: "merge_first asns (at_as_path a) = (vs, rest)" by force
  then have b: "at_as_path b = map Sequence (chunks 255 vs) @ rest"
    using assms by (auto simp: BgpAttributes_prepend_def split: if_splits)
  show ?thesis
    using merge_first_length [OF m] sum_list_chunks [of 255 vs]
    by (simp add: BgpAttributes_path_length_def b comp_def)
qed

lemma prepend_contains:
  assumes "BgpAttributes_prepend asns a = Inr b"
  shows "BgpAttributes_contains_as n b \<longleftrightarrow> n \<in> set asns \<or> BgpAttributes_contains_as n a"
proof -
  obtain vs rest where m: "merge_first asns (at_as_path a) = (vs, rest)" by force
  then have b: "at_as_path b = map Sequence (chunks 255 vs) @ rest"
    using assms by (auto simp: BgpAttributes_prepend_def split: if_splits)
  have "(\<exists>c\<in>set (chunks 255 vs). n \<in> set c) \<longleftrightarrow> n \<in> set vs"
    by (subst (2) concat_chunks [of 255 vs, symmetric]) simp_all
  with m show ?thesis
    by (cases rule: merge_first_cases) (simp_all add: BgpAttributes_contains_as_def b bex_Un image_iff disj_assoc)
qed

lemma prepend_first_as:
  assumes "BgpAttributes_prepend (asn # asns) a = Inr b"
  shows "BgpAttributes_first_as b = Some asn"
proof -
  obtain vs rest where m: "merge_first (asn # asns) (at_as_path a) = (asn # vs, rest)"
    by (cases "at_as_path a" rule: list.exhaust; cases "hd (at_as_path a)") (auto simp: merge_first_def)
  then have "at_as_path b = map Sequence (chunks 255 (asn # vs)) @ rest"
    using assms by (auto simp: BgpAttributes_prepend_def split: if_splits)
  then show ?thesis
    by (simp add: chunks.simps [of 255 "asn # vs"] BgpAttributes_first_as_def first_of_def)
qed

lemma prepend_segments:
  assumes "BgpAttributes_prepend asns a = Inr b" "\<forall>s\<in>set (at_as_path a). length (AsPathSegment_members s) \<in> {1..255}"
  shows "\<forall>s\<in>set (at_as_path b). length (AsPathSegment_members s) \<in> {1..255}"
proof -
  obtain vs rest where m: "merge_first asns (at_as_path a) = (vs, rest)" by force
  then have b: "at_as_path b = map Sequence (chunks 255 vs) @ rest"
    using assms by (auto simp: BgpAttributes_prepend_def split: if_splits)
  have "\<forall>s\<in>set rest. length (AsPathSegment_members s) \<in> {1..255}"
    using m assms(2) by (cases rule: merge_first_cases) auto
  moreover have "length c \<in> {1..255}" if "c \<in> set (chunks 255 vs)" for c
    using chunks_bound [OF that] by (cases c) auto
  ultimately show ?thesis by (auto simp: b)
qed

subsection \<open>Properties\<close>

text \<open>
  Prepending: a successful prepend lengthens the AS path by exactly the number of members
  added, keeps every AS number for loop detection, puts the first new member in front, and never
  produces a segment whose count does not fit its octet, however long the leading sequence grew.
\<close>

theorem prepend_correct:
  assumes "BgpAttributes_prepend (asn # asns) a = Inr b"
    and "\<forall>s\<in>set (at_as_path a). length (AsPathSegment_members s) \<in> {1..255}"
  shows "BgpAttributes_path_length b = length (asn # asns) + BgpAttributes_path_length a \<and>
    BgpAttributes_first_as b = Some asn \<and>
    (\<forall>n. BgpAttributes_contains_as n b \<longleftrightarrow> n \<in> set (asn # asns) \<or> BgpAttributes_contains_as n a) \<and>
    (\<forall>s\<in>set (at_as_path b). length (AsPathSegment_members s) \<in> {1..255})"
  using prepend_length [OF assms(1)] prepend_first_as [OF assms(1)] prepend_contains [OF assms(1)]
    prepend_segments [OF assms] by blast

definition sample_attributes :: BgpAttributes where
  "sample_attributes = \<lparr>at_origin = Igp, at_as_path = [Sequence (replicate 255 65001)], at_next_hop = 1,
     at_atomic_aggregate = False, at_med = None, at_local_preference = None, at_originator_id = None,
     at_cluster_list = [], at_unknown_transitive = []\<rparr>"

theorem prepend_correct_witness:
  "\<exists>b. BgpAttributes_prepend [65000] sample_attributes = Inr b \<and> BgpAttributes_path_length b = 256 \<and>
     BgpAttributes_first_as b = Some 65000 \<and> \<not> (\<exists>s\<in>set (at_as_path b). 255 < length (AsPathSegment_members s))"
proof -
  have "\<exists>b. BgpAttributes_prepend [65000] sample_attributes = Inr b"
    by (simp add: BgpAttributes_prepend_def sample_attributes_def case_prod_beta)
  then obtain b where b: "BgpAttributes_prepend [65000] sample_attributes = Inr b" ..
  have "BgpAttributes_path_length sample_attributes = 255"
    by (simp add: BgpAttributes_path_length_def sample_attributes_def)
  with prepend_correct [OF b] b show ?thesis by (simp add: sample_attributes_def not_less)
qed

end
