(* ===== verification/Bgp_Selection.thy ===== *)
theory Bgp_Selection
  imports Bgp_Types
begin

text \<open>
  Best-path selection of \<open>rios-routing\<close> (\<open>bgp/selection.rs\<close>): a first ranking, the MED
  comparison inside each neighbouring AS, and the final tie-break. The group reduction makes the
  result independent of the order in which the paths are given.
\<close>

record BgpPath =
  pa_prefix :: Ipv4Network
  pa_attributes :: BgpAttributes
  pa_learned_from :: "ipv4 option"
  pa_peer_router_id :: ipv4
  pa_external :: bool
  pa_igp_cost :: u32

definition unwrap_or :: "'a \<Rightarrow> 'a option \<Rightarrow> 'a" where
  "unwrap_or d r = (case r of None \<Rightarrow> d | Some v \<Rightarrow> v)"

definition path_rank :: "BgpPath \<Rightarrow> u32 reverse \<times> bool \<times> nat \<times> BgpOrigin" where
  "path_rank p =
     (Reverse (unwrap_or 100 (at_local_preference (pa_attributes p))), pa_learned_from p \<noteq> None,
      BgpAttributes_path_length (pa_attributes p), at_origin (pa_attributes p))"

definition path_med :: "BgpPath \<Rightarrow> u32" where
  "path_med p = unwrap_or 0 (at_med (pa_attributes p))"

definition path_as :: "BgpPath \<Rightarrow> u32 option" where
  "path_as p = BgpAttributes_first_as (pa_attributes p)"

definition tie_break :: "BgpPath \<Rightarrow> bool \<times> u32 \<times> ipv4 \<times> nat \<times> ipv4 option" where
  "tie_break p =
     (\<not> pa_external p, pa_igp_cost p,
      unwrap_or (pa_peer_router_id p) (at_originator_id (pa_attributes p)),
      length (at_cluster_list (pa_attributes p)), pa_learned_from p)"

definition best_ranked :: "BgpPath list \<Rightarrow> BgpPath list" where
  "best_ranked paths =
     (case min_by_key id (map path_rank paths) of
        None \<Rightarrow> [] | Some best \<Rightarrow> filter (\<lambda>p. path_rank p = best) paths)"

definition add_med :: "(u32 option, u32) btree \<Rightarrow> BgpPath \<Rightarrow> (u32 option, u32) btree" where
  "add_med m p =
     (case bt_get m (path_as p) of
        None \<Rightarrow> bt_insert (path_as p) (path_med p) m
      | Some old \<Rightarrow> bt_insert (path_as p) (min old (path_med p)) m)"

definition med_by_as :: "BgpPath list \<Rightarrow> (u32 option, u32) btree" where
  "med_by_as paths = foldl add_med [] paths"

definition bgp_best_path :: "BgpPath list \<Rightarrow> BgpPath option" where
  "bgp_best_path paths =
     (let candidates = best_ranked paths; meds = med_by_as candidates
      in min_by_key tie_break (filter (\<lambda>p. bt_get meds (path_as p) = Some (path_med p)) candidates))"

section \<open>The three stages\<close>

lemma best_ranked_iff: "p \<in> set (best_ranked paths) \<longleftrightarrow> p \<in> set paths \<and> (\<forall>q\<in>set paths. path_rank p \<le> path_rank q)"
proof (cases "min_by_key id (map path_rank paths)")
  case None
  then show ?thesis by (simp add: best_ranked_def)
next
  case (Some best)
  from min_by_key_Some [OF Some] Some show ?thesis
    by (auto simp: best_ranked_def intro: antisym)
qed

lemma best_ranked_Nil [simp]: "best_ranked paths = [] \<longleftrightarrow> paths = []"
proof (cases "min_by_key id (map path_rank paths)")
  case (Some best)
  from min_by_key_Some [OF Some] Some show ?thesis
    by (auto simp: best_ranked_def filter_empty_conv)
qed (simp add: best_ranked_def)

lemma add_med_wf: "bt_wf m \<Longrightarrow> bt_wf (add_med m p)"
  by (auto simp: add_med_def wf_bt_insert split: option.splits)

lemma add_med_get:
  "bt_wf m \<Longrightarrow> bt_get (add_med m p) k =
     (if k = path_as p then Some (case bt_get m k of None \<Rightarrow> path_med p | Some old \<Rightarrow> min old (path_med p))
      else bt_get m k)"
  by (auto simp: add_med_def bt.get_insert split: option.splits)

lemma foldl_add_med:
  assumes "bt_wf m"
  shows "bt_get (foldl add_med m ps) k =
    (case (bt_get m k, map path_med (filter (\<lambda>p. path_as p = k) ps)) of
       (None, []) \<Rightarrow> None
     | (None, v # vs) \<Rightarrow> Some (foldl min v vs)
     | (Some old, vs) \<Rightarrow> Some (foldl min old vs))"
  using assms
proof (induction ps arbitrary: m)
  case Nil
  then show ?case by (cases "bt_get m k") simp_all
next
  case (Cons p ps)
  show ?case
    using Cons.IH [OF add_med_wf [OF Cons.prems], of p]
    by (cases "bt_get m k") (auto simp: add_med_get [OF Cons.prems] split: list.splits)
qed

lemma foldl_min: "foldl min (v::'a::linorder) vs = Min (set (v # vs))"
proof (induction vs arbitrary: v)
  case (Cons w vs)
  show ?case using Cons.IH [of "min v w"] by (cases "vs = []") (simp_all add: min.assoc min.left_commute)
qed simp

lemma med_by_as_get:
  "bt_get (med_by_as ps) k = Some v \<longleftrightarrow>
     (\<exists>p\<in>set ps. path_as p = k \<and> path_med p = v) \<and> (\<forall>p\<in>set ps. path_as p = k \<longrightarrow> v \<le> path_med p)"
proof (cases "map path_med (filter (\<lambda>p. path_as p = k) ps)")
  case Nil
  then have "\<forall>p\<in>set ps. path_as p \<noteq> k" by (simp add: filter_empty_conv)
  with Nil show ?thesis by (auto simp: med_by_as_def foldl_add_med)
next
  case (Cons w ws)
  let ?S = "path_med ` {p \<in> set ps. path_as p = k}"
  have S: "set (w # ws) = ?S" using Cons [symmetric] by simp
  have "bt_get (med_by_as ps) k = Some (Min ?S)"
    using Cons by (simp add: med_by_as_def foldl_add_med foldl_min flip: S)
  moreover have "?S \<noteq> {}" using S by auto
  ultimately show ?thesis by (auto simp: Min_eq_iff)
qed

text \<open>The paths that no other path beats in rank, nor in MED among the paths of the same neighbouring AS.\<close>

definition survivors :: "BgpPath set \<Rightarrow> BgpPath set" where
  "survivors P =
     {p \<in> P. (\<forall>q\<in>P. path_rank p \<le> path_rank q) \<and>
             (\<forall>q\<in>P. path_rank q = path_rank p \<longrightarrow> path_as q = path_as p \<longrightarrow> path_med p \<le> path_med q)}"

lemma survivors_filter:
  "set (filter (\<lambda>p. bt_get (med_by_as (best_ranked paths)) (path_as p) = Some (path_med p)) (best_ranked paths)) =
     survivors (set paths)"
  by (auto simp: survivors_def med_by_as_get best_ranked_iff intro: antisym) (metis antisym)

lemma survivors_ex: "paths \<noteq> [] \<Longrightarrow> survivors (set paths) \<noteq> {}"
proof -
  assume "paths \<noteq> []"
  then have ne: "best_ranked paths \<noteq> []" by simp
  then obtain p where p: "min_by_key path_med (best_ranked paths) = Some p" by (metis min_by_key_None option.exhaust)
  from min_by_key_Some [OF this] have "p \<in> survivors (set paths)"
    by (auto simp: survivors_def best_ranked_iff)
  then show ?thesis by blast
qed

lemma best_path_None: "bgp_best_path paths = None \<longleftrightarrow> paths = []"
proof -
  have "bgp_best_path paths = None \<longleftrightarrow> survivors (set paths) = {}"
    unfolding survivors_filter [symmetric] bgp_best_path_def Let_def by (simp only: min_by_key_None set_empty)
  moreover have "survivors (set []) = {}" by (simp add: survivors_def)
  ultimately show ?thesis using survivors_ex [of paths] by metis
qed

lemma best_path_Some:
  assumes "bgp_best_path paths = Some p"
  shows "p \<in> survivors (set paths)" "q \<in> survivors (set paths) \<Longrightarrow> tie_break p \<le> tie_break q"
  using min_by_key_Some [OF assms [unfolded bgp_best_path_def Let_def]] survivors_filter [of paths] by blast+

lemma best_path_same_set:
  assumes "set ps = set qs" "inj_on pa_learned_from (set ps)"
  shows "bgp_best_path ps = bgp_best_path qs"
  unfolding bgp_best_path_def Let_def
proof (rule min_by_key_same_set)
  show "inj_on tie_break
     (set (filter (\<lambda>p. bt_get (med_by_as (best_ranked ps)) (path_as p) = Some (path_med p)) (best_ranked ps)))"
    unfolding survivors_filter using assms(2) by (auto simp: inj_on_def tie_break_def survivors_def)
qed (simp only: survivors_filter assms(1))

section \<open>The decision process\<close>

text \<open>
  The specification, on the attributes of the paths: preference, local origin, length of the AS path and
  origin decide first; MED decides between paths from the same neighbouring AS; the rest is a tie-break.
\<close>

definition preference :: "BgpPath \<Rightarrow> u32" where
  "preference p = (case at_local_preference (pa_attributes p) of None \<Rightarrow> 100 | Some v \<Rightarrow> v)"

definition as_hops :: "BgpPath \<Rightarrow> nat" where
  "as_hops p = (\<Sum>s\<leftarrow>at_as_path (pa_attributes p). case s of Sequence asns \<Rightarrow> length asns | AsSet _ \<Rightarrow> 1)"

definition origin_class :: "BgpPath \<Rightarrow> nat" where
  "origin_class p = (case at_origin (pa_attributes p) of Igp \<Rightarrow> 0 | Egp \<Rightarrow> 1 | Incomplete \<Rightarrow> 2)"

definition outranks :: "BgpPath \<Rightarrow> BgpPath \<Rightarrow> bool" where
  "outranks q p =
     (preference p < preference q \<or> preference p = preference q \<and>
        (pa_learned_from q = None \<and> pa_learned_from p \<noteq> None \<or> (pa_learned_from q = None \<longleftrightarrow> pa_learned_from p = None) \<and>
           (as_hops q < as_hops p \<or> as_hops q = as_hops p \<and> origin_class q < origin_class p)))"

definition neighbour_as :: "BgpPath \<Rightarrow> u32 option" where
  "neighbour_as p =
     (case at_as_path (pa_attributes p) of Sequence (asn # _) # _ \<Rightarrow> Some asn | AsSet (asn # _) # _ \<Rightarrow> Some asn | _ \<Rightarrow> None)"

definition med_of :: "BgpPath \<Rightarrow> u32" where
  "med_of p = (case at_med (pa_attributes p) of None \<Rightarrow> 0 | Some v \<Rightarrow> v)"

definition originator :: "BgpPath \<Rightarrow> ipv4" where
  "originator p = (case at_originator_id (pa_attributes p) of None \<Rightarrow> pa_peer_router_id p | Some v \<Rightarrow> v)"

definition breaks_tie :: "BgpPath \<Rightarrow> BgpPath \<Rightarrow> bool" where
  "breaks_tie q p =
     (pa_external q \<and> \<not> pa_external p \<or> pa_external q = pa_external p \<and>
        (pa_igp_cost q < pa_igp_cost p \<or> pa_igp_cost q = pa_igp_cost p \<and>
           (originator q < originator p \<or> originator q = originator p \<and>
              (length (at_cluster_list (pa_attributes q)) < length (at_cluster_list (pa_attributes p)) \<or>
               length (at_cluster_list (pa_attributes q)) = length (at_cluster_list (pa_attributes p)) \<and>
                 (case (pa_learned_from q, pa_learned_from p) of
                    (None, Some _) \<Rightarrow> True | (Some a, Some b) \<Rightarrow> a < b | _ \<Rightarrow> False)))))"

definition contenders :: "BgpPath set \<Rightarrow> BgpPath set" where
  "contenders P =
     {p \<in> P. (\<forall>q\<in>P. \<not> outranks q p) \<and>
             (\<forall>q\<in>P. \<not> outranks p q \<longrightarrow> neighbour_as q = neighbour_as p \<longrightarrow> med_of p \<le> med_of q)}"

lemma path_fields:
  "path_as = neighbour_as" "path_med = med_of" "unwrap_or (pa_peer_router_id p) (at_originator_id (pa_attributes p)) = originator p"
  "unwrap_or 100 (at_local_preference (pa_attributes p)) = preference p" "BgpAttributes_path_length (pa_attributes p) = as_hops p"
proof -
  show "path_as = neighbour_as"
    by (rule ext) (auto simp: path_as_def neighbour_as_def BgpAttributes_first_as_def first_of_def split: list.splits AsPathSegment.splits)
  have "segment_length = (\<lambda>s. case s of Sequence asns \<Rightarrow> length asns | AsSet _ \<Rightarrow> 1)"
    by (rule ext) (simp split: AsPathSegment.split)
  then show "BgpAttributes_path_length (pa_attributes p) = as_hops p"
    by (simp add: BgpAttributes_path_length_def as_hops_def)
qed (simp_all add: fun_eq_iff path_med_def med_of_def originator_def preference_def unwrap_or_def)

lemma origin_less: "at_origin (pa_attributes q) < at_origin (pa_attributes p) \<longleftrightarrow> origin_class q < origin_class p"
  "at_origin (pa_attributes q) = at_origin (pa_attributes p) \<longleftrightarrow> origin_class q = origin_class p"
  by (cases "at_origin (pa_attributes q)"; cases "at_origin (pa_attributes p)"; simp add: origin_class_def less_BgpOrigin_def)+

lemma outranks_iff: "outranks q p \<longleftrightarrow> path_rank q < path_rank p"
  by (auto simp: outranks_def path_rank_def path_fields origin_less)

lemma same_rank_iff: "path_rank q = path_rank p \<longleftrightarrow> \<not> outranks q p \<and> \<not> outranks p q"
  by (auto simp: outranks_iff)

lemma breaks_tie_iff: "breaks_tie q p \<longleftrightarrow> tie_break q < tie_break p"
  by (auto simp: breaks_tie_def tie_break_def path_fields split: option.splits)

lemma survivors_contenders: "survivors P = contenders P"
  unfolding survivors_def contenders_def path_fields same_rank_iff outranks_iff [symmetric]
  by (auto simp: outranks_iff not_less)

section \<open>Properties\<close>

text \<open>
  C18. The best path exists whenever there is a candidate, is one of the candidates, and no other candidate
  beats it: none has a higher local preference or, at the same preference, is locally originated against a
  learned path, has a shorter AS path (a set counting one) or a lower origin, in this order; none that ranks
  the same and comes from the same neighbouring AS has a lower MED; and among the paths left none breaks the
  tie: external, IGP cost, originator, length of the cluster list, peer.
\<close>

theorem best_path_optimal:
  assumes "paths \<noteq> []"
  shows "\<exists>p. bgp_best_path paths = Some p \<and> p \<in> set paths \<and> (\<forall>q\<in>set paths. \<not> outranks q p) \<and>
    (\<forall>q\<in>set paths. \<not> outranks p q \<longrightarrow> neighbour_as q = neighbour_as p \<longrightarrow> med_of p \<le> med_of q) \<and>
    (\<forall>q\<in>contenders (set paths). \<not> breaks_tie q p)"
proof -
  obtain p where p: "bgp_best_path paths = Some p" using best_path_None [of paths] assms by blast
  have "p \<in> contenders (set paths)" "\<forall>q\<in>contenders (set paths). \<not> breaks_tie q p"
    using best_path_Some [OF p] by (auto simp: survivors_contenders breaks_tie_iff not_less)
  then show ?thesis using p by (auto simp: contenders_def)
qed

text \<open>
  C19. The decision is deterministic although MED is only compared inside a neighbouring AS, which
  makes pairwise comparison intransitive: with at most one path per peer, the result depends only
  on which paths there are, not on the order in which they are offered.
\<close>

theorem best_path_order_independent:
  assumes "set ps = set qs" "inj_on pa_learned_from (set ps)"
  shows "bgp_best_path ps = bgp_best_path qs"
  using assms by (rule best_path_same_set)

definition sample_path :: "ipv4 \<Rightarrow> u32 \<Rightarrow> u32 \<Rightarrow> ipv4 \<Rightarrow> BgpPath" where
  "sample_path peer asn med router =
     \<lparr>pa_prefix = \<lparr>nw_address = 0x0a000000, nw_prefix_len = 8\<rparr>,
      pa_attributes = \<lparr>at_origin = Igp, at_as_path = [Sequence [asn]], at_next_hop = peer, at_atomic_aggregate = False,
        at_med = Some med, at_local_preference = None, at_originator_id = None, at_cluster_list = [], at_unknown_transitive = []\<rparr>,
      pa_learned_from = Some peer, pa_peer_router_id = router, pa_external = True, pa_igp_cost = 0\<rparr>"

text \<open>
  The classic cycle: 1 beats 2 on router id, 2 beats 3 on router id, 3 beats 1 on MED.
\<close>

definition med_cycle :: "BgpPath list" where
  "med_cycle = [sample_path 1 65001 10 1, sample_path 2 65002 0 2, sample_path 3 65001 5 3]"

theorem best_path_optimal_witness:
  "bgp_best_path med_cycle = Some (sample_path 2 65002 0 2) \<and>
   \<not> (\<exists>q\<in>set med_cycle. outranks q (sample_path 2 65002 0 2)) \<and> \<not> breaks_tie (sample_path 3 65001 5 3) (sample_path 2 65002 0 2)"
proof -
  have best: "bgp_best_path med_cycle = Some (sample_path 2 65002 0 2)" by code_simp
  have "sample_path 3 65001 5 3 \<in> contenders (set med_cycle)"
    by (simp add: contenders_def med_cycle_def sample_path_def outranks_def preference_def as_hops_def origin_class_def
      neighbour_as_def med_of_def)
  moreover have "med_cycle \<noteq> []" by (simp add: med_cycle_def)
  ultimately show ?thesis using best best_path_optimal [of med_cycle] by auto
qed

theorem best_path_order_independent_witness:
  "bgp_best_path med_cycle = bgp_best_path (rev med_cycle)"
proof (rule best_path_order_independent)
  show "inj_on pa_learned_from (set med_cycle)" by (simp add: med_cycle_def sample_path_def)
qed simp

end
