(* ===== verification/Bgp_Session.thy ===== *)
theory Bgp_Session
  imports Bgp_Types Machine
begin

text \<open>
  The BGP connection state machine of \<open>rios-routing\<close> (\<open>bgp/session.rs\<close>). The owner of a
  session reports TCP events, hands over framed messages and calls \<open>tick\<close> at the deadlines;
  every operation returns the effects the owner has to carry out.
\<close>

section \<open>Messages and effects\<close>

record BgpUpdate =
  up_withdrawn :: "Ipv4Network list"
  up_attributes :: "BgpAttributes option"
  up_announced :: "Ipv4Network list"

datatype BgpMessage =
  Open BgpOpen
| Update BgpUpdate
| Notification (no_code: u8) (no_subcode: u8) (no_data: bytes)
| Keepalive

definition RETRY_US :: u64 where "RETRY_US = 30000000"

definition OPEN_WAIT_US :: u64 where "OPEN_WAIT_US = 240000000"

datatype BgpState = Idle | Connect | Active | OpenSent | OpenConfirm | Established

record BgpSessionActions =
  sa_messages :: "BgpMessage list"
  sa_update :: "BgpUpdate option"
  sa_connect_transport :: bool
  sa_close_transport :: bool

definition BgpSessionActions_default :: BgpSessionActions where
  "BgpSessionActions_default =
     \<lparr>sa_messages = [], sa_update = None, sa_connect_transport = False, sa_close_transport = False\<rparr>"

record BgpSession =
  se_state :: BgpState
  se_peer_router_id :: "ipv4 option"
  se_four_octet_as :: bool
  se_negotiated_hold_time :: u16
  se_established_since :: "SimTime option"
  se_last_error :: "BgpError option"
  se_local_as :: u32
  se_remote_as :: u32
  se_router_id :: ipv4
  se_configured_hold_time :: u16
  se_retry_at :: SimTime
  se_hold_at :: "SimTime option"
  se_keepalive_at :: "SimTime option"

section \<open>Operations\<close>

text \<open>The OPEN a session sends: AS_TRANS stands for a number that does not fit the legacy field.\<close>

definition BgpSession_open :: "BgpSession \<Rightarrow> BgpOpen" where
  "BgpSession_open s =
     \<lparr>op_autonomous_system = (if se_local_as s \<le> 65535 then ucast (se_local_as s) else 23456),
      op_hold_time = se_configured_hold_time s, op_router_id = se_router_id s,
      op_capabilities = [FourOctetAs (se_local_as s)]\<rparr>"

definition BgpSession_new :: "u32 \<Rightarrow> u32 \<Rightarrow> ipv4 \<Rightarrow> u16 \<Rightarrow> SimTime \<Rightarrow> BgpError + BgpSession" where
  "BgpSession_new local_as remote_as router_id hold_time now =
     (if local_as = 0 \<or> remote_as = 0 then Inl (BgpError_new 2 2)
      else let session = \<lparr>se_state = Idle, se_peer_router_id = None, se_four_octet_as = False,
             se_negotiated_hold_time = 0, se_established_since = None, se_last_error = None,
             se_local_as = local_as, se_remote_as = remote_as, se_router_id = router_id,
             se_configured_hold_time = hold_time, se_retry_at = now, se_hold_at = None, se_keepalive_at = None\<rparr>
           in and_then (BgpOpen_validate (BgpSession_open session)) (\<lambda>_. Inr session))"

definition session_reset :: "SimTime \<Rightarrow> BgpSession \<Rightarrow> BgpSession" where
  "session_reset now s =
     s\<lparr>se_state := Idle, se_established_since := None, se_hold_at := None, se_keepalive_at := None,
       se_retry_at := saturating_add now RETRY_US\<rparr>"

definition transport_connected :: "SimTime \<Rightarrow> BgpSession \<Rightarrow> BgpSessionActions \<times> BgpSession" where
  "transport_connected now s =
     (let s' = s\<lparr>se_state := OpenSent, se_peer_router_id := None, se_four_octet_as := False,
                 se_negotiated_hold_time := 0, se_established_since := None,
                 se_hold_at := Some (saturating_add now OPEN_WAIT_US), se_keepalive_at := None\<rparr>
      in (BgpSessionActions_default\<lparr>sa_messages := [Open (BgpSession_open s')]\<rparr>, s'))"

definition transport_failed :: "SimTime \<Rightarrow> BgpSession \<Rightarrow> BgpSessionActions \<times> BgpSession" where
  "transport_failed now s =
     (BgpSessionActions_default\<lparr>sa_close_transport := True\<rparr>, (session_reset now s)\<lparr>se_state := Active\<rparr>)"

definition protocol_error :: "BgpError \<Rightarrow> SimTime \<Rightarrow> BgpSession \<Rightarrow> BgpSessionActions \<times> BgpSession" where
  "protocol_error error now s =
     (BgpSessionActions_default\<lparr>sa_messages := [Notification (be_code error) (be_subcode error) []],
        sa_close_transport := True\<rparr>,
      session_reset now (s\<lparr>se_last_error := Some error\<rparr>))"

definition reset_hold :: "SimTime \<Rightarrow> BgpSession \<Rightarrow> BgpSession" where
  "reset_hold now s =
     s\<lparr>se_hold_at := (if se_negotiated_hold_time s \<noteq> 0
                      then Some (saturating_add now (ucast (se_negotiated_hold_time s) * 1000000)) else None)\<rparr>"

definition next_keepalive :: "SimTime \<Rightarrow> BgpSession \<Rightarrow> BgpSession" where
  "next_keepalive now s =
     s\<lparr>se_keepalive_at := (if se_negotiated_hold_time s \<noteq> 0
                           then Some (saturating_add now (ucast (se_negotiated_hold_time s div 3) * 1000000)) else None)\<rparr>"

definition receive_open :: "BgpOpen \<Rightarrow> SimTime \<Rightarrow> BgpSession \<Rightarrow> BgpSessionActions \<times> BgpSession" where
  "receive_open op now s =
     (case BgpOpen_validate op of
        Inl error \<Rightarrow> protocol_error error now s
      | Inr _ \<Rightarrow>
          if BgpOpen_effective_asn op \<noteq> se_remote_as s then protocol_error (BgpError_new 2 2) now s
          else if se_local_as s = se_remote_as s \<and> op_router_id op = se_router_id s
          then protocol_error (BgpError_new 2 3) now s
          else if \<not> BgpOpen_four_octet_as op \<and> 65535 < se_local_as s then protocol_error (BgpError_new 2 2) now s
          else (BgpSessionActions_default\<lparr>sa_messages := [Keepalive]\<rparr>,
                (next_keepalive now (reset_hold now
                  (s\<lparr>se_peer_router_id := Some (op_router_id op), se_four_octet_as := BgpOpen_four_octet_as op,
                     se_negotiated_hold_time := min (se_configured_hold_time s) (op_hold_time op)\<rparr>)))
                \<lparr>se_state := OpenConfirm\<rparr>))"

definition BgpSession_receive :: "BgpMessage \<Rightarrow> SimTime \<Rightarrow> BgpSession \<Rightarrow> BgpSessionActions \<times> BgpSession" where
  "BgpSession_receive message now s =
     (case message of
        Notification code subcode _ \<Rightarrow>
          (BgpSessionActions_default\<lparr>sa_close_transport := True\<rparr>,
           session_reset now (s\<lparr>se_last_error := Some (BgpError_new code subcode)\<rparr>))
      | Open op \<Rightarrow>
          if se_state s = OpenSent then receive_open op now s else protocol_error (BgpError_new 5 0) now s
      | Keepalive \<Rightarrow>
          if se_state s = OpenConfirm \<or> se_state s = Established
          then (BgpSessionActions_default,
                reset_hold now
                  ((if se_state s \<noteq> Established then s\<lparr>se_established_since := Some now\<rparr> else s)\<lparr>se_state := Established\<rparr>))
          else protocol_error (BgpError_new 5 0) now s
      | Update update \<Rightarrow>
          if se_state s = Established
          then (BgpSessionActions_default\<lparr>sa_update := Some update\<rparr>, reset_hold now s)
          else protocol_error (BgpError_new 5 0) now s)"

definition connecting :: "BgpSession \<Rightarrow> bool" where
  "connecting s = (se_state s = Idle \<or> se_state s = Active \<or> se_state s = Connect)"

definition session_deadlines :: "BgpSession \<Rightarrow> SimTime list" where
  "session_deadlines s =
     (if connecting s then [se_retry_at s] else []) @ (case se_hold_at s of None \<Rightarrow> [] | Some t \<Rightarrow> [t]) @
     (case se_keepalive_at s of None \<Rightarrow> [] | Some t \<Rightarrow> [t])"

definition BgpSession_next_deadline :: "BgpSession \<Rightarrow> SimTime option" where
  "BgpSession_next_deadline s = min_by_key id (session_deadlines s)"

definition due :: "SimTime \<Rightarrow> SimTime option \<Rightarrow> bool" where
  "due now d = (case d of None \<Rightarrow> False | Some t \<Rightarrow> t \<le> now)"

definition BgpSession_tick :: "SimTime \<Rightarrow> BgpSession \<Rightarrow> BgpSessionActions \<times> BgpSession" where
  "BgpSession_tick now s =
     (if connecting s \<and> se_retry_at s \<le> now
      then (BgpSessionActions_default\<lparr>sa_connect_transport := True\<rparr>,
            s\<lparr>se_state := Connect, se_retry_at := saturating_add now RETRY_US\<rparr>)
      else if due now (se_hold_at s) then protocol_error (BgpError_new 4 0) now s
      else if due now (se_keepalive_at s)
      then (BgpSessionActions_default\<lparr>sa_messages := [Keepalive]\<rparr>, next_keepalive now s)
      else (BgpSessionActions_default, s))"

section \<open>Events and runs\<close>

datatype BgpEvent =
  TransportConnected SimTime
| TransportFailed SimTime
| ProtocolError BgpError SimTime
| Received BgpMessage SimTime
| Ticked SimTime

fun session_event :: "BgpSession \<Rightarrow> BgpEvent \<Rightarrow> BgpSession" where
  "session_event s (TransportConnected now) = snd (transport_connected now s)"
| "session_event s (TransportFailed now) = snd (transport_failed now s)"
| "session_event s (ProtocolError error now) = snd (protocol_error error now s)"
| "session_event s (Received message now) = snd (BgpSession_receive message now s)"
| "session_event s (Ticked now) = snd (BgpSession_tick now s)"

definition session_step :: "BgpSession \<Rightarrow> BgpSession \<Rightarrow> bool" where
  "session_step s t = (\<exists>e. t = session_event s e)"

definition session_run :: "BgpSession \<Rightarrow> BgpEvent list \<Rightarrow> BgpSession" where
  "session_run s es = foldl session_event s es"

section \<open>Invariant\<close>

definition hold_ok :: "u16 \<Rightarrow> bool" where
  "hold_ok h = (h = 0 \<or> 3 \<le> h)"

definition session_inv :: "BgpSession \<Rightarrow> bool" where
  "session_inv s =
     (se_local_as s \<noteq> 0 \<and> se_remote_as s \<noteq> 0 \<and> hold_ok (se_configured_hold_time s) \<and>
      (se_established_since s \<noteq> None \<longleftrightarrow> se_state s = Established) \<and>
      (connecting s \<longrightarrow> se_hold_at s = None \<and> se_keepalive_at s = None) \<and>
      (se_state s = OpenSent \<longrightarrow> se_hold_at s \<noteq> None \<and> se_keepalive_at s = None) \<and>
      (se_state s = OpenConfirm \<or> se_state s = Established \<longrightarrow>
         se_peer_router_id s \<noteq> None \<and> hold_ok (se_negotiated_hold_time s) \<and>
         se_negotiated_hold_time s \<le> se_configured_hold_time s \<and>
         (se_local_as s = se_remote_as s \<longrightarrow> se_peer_router_id s \<noteq> Some (se_router_id s)) \<and>
         (se_hold_at s \<noteq> None \<longleftrightarrow> se_negotiated_hold_time s \<noteq> 0) \<and>
         (se_keepalive_at s \<noteq> None \<longleftrightarrow> se_negotiated_hold_time s \<noteq> 0)))"

lemmas session_defs =
  session_reset_def transport_connected_def transport_failed_def protocol_error_def reset_hold_def
  next_keepalive_def connecting_def Let_def

lemma validate_hold: "BgpOpen_validate op = Inr () \<Longrightarrow> hold_ok (op_hold_time op)"
  by (simp add: BgpOpen_validate_def hold_ok_def not_less split: if_splits)

lemma hold_ok_min: "hold_ok a \<Longrightarrow> hold_ok b \<Longrightarrow> hold_ok (min a b)"
  by (auto simp: hold_ok_def min_def)

lemma new_session_inv: "BgpSession_new la ra rid h now = Inr s \<Longrightarrow> session_inv s"
proof -
  assume new: "BgpSession_new la ra rid h now = Inr s"
  then have "BgpOpen_validate (BgpSession_open s) = Inr ()"
    by (auto simp: BgpSession_new_def Let_def and_then_Inr_iff split: if_splits)
  from validate_hold [OF this] new show ?thesis
    by (auto simp: BgpSession_new_def BgpSession_open_def session_inv_def connecting_def Let_def and_then_Inr_iff split: if_splits)
qed

lemma reset_session_inv: "session_inv s \<Longrightarrow> session_inv (session_reset now s)"
  by (simp add: session_inv_def session_defs)

lemma protocol_error_inv: "session_inv s \<Longrightarrow> session_inv (snd (protocol_error error now s))"
  by (simp add: session_inv_def session_defs)

text \<open>What accepting an OPEN establishes about it.\<close>

definition acceptable :: "BgpSession \<Rightarrow> BgpOpen \<Rightarrow> bool" where
  "acceptable s op =
     (BgpOpen_validate op = Inr () \<and> BgpOpen_effective_asn op = se_remote_as s \<and>
      \<not> (se_local_as s = se_remote_as s \<and> op_router_id op = se_router_id s) \<and>
      (BgpOpen_four_octet_as op \<or> se_local_as s \<le> 65535))"

definition confirm :: "BgpOpen \<Rightarrow> SimTime \<Rightarrow> BgpSession \<Rightarrow> BgpSession" where
  "confirm op now s =
     (next_keepalive now (reset_hold now
        (s\<lparr>se_peer_router_id := Some (op_router_id op), se_four_octet_as := BgpOpen_four_octet_as op,
           se_negotiated_hold_time := min (se_configured_hold_time s) (op_hold_time op)\<rparr>)))\<lparr>se_state := OpenConfirm\<rparr>"

lemma receive_open_accepts:
  "acceptable s op \<Longrightarrow>
     receive_open op now s = (BgpSessionActions_default\<lparr>sa_messages := [Keepalive]\<rparr>, confirm op now s)"
  by (auto simp: acceptable_def receive_open_def confirm_def)

lemma receive_open_refuses: "\<not> acceptable s op \<Longrightarrow> \<exists>error. receive_open op now s = protocol_error error now s"
  by (auto simp: acceptable_def receive_open_def not_le split: sum.splits)

lemma confirm_inv: "session_inv s \<Longrightarrow> acceptable s op \<Longrightarrow> se_state s = OpenSent \<Longrightarrow> session_inv (confirm op now s)"
  using hold_ok_min validate_hold [of op]
  by (auto simp: session_inv_def confirm_def acceptable_def session_defs)

lemma receive_session_inv:
  assumes "session_inv s"
  shows "session_inv (snd (BgpSession_receive message now s))"
proof (cases message)
  case (Open op)
  have "session_inv (snd (receive_open op now s))" if "se_state s = OpenSent"
    using assms that confirm_inv [of s op now] receive_open_accepts [of s op now] receive_open_refuses [of s op now]
      protocol_error_inv [OF assms]
    by (cases "acceptable s op") auto
  then show ?thesis using Open protocol_error_inv [OF assms] by (simp add: BgpSession_receive_def)
next
  case Keepalive
  then show ?thesis
    using assms by (auto simp: BgpSession_receive_def session_inv_def session_defs)
next
  case (Update u)
  then show ?thesis
    using assms by (auto simp: BgpSession_receive_def session_inv_def session_defs)
next
  case (Notification c sc d)
  then show ?thesis
    using assms by (auto simp: BgpSession_receive_def session_inv_def session_defs)
qed

lemma connecting_timers: "session_inv s \<Longrightarrow> connecting s \<Longrightarrow> se_hold_at s = None \<and> se_keepalive_at s = None"
  by (simp add: session_inv_def)

lemma keepalive_running:
  assumes "session_inv s" "se_keepalive_at s = Some t"
  shows "se_state s = OpenConfirm \<or> se_state s = Established" "hold_ok (se_negotiated_hold_time s)"
  using assms by (cases "se_state s"; simp add: session_inv_def connecting_def)+

lemma tick_cases:
  assumes "session_inv s"
  obtains (retry) "connecting s" "se_retry_at s \<le> now"
      "snd (BgpSession_tick now s) = s\<lparr>se_state := Connect, se_retry_at := saturating_add now RETRY_US\<rparr>"
  | (hold) t where "\<not> connecting s" "se_hold_at s = Some t" "t \<le> now"
      "BgpSession_tick now s = protocol_error (BgpError_new 4 0) now s"
  | (keep) t where "\<not> connecting s" "\<not> due now (se_hold_at s)" "se_keepalive_at s = Some t" "t \<le> now"
      "snd (BgpSession_tick now s) = next_keepalive now s"
  | (wait) "\<not> (connecting s \<and> se_retry_at s \<le> now)" "\<not> due now (se_hold_at s)" "\<not> due now (se_keepalive_at s)"
      "snd (BgpSession_tick now s) = s"
proof (cases "connecting s \<and> se_retry_at s \<le> now")
  case True
  then show ?thesis by (intro retry) (simp_all add: BgpSession_tick_def)
next
  case False
  note tick = BgpSession_tick_def [of now s, unfolded if_not_P [OF False]]
  show ?thesis
  proof (cases "due now (se_hold_at s)")
    case True
    then obtain t where "se_hold_at s = Some t" "t \<le> now" by (auto simp: due_def split: option.splits)
    moreover have "\<not> connecting s" using calculation connecting_timers [OF assms] by auto
    ultimately show ?thesis using True by (intro hold) (simp_all add: tick)
  next
    case hd: False
    show ?thesis
    proof (cases "due now (se_keepalive_at s)")
      case True
      then obtain t where "se_keepalive_at s = Some t" "t \<le> now" by (auto simp: due_def split: option.splits)
      moreover have "\<not> connecting s" using calculation connecting_timers [OF assms] by auto
      ultimately show ?thesis using hd True by (intro keep) (simp_all add: tick)
    qed (use False hd in \<open>simp add: tick wait\<close>)
  qed
qed

lemma tick_session_inv: "session_inv s \<Longrightarrow> session_inv (snd (BgpSession_tick now s))"
proof -
  assume inv: "session_inv s"
  then show ?thesis
  proof (cases rule: tick_cases [where now = now])
    case retry
    then show ?thesis using inv by (auto simp: session_inv_def connecting_def)
  next
    case (keep t)
    then show ?thesis
      using inv keepalive_running [OF inv keep(3)] by (auto simp: session_inv_def next_keepalive_def connecting_def)
  qed (simp_all add: inv protocol_error_inv)
qed

lemma session_event_inv: "session_inv s \<Longrightarrow> session_inv (session_event s e)"
proof (cases e)
  case (Received m now)
  then show "session_inv s \<Longrightarrow> ?thesis" by (simp add: receive_session_inv)
next
  case (Ticked now)
  then show "session_inv s \<Longrightarrow> ?thesis" by (simp add: tick_session_inv)
qed (auto simp: session_inv_def session_defs)

interpretation session_machine: invariant_system
  "\<lambda>s. \<exists>la ra rid h now. BgpSession_new la ra rid h now = Inr s" session_step session_inv
  by unfold_locales (auto simp: session_step_def new_session_inv session_event_inv)

lemma session_run_step: "rtranclp session_step s (session_run s es)"
proof (induction es rule: rev_induct)
  case (snoc e es)
  have "session_step (session_run s es) (session_run s (es @ [e]))"
    by (auto simp: session_step_def session_run_def)
  with snoc show ?case by (rule rtranclp.rtrancl_into_rtrancl)
qed (simp add: session_run_def)

lemma session_run_inv: "session_inv s \<Longrightarrow> session_inv (session_run s es)"
  using session_run_step by (rule session_machine.run_inv [rotated])

section \<open>Who gets established\<close>

lemma event_keeps_config:
  "se_remote_as (session_event s e) = se_remote_as s" "se_local_as (session_event s e) = se_local_as s"
  "se_router_id (session_event s e) = se_router_id s" "se_configured_hold_time (session_event s e) = se_configured_hold_time s"
  by (cases e; auto simp: session_defs BgpSession_tick_def BgpSession_receive_def receive_open_def
        split: BgpMessage.splits sum.splits)+

lemma run_keeps_config:
  "se_remote_as (session_run s es) = se_remote_as s" "se_local_as (session_run s es) = se_local_as s"
  "se_router_id (session_run s es) = se_router_id s"
  by (induction es rule: rev_induct) (simp_all add: session_run_def event_keeps_config)

lemma acceptable_run: "acceptable (session_run s es) op = acceptable s op"
  by (simp add: acceptable_def run_keeps_config)

lemma enters_confirm:
  "se_state (session_event s e) = OpenConfirm \<Longrightarrow>
     se_state s = OpenConfirm \<or> (\<exists>op now. e = Received (Open op) now \<and> acceptable s op)"
proof (cases e)
  case (Received m now)
  then show "se_state (session_event s e) = OpenConfirm \<Longrightarrow> ?thesis"
    using receive_open_refuses [of s "case m of Open op \<Rightarrow> op" now]
    by (cases m; cases "acceptable s (case m of Open op \<Rightarrow> op)")
      (auto simp: BgpSession_receive_def session_defs split: if_splits)
qed (auto simp: session_defs BgpSession_tick_def split: if_splits)

lemma enters_established:
  "se_state (session_event s e) = Established \<Longrightarrow>
     se_state s = Established \<or> (se_state s = OpenConfirm \<and> (\<exists>now. e = Received Keepalive now))"
proof (cases e)
  case (Received m now)
  then show "se_state (session_event s e) = Established \<Longrightarrow> ?thesis"
    by (cases m) (auto simp: BgpSession_receive_def receive_open_def session_defs split: if_splits sum.splits)
qed (auto simp: session_defs BgpSession_tick_def split: if_splits)

text \<open>The events a session has seen up to and including an accepted OPEN, and then a KEEPALIVE.\<close>

definition opened :: "BgpSession \<Rightarrow> BgpEvent list \<Rightarrow> bool" where
  "opened s es = (\<exists>op now. Received (Open op) now \<in> set es \<and> acceptable s op)"

definition confirmed :: "BgpSession \<Rightarrow> BgpEvent list \<Rightarrow> bool" where
  "confirmed s es = (\<exists>xs now ys. es = xs @ Received Keepalive now # ys \<and> opened s xs)"

lemma confirmed_snoc: "confirmed s es \<Longrightarrow> confirmed s (es @ [e])"
  unfolding confirmed_def by (elim exE conjE) (metis append.assoc append_Cons)

lemma opened_snoc: "opened s es \<Longrightarrow> opened s (es @ [e])"
  by (auto simp: opened_def)

lemma confirmedI: "opened s es \<Longrightarrow> confirmed s (es @ [Received Keepalive now])"
  by (auto simp: confirmed_def)

lemma session_history:
  assumes "se_state s = Idle"
  shows "(se_state (session_run s es) = OpenConfirm \<longrightarrow> opened s es) \<and>
         (se_state (session_run s es) = Established \<longrightarrow> confirmed s es)"
proof (induction es rule: rev_induct)
  case Nil
  show ?case using assms by (simp add: session_run_def)
next
  case (snoc e es)
  have run: "session_run s (es @ [e]) = session_event (session_run s es) e" by (simp add: session_run_def)
  show ?case
    using snoc enters_confirm [of "session_run s es" e] enters_established [of "session_run s es" e]
      opened_snoc [of s es e] confirmed_snoc [of s es e] confirmedI [of s es]
    by (auto simp: run acceptable_run) (auto simp: opened_def acceptable_run)
qed

lemma update_delivered:
  "sa_update (fst (BgpSession_receive m t s)) = Some u \<Longrightarrow> m = Update u \<and> se_state s = Established"
  by (cases m) (auto simp: BgpSession_receive_def receive_open_def protocol_error_def BgpSessionActions_default_def
      split: if_splits sum.splits)

section \<open>Timers\<close>

lemma saturating_add_later:
  fixes now :: u64
  assumes "0 < unat d" "unat now + unat d < 2 ^ 64"
  shows "now < saturating_add now d"
  using assms by (simp add: word_less_nat_alt unat_saturating_add)

lemma hold_interval:
  fixes h :: u16
  shows "unat (ucast h * 1000000 :: u64) = unat h * 1000000"
proof -
  have "unat h < 2 ^ 16" using unat_bound [of h] by simp
  then have "unat h * 1000000 < 2 ^ 64" by simp
  then show ?thesis by (simp add: unat_word_ariths unsigned_ucast_eq take_bit_nat_eq_self)
qed

lemma keepalive_later:
  assumes "hold_ok (se_negotiated_hold_time s)" "unat now + 65535000000 < 2 ^ 64"
    "se_keepalive_at (next_keepalive now s) = Some t"
  shows "now < t"
proof -
  let ?h = "se_negotiated_hold_time s"
  have h: "3 \<le> unat ?h" "unat ?h < 65536"
    using assms(1,3) unat_bound [of ?h] by (auto simp: hold_ok_def next_keepalive_def word_le_nat_alt split: if_splits)
  have d: "unat (?h div 3) = unat ?h div 3" by (simp add: unat_div)
  have "0 < unat ?h div 3" "unat ?h div 3 \<le> 21845" using h by auto
  then have "now < saturating_add now (ucast (?h div 3) * 1000000)"
    using assms(2) by (intro saturating_add_later) (simp_all add: hold_interval d)
  then show ?thesis using assms(3) by (auto simp: next_keepalive_def split: if_splits)
qed

lemma retry_later: "unat now + 65535000000 < 2 ^ 64 \<Longrightarrow> now < saturating_add now RETRY_US"
  by (rule saturating_add_later) (simp_all add: RETRY_US_def)

lemma deadline_cases:
  assumes "session_inv s" "t \<in> set (session_deadlines s)"
  obtains "connecting s" "t = se_retry_at s" | "\<not> connecting s" "se_hold_at s = Some t" | "\<not> connecting s" "se_keepalive_at s = Some t"
  using assms by (auto simp: session_deadlines_def session_inv_def split: if_splits option.splits)

lemma tick_moves_deadlines:
  assumes inv: "session_inv s" and now: "unat now + 65535000000 < 2 ^ 64"
    and t: "t \<in> set (session_deadlines (snd (BgpSession_tick now s)))"
  shows "now < t"
proof -
  let ?s = "snd (BgpSession_tick now s)"
  have inv': "session_inv ?s" using session_event_inv [OF inv, of "Ticked now"] by simp
  from inv show ?thesis
  proof (cases rule: tick_cases [where now = now])
    case retry
    from inv' t show ?thesis
      by (cases rule: deadline_cases) (auto simp: retry(3) connecting_def retry_later [OF now])
  next
    case (hold d)
    from inv' t show ?thesis
      by (cases rule: deadline_cases)
        (auto simp: hold(4) connecting_def protocol_error_def session_reset_def retry_later [OF now])
  next
    case (keep d)
    from inv' t show ?thesis
    proof (cases rule: deadline_cases)
      case 3
      then show ?thesis
        using keepalive_later [OF keepalive_running(2) [OF inv keep(3)] now] by (simp add: keep(5))
    qed (use keep in \<open>auto simp: next_keepalive_def connecting_def due_def\<close>)
  next
    case wait
    from inv' t show ?thesis
      using wait by (cases rule: deadline_cases) (auto simp: due_def)
  qed
qed

section \<open>Properties\<close>

definition sample_session :: BgpSession where
  "sample_session = \<lparr>se_state = Idle, se_peer_router_id = None, se_four_octet_as = False,
     se_negotiated_hold_time = 0, se_established_since = None, se_last_error = None,
     se_local_as = 65001, se_remote_as = 65002, se_router_id = 1,
     se_configured_hold_time = 90, se_retry_at = 0, se_hold_at = None, se_keepalive_at = None\<rparr>"

definition sample_open :: BgpOpen where
  "sample_open = \<lparr>op_autonomous_system = 65002, op_hold_time = 30, op_router_id = 2, op_capabilities = [FourOctetAs 65002]\<rparr>"

definition sample_events :: "BgpEvent list" where
  "sample_events = [Ticked 0, TransportConnected 10, Received (Open sample_open) 20, Received Keepalive 30]"

lemma sample_session_new: "BgpSession_new 65001 65002 1 90 0 = Inr sample_session"
  by code_simp

lemma sample_open_valid: "BgpOpen_validate sample_open = Inr ()"
  by (simp add: BgpOpen_validate_def sample_open_def BgpOpen_effective_asn_def is_unspecified_def is_multicast_def is_broadcast_def)

lemma sample_session_established: "se_state (session_run sample_session sample_events) = Established"
  by (simp add: session_run_def sample_events_def sample_session_def session_defs BgpSession_tick_def due_def
      BgpSession_receive_def receive_open_def sample_open_valid)
    (simp add: sample_open_def BgpOpen_effective_asn_def BgpOpen_four_octet_as_def)

text \<open>
  C16. In every state a session can reach, through any interleaving of transport events, received
  messages, protocol errors and ticks, it has been up since some time exactly while Established;
  no timer but the retry timer runs while it is not connected; and while a peer is known the hold and keepalive
  timers run exactly when the negotiated hold time is not zero, which is zero or at least three
  seconds and never above the configured one; an internal peer never has our own router id.
\<close>

theorem session_reachable_inv:
  assumes "BgpSession_new la ra rid hold now = Inr s0"
  shows "session_inv (session_run s0 es)"
  using assms by (intro session_run_inv) (rule new_session_inv)

theorem session_reachable_inv_witness:
  "session_inv (session_run sample_session sample_events) \<and> se_state (session_run sample_session sample_events) = Established"
  using session_reachable_inv [OF sample_session_new, of sample_events] sample_session_established by blast

text \<open>
  C15. Only a peer that identified itself gets established: an Established session has received,
  earlier in its history, an OPEN that validates, carries the configured remote AS and not our own
  identity, and after it a KEEPALIVE. An UPDATE is handed to the owner only in that state.
\<close>

theorem established_authenticated:
  assumes "BgpSession_new la ra rid hold now = Inr s0" "sa_update (fst (BgpSession_receive m t (session_run s0 es))) = Some u"
  shows "m = Update u \<and> se_state (session_run s0 es) = Established \<and>
    (\<exists>xs op t1 ys t2 zs. es = xs @ Received (Open op) t1 # ys @ Received Keepalive t2 # zs \<and>
       BgpOpen_validate op = Inr () \<and> BgpOpen_effective_asn op = ra \<and> (la = ra \<longrightarrow> op_router_id op \<noteq> rid))"
proof -
  let ?s = "session_run s0 es"
  have "m = Update u \<and> se_state ?s = Established"
    using assms(2) update_delivered by blast
  moreover have "se_state s0 = Idle" "se_remote_as s0 = ra" "se_local_as s0 = la" "se_router_id s0 = rid"
    using assms(1) by (auto simp: BgpSession_new_def Let_def and_then_Inr_iff split: if_splits)
  moreover from calculation have "confirmed s0 es" using session_history by blast
  moreover from this obtain us t2 zs op t1 where "es = us @ Received Keepalive t2 # zs" "Received (Open op) t1 \<in> set us"
      "acceptable s0 op"
    by (auto simp: confirmed_def opened_def)
  moreover from this(2) obtain xs ys where "us = xs @ Received (Open op) t1 # ys" by (metis split_list)
  ultimately have "es = xs @ Received (Open op) t1 # ys @ Received Keepalive t2 # zs \<and>
       BgpOpen_validate op = Inr () \<and> BgpOpen_effective_asn op = ra \<and> (la = ra \<longrightarrow> op_router_id op \<noteq> rid)"
    by (simp add: acceptable_def)
  with \<open>m = Update u \<and> se_state ?s = Established\<close> show ?thesis by blast
qed

theorem established_authenticated_witness:
  "\<exists>xs op t1 ys t2 zs. sample_events = xs @ Received (Open op) t1 # ys @ Received Keepalive t2 # zs \<and>
     BgpOpen_validate op = Inr () \<and> BgpOpen_effective_asn op = 65002"
proof -
  let ?u = "\<lparr>up_withdrawn = [], up_attributes = None, up_announced = []\<rparr>"
  have "sa_update (fst (BgpSession_receive (Update ?u) 40 (session_run sample_session sample_events))) = Some ?u"
    using sample_session_established by (simp add: BgpSession_receive_def BgpSessionActions_default_def)
  from established_authenticated [OF sample_session_new this] show ?thesis by blast
qed

text \<open>
  C17. Timers make progress: a tick at \<open>now\<close> leaves every deadline of the session strictly in the
  future, so an owner that ticks at the next deadline cannot loop without advancing time; in
  particular an expired hold timer closes the session instead of firing again.
\<close>

theorem tick_progress:
  assumes "BgpSession_new la ra rid hold start = Inr s0" "unat now + 65535000000 < 2 ^ 64"
  shows "(\<forall>t\<in>set (session_deadlines (snd (BgpSession_tick now (session_run s0 es)))). now < t) \<and>
    (\<forall>t. BgpSession_next_deadline (snd (BgpSession_tick now (session_run s0 es))) = Some t \<longrightarrow> now < t)"
proof -
  have inv: "session_inv (session_run s0 es)" using session_run_inv [OF new_session_inv [OF assms(1)]] .
  then show ?thesis
    using tick_moves_deadlines [OF inv assms(2)] min_by_key_Some [of id "session_deadlines (snd (BgpSession_tick now (session_run s0 es)))"]
    by (auto simp: BgpSession_next_deadline_def)
qed

theorem tick_progress_witness:
  "\<not> (\<exists>t. BgpSession_next_deadline (snd (BgpSession_tick 30000030 (session_run sample_session sample_events))) = Some t \<and>
     t \<le> 30000030)"
  using tick_progress [OF sample_session_new, of 30000030 sample_events] by (auto simp: not_le)

end
