(* ===== verification/Bgp_Wire.thy ===== *)
theory Bgp_Wire
  imports Bgp_Session
begin

text \<open>
  The BGP wire format of \<open>rios-routing\<close>: the stream framing and prefix lists of \<open>bgp/mod.rs\<close>,
  the messages of \<open>bgp/wire.rs\<close> and the path attributes of \<open>bgp/attributes.rs\<close>. The width of an
  AS number on the wire, two or four octets, is a parameter of every codec as it is in the code.
\<close>

abbreviation bgp_err :: "u8 \<Rightarrow> u8 \<Rightarrow> BgpError + 'a" where
  "bgp_err c s \<equiv> Inl (BgpError_new c s)"

section \<open>Prefix lists\<close>

definition prefix_octets :: "u8 \<Rightarrow> nat" where
  "prefix_octets len = div_ceil (unat len) 8"

fun encode_prefixes_from :: "bytes \<Rightarrow> Ipv4Network list \<Rightarrow> BgpError + bytes" where
  "encode_prefixes_from out [] = Inr out"
| "encode_prefixes_from out (p # ps) =
     (if BGP_MAX_MESSAGE < length out + 1 + prefix_octets (nw_prefix_len p) then bgp_err 1 2
      else encode_prefixes_from (out @ nw_prefix_len p # take (prefix_octets (nw_prefix_len p)) (octets (nw_address p))) ps)"

definition encode_prefixes :: "Ipv4Network list \<Rightarrow> BgpError + bytes" where
  "encode_prefixes prefixes = encode_prefixes_from [] prefixes"

function decode_prefixes_from :: "Ipv4Network list \<Rightarrow> bytes \<Rightarrow> BgpError + Ipv4Network list" where
  "decode_prefixes_from out [] = Inr out"
| "decode_prefixes_from out (prefix # rest) =
     (if 32 < prefix then bgp_err 3 10
      else let len = prefix_octets prefix
      in case get_range 0 len rest of
           None \<Rightarrow> bgp_err 3 10
         | Some value \<Rightarrow>
             (case Ipv4Network_new (ip_of (copy_into 0 value (replicate 4 0))) prefix of
                Inl _ \<Rightarrow> bgp_err 3 10
              | Inr n \<Rightarrow> decode_prefixes_from (out @ [n]) (drop len rest)))"
  by pat_completeness auto
termination by (relation "measure (\<lambda>(out, bs). length bs)") auto

definition decode_prefixes :: "bytes \<Rightarrow> BgpError + Ipv4Network list" where
  "decode_prefixes bs = decode_prefixes_from [] bs"

section \<open>Path attributes\<close>

definition attribute :: "bytes \<Rightarrow> u8 \<Rightarrow> u8 \<Rightarrow> bytes \<Rightarrow> BgpError + bytes" where
  "attribute out flags code value =
     (let extended = 255 < length value
      in if BGP_MAX_MESSAGE < length out + length value + (if extended then 4 else 3) then bgp_err 1 2
         else Inr (out @ [(flags AND 0xe0) OR (if extended then 0x10 else 0), code] @
                (if extended then u16_be (of_nat (length value)) else [of_nat (length value)]) @ value))"

fun encode_asns :: "bool \<Rightarrow> bytes \<Rightarrow> u32 list \<Rightarrow> BgpError + bytes" where
  "encode_asns four path [] = Inr path"
| "encode_asns four path (asn # asns) =
     (if asn = 0 then bgp_err 3 11
      else if four then encode_asns four (path @ u32_be asn) asns
      else if 65535 < asn then bgp_err 3 11
      else encode_asns four (path @ u16_be (ucast asn)) asns)"

fun is_sequence :: "AsPathSegment \<Rightarrow> bool" where
  "is_sequence (Sequence _) = True"
| "is_sequence (AsSet _) = False"

fun encode_path :: "bool \<Rightarrow> bytes \<Rightarrow> AsPathSegment list \<Rightarrow> BgpError + bytes" where
  "encode_path four path [] = Inr path"
| "encode_path four path (segment # segments) =
     (let values = AsPathSegment_members segment
      in if values = [] \<or> 255 < length values then bgp_err 3 11
         else if BGP_MAX_MESSAGE < length path + 2 + length values * (if four then 4 else 2) then bgp_err 1 2
         else and_then (encode_asns four (path @ [if is_sequence segment then 2 else 1, of_nat (length values)]) values)
                (\<lambda>path'. encode_path four path' segments))"

fun encode_unknown :: "u8 list \<Rightarrow> bytes \<Rightarrow> BgpUnknownAttribute list \<Rightarrow> BgpError + bytes" where
  "encode_unknown seen out [] = Inr out"
| "encode_unknown seen out (u # us) =
     (if ua_code u \<in> set seen \<or> ua_flags u AND 0xc0 \<noteq> 0xc0 then bgp_err 3 4
      else and_then (attribute out (ua_flags u) (ua_code u) (ua_value u)) (\<lambda>out'. encode_unknown (ua_code u # seen) out' us))"

definition attribute_if :: "u8 \<Rightarrow> u8 \<Rightarrow> bytes option \<Rightarrow> bytes \<Rightarrow> BgpError + bytes" where
  "attribute_if flags code value out = (case value of None \<Rightarrow> Inr out | Some v \<Rightarrow> attribute out flags code v)"

definition BgpAttributes_encode :: "bool \<Rightarrow> BgpAttributes \<Rightarrow> BgpError + bytes" where
  "BgpAttributes_encode four a =
     and_then (attribute [] 0x40 1 [origin_u8 (at_origin a)]) (\<lambda>o1.
     and_then (encode_path four [] (at_as_path a)) (\<lambda>path.
     and_then (attribute o1 0x40 2 path) (\<lambda>o2.
     and_then (attribute o2 0x40 3 (octets (at_next_hop a))) (\<lambda>o3.
     and_then (attribute_if 0x40 6 (if at_atomic_aggregate a then Some [] else None) o3) (\<lambda>o4.
     and_then (attribute_if 0x80 4 (map_option u32_be (at_med a)) o4) (\<lambda>o5.
     and_then (attribute_if 0x40 5 (map_option u32_be (at_local_preference a)) o5) (\<lambda>o6.
     and_then (attribute_if 0x80 9 (map_option octets (at_originator_id a)) o6) (\<lambda>o7.
     and_then (if at_cluster_list a \<noteq> [] then
                 if BGP_MAX_MESSAGE div 4 < length (at_cluster_list a) then bgp_err 1 2
                 else attribute o7 0x80 10 (concat (map octets (at_cluster_list a)))
               else Inr o7) (\<lambda>o8.
     encode_unknown [1, 2, 3, 4, 5, 6, 9, 10] o8 (at_unknown_transitive a))))))))))"

text \<open>The variables of \<open>decode\<close>: the fields found so far and the codes seen.\<close>

record AttributeVars =
  av_origin :: "BgpOrigin option"
  av_as_path :: "AsPathSegment list option"
  av_next_hop :: "ipv4 option"
  av_atomic_aggregate :: bool
  av_med :: "u32 option"
  av_local_preference :: "u32 option"
  av_originator_id :: "ipv4 option"
  av_cluster_list :: "ipv4 list"
  av_unknown_transitive :: "BgpUnknownAttribute list"
  av_seen :: "u8 list"

definition no_attributes :: AttributeVars where
  "no_attributes = \<lparr>av_origin = None, av_as_path = None, av_next_hop = None, av_atomic_aggregate = False, av_med = None,
     av_local_preference = None, av_originator_id = None, av_cluster_list = [], av_unknown_transitive = [], av_seen = []\<rparr>"

function decode_path_from :: "bool \<Rightarrow> AsPathSegment list \<Rightarrow> bytes \<Rightarrow> BgpError + AsPathSegment list" where
  "decode_path_from four segments bs =
     (if bs = [] then Inr segments
      else if length bs < 2 \<or> bs ! 1 = 0 \<or> bs ! 0 \<notin> {1, 2} then bgp_err 3 11
      else let len = unat (bs ! 1) * (if four then 4 else 2)
      in case get_range 2 (2 + len) bs of
           None \<Rightarrow> bgp_err 3 11
         | Some value \<Rightarrow>
             let members = (if four then map (\<lambda>v. u32_at v 0) (as_chunks 4 value)
                            else map (\<lambda>v. ucast (u16_at v 0)) (as_chunks 2 value))
             in if 0 \<in> set members then bgp_err 3 11
                else decode_path_from four (segments @ [if bs ! 0 = 1 then AsSet members else Sequence members]) (drop (2 + len) bs))"
  by pat_completeness auto
termination by (relation "measure (\<lambda>(four, segments, bs). length bs)") auto

declare decode_path_from.simps [simp del]

definition decode_path :: "bool \<Rightarrow> bytes \<Rightarrow> BgpError + AsPathSegment list" where
  "decode_path four bs = decode_path_from four [] bs"

definition expected_flags :: "u8 \<Rightarrow> u8 option" where
  "expected_flags code =
     (if code \<in> {1, 2, 3, 5, 6} then Some 0x40 else if code \<in> {4, 9, 10} then Some 0x80
      else if code \<in> {7, 17, 18} then Some 0xc0 else None)"

definition decode_origin :: "u8 \<Rightarrow> BgpError + BgpOrigin" where
  "decode_origin v = (if v = 0 then Inr Igp else if v = 1 then Inr Egp else if v = 2 then Inr Incomplete else bgp_err 3 6)"

text \<open>The \<open>match code\<close> of the loop body.\<close>

definition attribute_value :: "bool \<Rightarrow> u8 \<Rightarrow> u8 \<Rightarrow> bytes \<Rightarrow> AttributeVars \<Rightarrow> BgpError + AttributeVars" where
  "attribute_value four flags code value st =
     (if code = 1 then
        if length value \<noteq> 1 then bgp_err 3 5
        else and_then (decode_origin (value ! 0)) (\<lambda>r. Inr (st\<lparr>av_origin := Some r\<rparr>))
      else if code = 2 then and_then (decode_path four value) (\<lambda>p. Inr (st\<lparr>av_as_path := Some p\<rparr>))
      else if code = 3 then
        if length value \<noteq> 4 then bgp_err 3 5
        else let address = ip_of value
             in if is_unspecified address \<or> is_multicast address \<or> is_broadcast address then bgp_err 3 8
                else Inr (st\<lparr>av_next_hop := Some address\<rparr>)
      else if code = 4 \<or> code = 5 then
        if length value \<noteq> 4 then bgp_err 3 5
        else if code = 4 then Inr (st\<lparr>av_med := Some (u32_at value 0)\<rparr>)
        else Inr (st\<lparr>av_local_preference := Some (u32_at value 0)\<rparr>)
      else if code = 9 then
        if length value \<noteq> 4 then bgp_err 3 5 else Inr (st\<lparr>av_originator_id := Some (ip_of value)\<rparr>)
      else if code = 10 then
        if \<not> 4 dvd length value then bgp_err 3 5
        else Inr (st\<lparr>av_cluster_list := map ip_of (as_chunks 4 value)\<rparr>)
      else if code = 6 then
        if length value \<noteq> 0 then bgp_err 3 5 else Inr (st\<lparr>av_atomic_aggregate := True\<rparr>)
      else if (code = 17 \<or> code = 18) \<and> four then Inr st
      else if flags AND 0x80 = 0 then bgp_err 3 2
      else if flags AND 0xc0 = 0xc0 then
        Inr (st\<lparr>av_unknown_transitive := av_unknown_transitive st @ [\<lparr>ua_flags = flags AND 0xe0, ua_code = code, ua_value = value\<rparr>]\<rparr>)
      else Inr st)"

definition attribute_step :: "bool \<Rightarrow> u8 \<Rightarrow> u8 \<Rightarrow> bytes \<Rightarrow> AttributeVars \<Rightarrow> BgpError + AttributeVars" where
  "attribute_step four flags code value st =
     (if code \<in> set (av_seen st) then bgp_err 3 1
      else if (case expected_flags code of None \<Rightarrow> False | Some e \<Rightarrow> flags AND 0xc0 \<noteq> e) \<or>
              (flags AND 0x20 \<noteq> 0 \<and> flags AND 0xc0 \<noteq> 0xc0) then bgp_err 3 4
      else attribute_value four flags code value (st\<lparr>av_seen := code # av_seen st\<rparr>))"

function decode_attributes_from :: "bool \<Rightarrow> AttributeVars \<Rightarrow> bytes \<Rightarrow> BgpError + AttributeVars" where
  "decode_attributes_from four st bs =
     (if bs = [] then Inr st
      else if length bs < 3 then bgp_err 3 1
      else let flags = bs ! 0; code = bs ! 1
      in if flags AND 0x10 \<noteq> 0 \<and> length bs < 4 then bgp_err 3 1
         else let (header, len) = (if flags AND 0x10 \<noteq> 0 then (4, unat (u16_at bs 2)) else (3, unat (bs ! 2)))
         in case get_range header (header + len) bs of
              None \<Rightarrow> bgp_err 3 5
            | Some value \<Rightarrow>
                (case attribute_step four flags code value st of
                   Inl e \<Rightarrow> Inl e
                 | Inr st' \<Rightarrow> decode_attributes_from four st' (drop (header + len) bs)))"
  by pat_completeness auto
termination by (relation "measure (\<lambda>(four, st, bs). length bs)") (auto split: if_splits)

declare decode_attributes_from.simps [simp del]

definition BgpAttributes_decode :: "bool \<Rightarrow> bytes \<Rightarrow> BgpError + BgpAttributes" where
  "BgpAttributes_decode four bs =
     and_then (decode_attributes_from four no_attributes bs) (\<lambda>st.
     and_then (ok_or (BgpError_new 3 3) (av_origin st)) (\<lambda>origin.
     and_then (ok_or (BgpError_new 3 3) (av_as_path st)) (\<lambda>as_path.
     and_then (ok_or (BgpError_new 3 3) (av_next_hop st)) (\<lambda>next_hop.
     Inr \<lparr>at_origin = origin, at_as_path = as_path, at_next_hop = next_hop, at_atomic_aggregate = av_atomic_aggregate st,
          at_med = av_med st, at_local_preference = av_local_preference st, at_originator_id = av_originator_id st,
          at_cluster_list = av_cluster_list st, at_unknown_transitive = av_unknown_transitive st\<rparr>))))"

section \<open>Messages\<close>

fun capability_tlv :: "BgpCapability \<Rightarrow> u8 \<times> bytes" where
  "capability_tlv (FourOctetAs asn) = (65, u32_be asn)"
| "capability_tlv (Multiprotocol afi safi) = (1, u16_be afi @ [0, safi])"
| "capability_tlv RouteRefresh = (2, [])"
| "capability_tlv (UnknownCapability code value) = (code, value)"

fun encode_capabilities :: "bytes \<Rightarrow> BgpCapability list \<Rightarrow> BgpError + bytes" where
  "encode_capabilities caps [] = Inr caps"
| "encode_capabilities caps (c # cs) =
     (let (code, value) = capability_tlv c
      in if 255 < length value \<or> 253 < length caps + 2 + length value then bgp_err 2 4
         else encode_capabilities (caps @ [code, of_nat (length value)] @ value) cs)"

definition encode_open :: "BgpOpen \<Rightarrow> BgpError + bytes" where
  "encode_open op =
     and_then (BgpOpen_validate op) (\<lambda>_.
     and_then (encode_capabilities [] (op_capabilities op)) (\<lambda>caps.
     Inr ([4] @ u16_be (op_autonomous_system op) @ u16_be (op_hold_time op) @ octets (op_router_id op) @
          (if caps = [] then [0] else [of_nat (length caps + 2), 2, of_nat (length caps)] @ caps))))"

definition encode_update :: "bool \<Rightarrow> BgpUpdate \<Rightarrow> BgpError + bytes" where
  "encode_update four u =
     (if up_announced u \<noteq> [] \<and> up_attributes u = None then bgp_err 3 3
      else and_then (encode_prefixes (up_withdrawn u)) (\<lambda>withdrawn.
           and_then (case up_attributes u of None \<Rightarrow> Inr [] | Some a \<Rightarrow> BgpAttributes_encode four a) (\<lambda>attrs.
           if 65535 < length attrs then bgp_err 1 2
           else and_then (encode_prefixes (up_announced u)) (\<lambda>announced.
             Inr (u16_be (of_nat (length withdrawn)) @ withdrawn @ u16_be (of_nat (length attrs)) @ attrs @ announced)))))"

fun encode_body :: "bool \<Rightarrow> BgpMessage \<Rightarrow> BgpError + u8 \<times> bytes" where
  "encode_body four (Open op) = and_then (encode_open op) (\<lambda>b. Inr (1, b))"
| "encode_body four (Update u) = and_then (encode_update four u) (\<lambda>b. Inr (2, b))"
| "encode_body four (Notification code subcode data) =
     (if BGP_MAX_MESSAGE - 21 < length data then bgp_err 1 2 else Inr (3, [code, subcode] @ data))"
| "encode_body four Keepalive = Inr (4, [])"

definition BgpMessage_encode :: "bool \<Rightarrow> BgpMessage \<Rightarrow> BgpError + bytes" where
  "BgpMessage_encode four m =
     and_then (encode_body four m) (\<lambda>(kind, body).
       let out = (replicate 16 255 @ [0, 0, 0] @ body)[18 := kind]
       in if BGP_MAX_MESSAGE < length out then bgp_err 1 2
          else Inr (copy_into 16 (u16_be (of_nat (length out))) out))"

definition message_length :: "bytes \<Rightarrow> BgpError + nat" where
  "message_length bs =
     (if length bs < 19 then bgp_err 1 2
      else if take 16 bs \<noteq> replicate 16 255 then bgp_err 1 1
      else let len = unat (u16_at bs 16)
      in if \<not> (19 \<le> len \<and> len \<le> BGP_MAX_MESSAGE) then bgp_err 1 2
         else if \<not> (1 \<le> bs ! 18 \<and> bs ! 18 \<le> 4) then bgp_err 1 3
         else Inr len)"

definition decode_capability :: "u8 \<Rightarrow> bytes \<Rightarrow> BgpError + BgpCapability" where
  "decode_capability code content =
     (if code = 65 \<and> length content = 4 then Inr (FourOctetAs (u32_at content 0))
      else if code = 1 \<and> length content = 4 then Inr (Multiprotocol (u16_at content 0) (content ! 3))
      else if code = 2 \<and> length content = 0 then Inr RouteRefresh
      else if code \<in> {1, 2, 65} then bgp_err 2 4
      else Inr (UnknownCapability code content))"

function decode_capabilities :: "BgpCapability list \<Rightarrow> bytes \<Rightarrow> BgpError + BgpCapability list" where
  "decode_capabilities caps value =
     (if value = [] then Inr caps
      else if length value < 2 then bgp_err 2 4
      else let size = unat (value ! 1)
      in case get_range 2 (2 + size) value of
           None \<Rightarrow> bgp_err 2 4
         | Some content \<Rightarrow>
             (case decode_capability (value ! 0) content of
                Inl e \<Rightarrow> Inl e
              | Inr c \<Rightarrow> decode_capabilities (caps @ [c]) (drop (2 + size) value)))"
  by pat_completeness auto
termination by (relation "measure (\<lambda>(caps, value). length value)") auto

function decode_parameters :: "BgpCapability list \<Rightarrow> bytes \<Rightarrow> BgpError + BgpCapability list" where
  "decode_parameters caps rest =
     (if rest = [] then Inr caps
      else if length rest < 2 then bgp_err 2 4
      else let len = unat (rest ! 1)
      in case get_range 2 (2 + len) rest of
           None \<Rightarrow> bgp_err 2 4
         | Some value \<Rightarrow>
             if rest ! 0 \<noteq> 2 then bgp_err 2 4
             else (case decode_capabilities caps value of
                     Inl e \<Rightarrow> Inl e
                   | Inr caps' \<Rightarrow> decode_parameters caps' (drop (2 + len) rest)))"
  by pat_completeness auto
termination by (relation "measure (\<lambda>(caps, rest). length rest)") auto

declare decode_capabilities.simps [simp del] decode_parameters.simps [simp del]

definition decode_open :: "bytes \<Rightarrow> BgpError + BgpMessage" where
  "decode_open b =
     (if length b < 10 \<or> unat (b ! 9) + 10 \<noteq> length b then bgp_err 1 2
      else if b ! 0 \<noteq> 4 then bgp_err 2 1
      else and_then (decode_parameters [] (drop 10 b)) (\<lambda>caps.
           let op = \<lparr>op_autonomous_system = u16_at b 1, op_hold_time = u16_at b 3, op_router_id = ip_of (slice 5 9 b),
                     op_capabilities = caps\<rparr>
           in and_then (BgpOpen_validate op) (\<lambda>_. Inr (Open op))))"

definition decode_update :: "bool \<Rightarrow> bytes \<Rightarrow> BgpError + BgpMessage" where
  "decode_update four b =
     (if length b < 4 then bgp_err 3 1
      else let count = unat (u16_at b 0)
      in and_then (ok_or (BgpError_new 3 1) (get_range 2 (2 + count) b)) (\<lambda>w.
         and_then (decode_prefixes w) (\<lambda>withdrawn.
         let rest = drop (2 + count) b
         in if length rest < 2 then bgp_err 3 1
            else let count' = unat (u16_at rest 0)
            in and_then (ok_or (BgpError_new 3 1) (get_range 2 (2 + count') rest)) (\<lambda>attrs.
               and_then (decode_prefixes (drop (2 + count') rest)) (\<lambda>announced.
               and_then (if attrs = [] then Inr None
                         else and_then (BgpAttributes_decode four attrs) (\<lambda>a. Inr (Some a))) (\<lambda>attributes.
               if announced \<noteq> [] \<and> attributes = None then bgp_err 3 3
               else Inr (Update \<lparr>up_withdrawn = withdrawn, up_attributes = attributes, up_announced = announced\<rparr>)))))))"

definition BgpMessage_decode :: "bool \<Rightarrow> bytes \<Rightarrow> BgpError + BgpMessage" where
  "BgpMessage_decode four bs =
     and_then (message_length bs) (\<lambda>len.
       if len \<noteq> length bs then bgp_err 1 2
       else let b = drop 19 bs
       in if bs ! 18 = 1 then decode_open b
          else if bs ! 18 = 2 then decode_update four b
          else if bs ! 18 = 3 then
            if length b < 2 then bgp_err 1 2 else Inr (Notification (b ! 0) (b ! 1) (drop 2 b))
          else if bs ! 18 = 4 \<and> b = [] then Inr Keepalive
          else bgp_err 1 2)"

section \<open>The stream\<close>

record BgpStream =
  bs_bytes :: bytes

definition BgpStream_push :: "bytes \<Rightarrow> BgpStream \<Rightarrow> (BgpError + unit) \<times> BgpStream" where
  "BgpStream_push bytes s =
     (if BGP_MAX_MESSAGE * 2 - length (bs_bytes s) < length bytes then (bgp_err 6 8, s)
      else (Inr (), s\<lparr>bs_bytes := bs_bytes s @ bytes\<rparr>))"

definition BgpStream_next_message :: "bool \<Rightarrow> BgpStream \<Rightarrow> (BgpError + BgpMessage option) \<times> BgpStream" where
  "BgpStream_next_message four s =
     (if length (bs_bytes s) < 19 then (Inr None, s)
      else case message_length (bs_bytes s) of
        Inl e \<Rightarrow> (Inl e, s)
      | Inr len \<Rightarrow>
          if length (bs_bytes s) < len then (Inr None, s)
          else (case BgpMessage_decode four (take len (bs_bytes s)) of
                  Inl e \<Rightarrow> (Inl e, s)
                | Inr m \<Rightarrow> (Inr (Some m), s\<lparr>bs_bytes := drop len (bs_bytes s)\<rparr>)))"

definition BgpStream_buffered_len :: "BgpStream \<Rightarrow> nat" where
  "BgpStream_buffered_len s = length (bs_bytes s)"

section \<open>Round trip of prefix lists\<close>

definition prefix_bytes :: "Ipv4Network \<Rightarrow> bytes" where
  "prefix_bytes p = nw_prefix_len p # take (prefix_octets (nw_prefix_len p)) (octets (nw_address p))"

lemma prefix_octets_le: "len \<le> 32 \<Longrightarrow> prefix_octets len \<le> 4 \<and> unat len \<le> 8 * prefix_octets len"
  using div_ceil_bounds [of 8 "unat len"] by (auto simp: prefix_octets_def word_le_nat_alt)

lemma bit_octets: "j < 4 \<Longrightarrow> bit (octets a ! j) i \<longleftrightarrow> i < 8 \<and> bit a (8 * (3 - j) + i)"
  by (auto simp: octets_def u32_be_def u16_be_def bit_simps numeral_eq_Suc less_Suc_eq)

lemma prefix_address:
  assumes "wf_network n"
  shows "copy_into 0 (take (prefix_octets (nw_prefix_len n)) (octets (nw_address n))) (replicate 4 0) = octets (nw_address n)"
    (is "?l = _")
proof (rule nth_equalityI)
  let ?k = "prefix_octets (nw_prefix_len n)"
  have len: "nw_prefix_len n \<le> 32" and norm: "nw_address n AND prefix_mask (nw_prefix_len n) = nw_address n"
    using assms by (auto simp: wf_network_def)
  have k: "?k \<le> 4" "unat (nw_prefix_len n) \<le> 8 * ?k" using prefix_octets_le [OF len] by auto
  show "length ?l = length (octets (nw_address n))" using k(1) by (simp add: copy_into_def)
  fix j assume "j < length ?l"
  then have j: "j < 4" using k(1) by (simp add: copy_into_def)
  show "?l ! j = octets (nw_address n) ! j"
  proof (cases "j < ?k")
    case True
    then show ?thesis using k(1) by (simp add: copy_into_def nth_append)
  next
    case False
    have "octets (nw_address n) ! j = 0"
    proof (rule bit_eqI)
      fix i
      have "8 * (3 - j) + i < 32 - unat (nw_prefix_len n)" if "i < 8" using that False j k by linarith
      then have "\<not> bit (nw_address n) (8 * (3 - j) + i)" if "i < 8"
        using that by (subst norm [symmetric]) (simp add: prefix_mask_eq [OF len] bit_simps)
      then show "bit (octets (nw_address n) ! j) i = bit (0 :: u8) i" using bit_octets [OF j] by auto
    qed
    then show ?thesis using False j k(1) by (simp add: copy_into_def nth_append)
  qed
qed

lemma encode_prefixes_bytes:
  "length out + length (concat (map prefix_bytes ps)) \<le> BGP_MAX_MESSAGE \<Longrightarrow> \<forall>p\<in>set ps. wf_network p \<Longrightarrow>
     encode_prefixes_from out ps = Inr (out @ concat (map prefix_bytes ps))"
proof (induction ps arbitrary: out)
  case (Cons p ps)
  have "nw_prefix_len p \<le> 32" using Cons.prems by (simp add: wf_network_def)
  then have "length (prefix_bytes p) = 1 + prefix_octets (nw_prefix_len p)"
    using prefix_octets_le by (simp add: prefix_bytes_def)
  then show ?case using Cons by (simp add: prefix_bytes_def)
qed simp

lemma decode_prefixes_step:
  assumes wf: "wf_network p"
  shows "decode_prefixes_from out (prefix_bytes p @ rest) = decode_prefixes_from (out @ [p]) rest"
proof -
  let ?k = "prefix_octets (nw_prefix_len p)"
  have len: "nw_prefix_len p \<le> 32" using wf by (simp add: wf_network_def)
  have l: "length (take ?k (octets (nw_address p))) = ?k" using prefix_octets_le [OF len] by simp
  then have "get_range 0 ?k (take ?k (octets (nw_address p)) @ rest) = Some (take ?k (octets (nw_address p)))"
    by (simp add: get_range_def slice_def)
  moreover have "Ipv4Network_new (nw_address p) (nw_prefix_len p) = Inr p"
    using wf by (simp add: Ipv4Network_new_eq wf_network_def)
  ultimately show ?thesis
    using leD [OF len] l by (simp add: prefix_bytes_def prefix_address [OF wf])
qed

lemma decode_prefixes_bytes:
  "\<forall>p\<in>set ps. wf_network p \<Longrightarrow> decode_prefixes_from out (concat (map prefix_bytes ps)) = Inr (out @ ps)"
  by (induction ps arbitrary: out) (simp_all add: decode_prefixes_step)

section \<open>Round trip of AS paths\<close>

definition asn_bytes :: "bool \<Rightarrow> u32 \<Rightarrow> bytes" where
  "asn_bytes four asn = (if four then u32_be asn else u16_be (ucast asn))"

definition segment_bytes :: "bool \<Rightarrow> AsPathSegment \<Rightarrow> bytes" where
  "segment_bytes four s =
     [if is_sequence s then 2 else 1, of_nat (length (AsPathSegment_members s))] @
     concat (map (asn_bytes four) (AsPathSegment_members s))"

definition wire_asn :: "bool \<Rightarrow> u32 \<Rightarrow> bool" where
  "wire_asn four asn = (asn \<noteq> 0 \<and> (four \<or> asn \<le> 65535))"

definition wire_segments :: "bool \<Rightarrow> AsPathSegment list \<Rightarrow> bool" where
  "wire_segments four path =
     list_all (\<lambda>s. length (AsPathSegment_members s) \<in> {1..255} \<and> list_all (wire_asn four) (AsPathSegment_members s)) path"

lemma length_asns: "length (concat (map (asn_bytes four) asns)) = (if four then 4 else 2) * length asns"
  by (rule concat_map_length) (simp add: asn_bytes_def)

lemma length_segment_bytes:
  "length (segment_bytes four s) = 2 + (if four then 4 else 2) * length (AsPathSegment_members s)"
  by (simp add: segment_bytes_def length_asns)

lemma encode_asns_bytes:
  "list_all (wire_asn four) asns \<Longrightarrow> encode_asns four path asns = Inr (path @ concat (map (asn_bytes four) asns))"
  by (induction asns arbitrary: path) (auto simp: wire_asn_def asn_bytes_def not_le)

lemma encode_path_bytes:
  "wire_segments four segments \<Longrightarrow> length path + length (concat (map (segment_bytes four) segments)) \<le> BGP_MAX_MESSAGE \<Longrightarrow>
     encode_path four path segments = Inr (path @ concat (map (segment_bytes four) segments))"
proof (induction segments arbitrary: path)
  case (Cons s segments)
  let ?v = "AsPathSegment_members s"
  have v: "?v \<noteq> []" "length ?v \<le> 255" "list_all (wire_asn four) ?v" "wire_segments four segments"
    using Cons.prems(1) by (auto simp: wire_segments_def)
  have "length path + 2 + length ?v * (if four then 4 else 2) \<le> BGP_MAX_MESSAGE"
    using Cons.prems(2) by (simp add: length_segment_bytes mult.commute)
  then show ?case
    using v Cons.IH [OF v(4), of "path @ segment_bytes four s"] Cons.prems(2)
    by (simp add: encode_asns_bytes Let_def not_less segment_bytes_def)
qed simp

lemma decode_asns:
  assumes "list_all (wire_asn four) asns"
  shows "(if four then map (\<lambda>v. u32_at v 0) (as_chunks 4 (concat (map (asn_bytes four) asns)))
    else map (\<lambda>v. ucast (u16_at v 0)) (as_chunks 2 (concat (map (asn_bytes four) asns)))) = asns"
proof (cases four)
  case True
  then have "asn_bytes four = u32_be" by (simp add: asn_bytes_def fun_eq_iff)
  then show ?thesis using True by (simp add: u32_run.decode_run)
next
  case False
  have "ucast (ucast asn :: u16) = asn" if "asn \<in> set asns" for asn
  proof -
    have "unat asn < 2 ^ 16" using assms False that by (auto simp: list_all_iff wire_asn_def word_le_nat_alt)
    then show ?thesis by (simp add: word_unat_eq_iff unsigned_ucast_eq unsigned_take_bit_eq take_bit_nat_eq_self)
  qed
  moreover have "concat (map (asn_bytes four) asns) = concat (map u16_be (map ucast asns))"
    using False by (auto simp: asn_bytes_def fun_eq_iff intro!: arg_cong [of _ _ concat])
  moreover have "as_chunks 2 (concat (map u16_be (map ucast asns))) = map u16_be (map ucast asns)" by (rule u16_run.chunks_run)
  ultimately show ?thesis using False by (simp only: if_False) (simp add: map_idI)
qed

lemma decode_path_step:
  assumes "length (AsPathSegment_members s) \<in> {1..255}" "list_all (wire_asn four) (AsPathSegment_members s)"
  shows "decode_path_from four segments (segment_bytes four s @ rest) = decode_path_from four (segments @ [s]) rest"
proof -
  let ?v = "AsPathSegment_members s" and ?w = "if four then 4 else (2::nat)"
  define bs where "bs = segment_bytes four s @ rest"
  have n: "unat (of_nat (length ?v) :: u8) = length ?v" "(of_nat (length ?v) :: u8) \<noteq> 0"
    using assms(1) by (auto simp: unat_of_nat unat_eq_zero [symmetric] simp del: unat_eq_zero)
  have f: "bs ! 0 = (if is_sequence s then 2 else 1)" "bs ! 1 = of_nat (length ?v)" "bs \<noteq> []" "\<not> length bs < 2"
    by (simp_all add: segment_bytes_def bs_def)
  moreover have "get_range 2 (2 + length ?v * ?w) bs = Some (concat (map (asn_bytes four) ?v))"
    using length_asns [of four ?v] by (simp add: get_range_def slice_def segment_bytes_def bs_def mult.commute)
  moreover have "drop (2 + length ?v * ?w) bs = rest"
    using length_asns [of four ?v] by (simp add: segment_bytes_def bs_def mult.commute)
  moreover have "0 \<notin> set ?v" using assms(2) by (auto simp: list_all_iff wire_asn_def)
  moreover have "(if (if is_sequence s then 2 else 1 :: u8) = 1 then AsSet ?v else Sequence ?v) = s"
    by (cases s) simp_all
  ultimately show ?thesis
    using n unfolding bs_def [symmetric]
    by (subst decode_path_from.simps) (simp add: decode_asns [OF assms(2)] del: One_nat_def add_2_eq_Suc add_2_eq_Suc')
qed

lemma decode_path_bytes:
  "wire_segments four path \<Longrightarrow> decode_path_from four segments (concat (map (segment_bytes four) path)) = Inr (segments @ path)"
proof (induction path arbitrary: segments)
  case Nil
  show ?case by (simp add: decode_path_from.simps)
next
  case (Cons s path)
  then show ?case by (simp add: wire_segments_def decode_path_step)
qed

section \<open>Round trip of attributes\<close>

type_synonym attr = "u8 \<times> u8 \<times> bytes"

definition wire_flags :: "u8 \<Rightarrow> bytes \<Rightarrow> u8" where
  "wire_flags flags value = flags OR (if 255 < length value then 0x10 else 0)"

fun attr_bytes :: "attr \<Rightarrow> bytes" where
  "attr_bytes (flags, code, value) =
     [wire_flags flags value, code] @
     (if 255 < length value then u16_be (of_nat (length value)) else [of_nat (length value)]) @ value"

abbreviation attrs_bytes :: "attr list \<Rightarrow> bytes" where
  "attrs_bytes l \<equiv> concat (map attr_bytes l)"

definition plain_flags :: "u8 \<Rightarrow> bool" where
  "plain_flags f = (f \<in> {0x40, 0x80, 0xc0, 0xe0})"

lemma plain_flags_bits:
  assumes "plain_flags f"
  shows "f AND 0xe0 = f" "wire_flags f v AND 0xc0 = f AND 0xc0" "wire_flags f v AND 0x20 = f AND 0x20"
    "wire_flags f v AND 0x80 = f AND 0x80" "wire_flags f v AND 0xe0 = f" "wire_flags f v AND 0x10 = 0 \<longleftrightarrow> length v \<le> 255"
  using assms by (auto simp: plain_flags_def wire_flags_def)

lemma length_attr_bytes: "length (attr_bytes (f, c, v)) = length v + (if 255 < length v then 4 else 3)"
  by simp

lemma attribute_bytes:
  "plain_flags f \<Longrightarrow> length out + length (attr_bytes (f, c, v)) \<le> BGP_MAX_MESSAGE \<Longrightarrow>
     attribute out f c v = Inr (out @ attr_bytes (f, c, v))"
  by (auto simp: attribute_def Let_def plain_flags_bits wire_flags_def)

text \<open>Applying a list of attributes in turn, as the loop does.\<close>

fun apply_attrs :: "bool \<Rightarrow> attr list \<Rightarrow> AttributeVars \<Rightarrow> BgpError + AttributeVars" where
  "apply_attrs four [] st = Inr st"
| "apply_attrs four ((f, c, v) # l) st = and_then (attribute_step four (wire_flags f v) c v st) (apply_attrs four l)"

lemma apply_attrs_append: "apply_attrs four (l @ k) st = and_then (apply_attrs four l st) (apply_attrs four k)"
proof (induction l arbitrary: st)
  case (Cons x l)
  obtain f c v where x: "x = (f, c, v)" by (cases x)
  show ?case unfolding x using Cons by (cases "attribute_step four (wire_flags f v) c v st") simp_all
qed simp

lemma decode_attribute_step:
  assumes "plain_flags f" "length v \<le> 65535"
  shows "decode_attributes_from four st (attr_bytes (f, c, v) @ rest) =
    and_then (attribute_step four (wire_flags f v) c v st) (\<lambda>st'. decode_attributes_from four st' rest)"
proof -
  define bs where "bs = attr_bytes (f, c, v) @ rest"
  let ?h = "if 255 < length v then 4 else (3::nat)"
  have f: "bs ! 0 = wire_flags f v" "bs ! 1 = c" "bs \<noteq> []" "\<not> length bs < 3"
    by (simp_all add: bs_def)
  have flag: "wire_flags f v AND 0x10 \<noteq> 0 \<longleftrightarrow> 255 < length v" by (simp only: plain_flags_bits(6) [OF assms(1)] not_le)
  have short: "\<not> (255 < length v \<and> length bs < 4)" by (simp add: bs_def)
  have len: "(if 255 < length v then (4, unat (u16_at bs 2)) else (3, unat (bs ! 2))) = (?h, length v)"
  proof (cases "255 < length v")
    case True
    then have "u16_at bs 2 = of_nat (length v)"
      using u16_at_be(2) [of "of_nat (length v)" "v @ rest"] by (simp add: bs_def u16_at_def)
    then show ?thesis using True assms(2) by (simp add: unat_of_nat)
  next
    case False
    then have "bs ! 2 = of_nat (length v)" by (simp add: bs_def)
    then show ?thesis using False by (simp add: unat_of_nat)
  qed
  have "length (attr_bytes (f, c, v)) = ?h + length v" by simp
  then have d: "drop (?h + length v) bs = rest" "?h + length v \<le> length bs" by (simp_all add: bs_def del: attr_bytes.simps)
  have "drop ?h bs = v @ rest" by (simp add: bs_def)
  then have "get_range ?h (?h + length v) bs = Some v" using d(2) by (simp add: get_range_def slice_def)
  with f flag short len d show ?thesis
    unfolding bs_def [symmetric]
    by (subst decode_attributes_from.simps) (cases "255 < length v", simp_all add: Let_def and_then_def del: One_nat_def split: sum.split)
qed

lemma decode_attributes_run:
  "\<forall>(f, c, v)\<in>set l. plain_flags f \<and> length v \<le> 65535 \<Longrightarrow>
     decode_attributes_from four st (attrs_bytes l) = apply_attrs four l st"
proof (induction l arbitrary: st)
  case Nil
  show ?case by (simp add: decode_attributes_from.simps)
next
  case (Cons x l)
  obtain f c v where x: "x = (f, c, v)" by (cases x)
  have "decode_attributes_from four st (attr_bytes (f, c, v) @ attrs_bytes l) =
      and_then (attribute_step four (wire_flags f v) c v st) (\<lambda>st'. decode_attributes_from four st' (attrs_bytes l))"
    using Cons.prems x by (intro decode_attribute_step) auto
  also have "\<dots> = and_then (attribute_step four (wire_flags f v) c v st) (apply_attrs four l)"
    using Cons.IH Cons.prems by (simp add: and_then_def split: sum.split)
  finally show ?case by (simp add: x)
qed

subsection \<open>The attributes of a route\<close>

definition put :: "attr list \<Rightarrow> bytes \<Rightarrow> BgpError + bytes" where
  "put l out = (if length out + length (attrs_bytes l) \<le> BGP_MAX_MESSAGE then Inr (out @ attrs_bytes l) else bgp_err 1 2)"

lemma put_Nil: "length out \<le> BGP_MAX_MESSAGE \<Longrightarrow> put [] out = Inr out"
  by (simp add: put_def)

lemma put_put [simp]: "and_then (put l out) (put k) = put (l @ k) out"
  by (simp add: put_def)

lemma and_then_put:
  "e = put l out \<Longrightarrow> (\<And>out. length out \<le> BGP_MAX_MESSAGE \<Longrightarrow> g out = put k out) \<Longrightarrow> and_then e g = put (l @ k) out"
  by (simp add: put_def)

lemma attribute_put: "plain_flags f \<Longrightarrow> attribute out f c v = put [(f, c, v)] out"
  by (simp add: attribute_def put_def Let_def plain_flags_bits wire_flags_def del: One_nat_def)

definition optional_attr :: "u8 \<Rightarrow> u8 \<Rightarrow> bytes option \<Rightarrow> attr list" where
  "optional_attr f c value = (case value of None \<Rightarrow> [] | Some v \<Rightarrow> [(f, c, v)])"

lemma attribute_if_put:
  "plain_flags f \<Longrightarrow> length out \<le> BGP_MAX_MESSAGE \<Longrightarrow> attribute_if f c value out = put (optional_attr f c value) out"
  by (simp add: attribute_if_def optional_attr_def attribute_put put_Nil split: option.split)

definition cluster_value :: "ipv4 list \<Rightarrow> bytes option" where
  "cluster_value l = (if l = [] then None else Some (concat (map octets l)))"

definition unknown_attr :: "BgpUnknownAttribute \<Rightarrow> attr" where
  "unknown_attr u = (ua_flags u, ua_code u, ua_value u)"

definition attrs_of :: "bool \<Rightarrow> BgpAttributes \<Rightarrow> attr list" where
  "attrs_of four a =
     [(0x40, 1, [origin_u8 (at_origin a)])] @ [(0x40, 2, concat (map (segment_bytes four) (at_as_path a)))] @
     [(0x40, 3, octets (at_next_hop a))] @
     optional_attr 0x40 6 (if at_atomic_aggregate a then Some [] else None) @
     optional_attr 0x80 4 (map_option u32_be (at_med a)) @
     optional_attr 0x40 5 (map_option u32_be (at_local_preference a)) @
     optional_attr 0x80 9 (map_option octets (at_originator_id a)) @
     optional_attr 0x80 10 (cluster_value (at_cluster_list a)) @
     map unknown_attr (at_unknown_transitive a)"

text \<open>The attributes that the wire can carry.\<close>

definition wire_unknown :: "bool \<Rightarrow> u8 list \<Rightarrow> BgpUnknownAttribute list \<Rightarrow> bool" where
  "wire_unknown four seen us =
     (distinct (map ua_code us) \<and>
      list_all (\<lambda>u. ua_flags u \<in> {0xc0, 0xe0} \<and> ua_code u \<notin> set seen \<and> \<not> (four \<and> ua_code u \<in> {17, 18})) us)"

definition wire_attributes :: "bool \<Rightarrow> BgpAttributes \<Rightarrow> bool" where
  "wire_attributes four a =
     (wire_segments four (at_as_path a) \<and>
      \<not> (is_unspecified (at_next_hop a) \<or> is_multicast (at_next_hop a) \<or> is_broadcast (at_next_hop a)) \<and>
      wire_unknown four [1, 2, 3, 4, 5, 6, 9, 10] (at_unknown_transitive a) \<and>
      length (attrs_bytes (attrs_of four a)) \<le> BGP_MAX_MESSAGE)"

lemma encode_unknown_put:
  "distinct (map ua_code us) \<Longrightarrow> list_all (\<lambda>u. ua_flags u \<in> {0xc0, 0xe0} \<and> ua_code u \<notin> set seen) us \<Longrightarrow>
     length out \<le> BGP_MAX_MESSAGE \<Longrightarrow> encode_unknown seen out us = put (map unknown_attr us) out"
proof (induction us arbitrary: seen out)
  case Nil
  then show ?case by (simp add: put_Nil)
next
  case (Cons u us)
  have f: "plain_flags (ua_flags u)" "ua_flags u AND 0xc0 = 0xc0"
    using Cons.prems(2) by (auto simp: plain_flags_def)
  have "and_then (put [unknown_attr u] out) (\<lambda>out'. encode_unknown (ua_code u # seen) out' us) = put ([unknown_attr u] @ map unknown_attr us) out"
  proof (rule and_then_put [OF refl])
    fix out' :: bytes
    assume "length out' \<le> BGP_MAX_MESSAGE"
    then show "encode_unknown (ua_code u # seen) out' us = put (map unknown_attr us) out'"
      using Cons.prems(1, 2) by (intro Cons.IH) (auto simp: list_all_iff image_iff)
  qed
  then show ?case using f Cons.prems(2) by (simp add: attribute_put unknown_attr_def [of u])
qed

lemma encode_attributes_put:
  assumes "wire_attributes four a"
  shows "BgpAttributes_encode four a = put (attrs_of four a) []"
proof -
  have path: "encode_path four [] (at_as_path a) = Inr (concat (map (segment_bytes four) (at_as_path a)))"
    using assms by (subst encode_path_bytes) (auto simp: wire_attributes_def attrs_of_def)
  have cluster: "(if at_cluster_list a \<noteq> [] then
                 if BGP_MAX_MESSAGE div 4 < length (at_cluster_list a) then bgp_err 1 2
                 else attribute out 0x80 10 (concat (map octets (at_cluster_list a)))
               else Inr out) = put (optional_attr 0x80 10 (cluster_value (at_cluster_list a))) out"
    if "length out \<le> BGP_MAX_MESSAGE" for out
    using that by (auto simp: put_Nil optional_attr_def cluster_value_def attribute_put plain_flags_def)
      (simp add: put_def ip_run.length_run BGP_MAX_MESSAGE_def)
  have unknown: "encode_unknown [1, 2, 3, 4, 5, 6, 9, 10] out (at_unknown_transitive a) = put (map unknown_attr (at_unknown_transitive a)) out"
    if "length out \<le> BGP_MAX_MESSAGE" for out
    using assms that by (intro encode_unknown_put) (auto simp: wire_attributes_def wire_unknown_def list_all_iff)
  show ?thesis
    unfolding BgpAttributes_encode_def attrs_of_def
    unfolding path and_then_simps
    by (rule and_then_put, simp add: attribute_put attribute_if_put cluster plain_flags_def)+ (rule unknown)
qed

text \<open>Decoding the attributes one by one.\<close>

lemma attrs_of_wire:
  assumes "wire_attributes four a"
  shows "\<forall>(f, c, v)\<in>set (attrs_of four a). plain_flags f \<and> length v \<le> 65535"
proof -
  have "length v \<le> 65535" if "(f, c, v) \<in> set (attrs_of four a)" for f c v
  proof -
    have "length v \<le> length (attr_bytes (f, c, v))" by simp
    also have "\<dots> \<le> length (attrs_bytes (attrs_of four a))"
      unfolding length_concat map_map comp_def set_map by (intro member_le_sum_list) (metis that imageI set_map, rule le0)
    also have "\<dots> \<le> 65535" using assms by (simp add: wire_attributes_def BGP_MAX_MESSAGE_def)
    finally show ?thesis .
  qed
  moreover have "plain_flags f" if "(f, c, v) \<in> set (attrs_of four a)" for f c v
    using that assms
    by (auto simp: attrs_of_def plain_flags_def optional_attr_def unknown_attr_def wire_attributes_def wire_unknown_def list_all_iff
      split: option.splits)
  ultimately show ?thesis by blast
qed

lemmas attribute_step_simps = attribute_step_def attribute_value_def expected_flags_def plain_flags_bits plain_flags_def decode_path_def

lemma step_origin:
  "1 \<notin> set (av_seen st) \<Longrightarrow>
     apply_attrs four [(0x40, 1, [origin_u8 r])] st = Inr (st\<lparr>av_origin := Some r, av_seen := 1 # av_seen st\<rparr>)"
  by (cases r) (simp_all add: attribute_step_simps decode_origin_def)

lemma step_path:
  "wire_segments four p \<Longrightarrow> 2 \<notin> set (av_seen st) \<Longrightarrow>
     apply_attrs four [(0x40, 2, concat (map (segment_bytes four) p))] st =
       Inr (st\<lparr>av_as_path := Some p, av_seen := 2 # av_seen st\<rparr>)"
  by (simp add: attribute_step_simps decode_path_bytes)

lemma step_next_hop:
  "\<not> (is_unspecified h \<or> is_multicast h \<or> is_broadcast h) \<Longrightarrow> 3 \<notin> set (av_seen st) \<Longrightarrow>
     apply_attrs four [(0x40, 3, octets h)] st = Inr (st\<lparr>av_next_hop := Some h, av_seen := 3 # av_seen st\<rparr>)"
  by (simp add: attribute_step_simps)

lemma step_atomic:
  "6 \<notin> set (av_seen st) \<Longrightarrow> \<not> av_atomic_aggregate st \<Longrightarrow>
     apply_attrs four (optional_attr 0x40 6 (if b then Some [] else None)) st =
       Inr (st\<lparr>av_atomic_aggregate := b, av_seen := (if b then [6] else []) @ av_seen st\<rparr>)"
  by (auto simp: attribute_step_simps optional_attr_def)

lemma step_med:
  "4 \<notin> set (av_seen st) \<Longrightarrow> av_med st = None \<Longrightarrow>
     apply_attrs four (optional_attr 0x80 4 (map_option u32_be m)) st =
       Inr (st\<lparr>av_med := m, av_seen := (if m = None then [] else [4]) @ av_seen st\<rparr>)"
  by (cases m) (simp_all add: attribute_step_simps optional_attr_def)

lemma step_local_preference:
  "5 \<notin> set (av_seen st) \<Longrightarrow> av_local_preference st = None \<Longrightarrow>
     apply_attrs four (optional_attr 0x40 5 (map_option u32_be m)) st =
       Inr (st\<lparr>av_local_preference := m, av_seen := (if m = None then [] else [5]) @ av_seen st\<rparr>)"
  by (cases m) (simp_all add: attribute_step_simps optional_attr_def)

lemma step_originator:
  "9 \<notin> set (av_seen st) \<Longrightarrow> av_originator_id st = None \<Longrightarrow>
     apply_attrs four (optional_attr 0x80 9 (map_option octets m)) st =
       Inr (st\<lparr>av_originator_id := m, av_seen := (if m = None then [] else [9]) @ av_seen st\<rparr>)"
  by (cases m) (simp_all add: attribute_step_simps optional_attr_def)

lemma step_cluster:
  "10 \<notin> set (av_seen st) \<Longrightarrow> av_cluster_list st = [] \<Longrightarrow>
     apply_attrs four (optional_attr 0x80 10 (cluster_value l)) st =
       Inr (st\<lparr>av_cluster_list := l, av_seen := (if l = [] then [] else [10]) @ av_seen st\<rparr>)"
  by (cases "l = []")
    (simp_all add: attribute_step_simps optional_attr_def cluster_value_def ip_run.length_run ip_run.decode_run)

lemma step_unknown:
  "wire_unknown four known us \<Longrightarrow> {1, 2, 3, 4, 5, 6, 9, 10} \<subseteq> set known \<Longrightarrow>
     set (av_seen st) \<inter> ua_code ` set us = {} \<Longrightarrow>
     apply_attrs four (map unknown_attr us) st =
       Inr (st\<lparr>av_unknown_transitive := av_unknown_transitive st @ us, av_seen := rev (map ua_code us) @ av_seen st\<rparr>)"
proof (induction us arbitrary: st)
  case (Cons u us)
  have u: "ua_flags u \<in> {0xc0, 0xe0}" "ua_code u \<notin> {1, 2, 3, 4, 5, 6, 9, 10}" "\<not> (four \<and> ua_code u \<in> {17, 18})"
    and us: "wire_unknown four known us" and n: "ua_code u \<notin> ua_code ` set us"
    using Cons.prems(1, 2) by (auto simp: wire_unknown_def)
  have f: "plain_flags (ua_flags u)" "ua_flags u AND 0xc0 = 0xc0" using u(1) by (auto simp: plain_flags_def)
  have e: "expected_flags (ua_code u) = Some 0xc0 \<or> expected_flags (ua_code u) = None"
    using u(2) by (simp add: expected_flags_def)
  have "attribute_step four (wire_flags (ua_flags u) (ua_value u)) (ua_code u) (ua_value u) st =
      Inr (st\<lparr>av_unknown_transitive := av_unknown_transitive st @ [u], av_seen := ua_code u # av_seen st\<rparr>)"
    using u f e Cons.prems(3) plain_flags_bits(2-5) [OF f(1), of "ua_value u"]
    by (auto simp: attribute_step_def attribute_value_def)
  then show ?case using Cons.IH [OF us Cons.prems(2)] n Cons.prems(3) by (auto simp: unknown_attr_def)
qed simp

lemma decode_attributes_bytes:
  assumes "wire_attributes four a"
  shows "BgpAttributes_decode four (attrs_bytes (attrs_of four a)) = Inr a"
proof -
  have w: "wire_segments four (at_as_path a)" "wire_unknown four [1, 2, 3, 4, 5, 6, 9, 10] (at_unknown_transitive a)"
    "\<not> (is_unspecified (at_next_hop a) \<or> is_multicast (at_next_hop a) \<or> is_broadcast (at_next_hop a))"
    using assms by (auto simp: wire_attributes_def)
  have u: "c \<in> {1, 2, 3, 4, 5, 6, 9, 10} \<Longrightarrow> c \<notin> ua_code ` set (at_unknown_transitive a)" for c
    using w(2) by (auto simp: wire_unknown_def list_all_iff)
  have "\<exists>seen. apply_attrs four (attrs_of four a) no_attributes =
      Inr \<lparr>av_origin = Some (at_origin a), av_as_path = Some (at_as_path a), av_next_hop = Some (at_next_hop a),
        av_atomic_aggregate = at_atomic_aggregate a, av_med = at_med a, av_local_preference = at_local_preference a,
        av_originator_id = at_originator_id a, av_cluster_list = at_cluster_list a,
        av_unknown_transitive = at_unknown_transitive a, av_seen = seen\<rparr>"
    unfolding attrs_of_def apply_attrs_append no_attributes_def
    by (simp add: step_origin step_path step_next_hop step_atomic step_med step_local_preference step_originator step_cluster
        step_unknown [OF w(2)] w(1, 3) u del: apply_attrs.simps)
  then show ?thesis
    unfolding BgpAttributes_decode_def decode_attributes_run [OF attrs_of_wire [OF assms]]
    by auto
qed

section \<open>Round trip of messages\<close>

definition capability_bytes :: "BgpCapability \<Rightarrow> bytes" where
  "capability_bytes c = [fst (capability_tlv c), of_nat (length (snd (capability_tlv c)))] @ snd (capability_tlv c)"

abbreviation capabilities_bytes :: "BgpCapability list \<Rightarrow> bytes" where
  "capabilities_bytes cs \<equiv> concat (map capability_bytes cs)"

text \<open>An unknown capability must not use a code that has its own constructor.\<close>

fun wire_capability :: "BgpCapability \<Rightarrow> bool" where
  "wire_capability (UnknownCapability code value) = (code \<notin> {1, 2, 65})"
| "wire_capability _ = True"

definition wire_capabilities :: "BgpCapability list \<Rightarrow> bool" where
  "wire_capabilities cs = (list_all wire_capability cs \<and> length (capabilities_bytes cs) \<le> 253)"

lemma encode_capabilities_bytes:
  "length caps + length (capabilities_bytes cs) \<le> 253 \<Longrightarrow> encode_capabilities caps cs = Inr (caps @ capabilities_bytes cs)"
proof (induction cs arbitrary: caps)
  case (Cons c cs)
  then show ?case
    using Cons.IH [of "caps @ capability_bytes c"] by (simp add: capability_bytes_def Let_def split_beta)
qed simp

lemma decode_capability_tlv:
  "wire_capability c \<Longrightarrow> decode_capability (fst (capability_tlv c)) (snd (capability_tlv c)) = Inr c"
  by (cases c) (auto simp: decode_capability_def nth_append)

lemma decode_capabilities_step:
  assumes "wire_capability c" "length (capability_bytes c) \<le> 253"
  shows "decode_capabilities caps (capability_bytes c @ rest) = decode_capabilities (caps @ [c]) rest"
proof -
  let ?v = "snd (capability_tlv c)"
  define bs where "bs = capability_bytes c @ rest"
  have n: "length ?v \<le> 251" using assms(2) by (simp add: capability_bytes_def)
  then have f: "bs ! 0 = fst (capability_tlv c)" "unat (bs ! 1) = length ?v" "bs \<noteq> []" "\<not> length bs < 2"
    by (simp_all add: capability_bytes_def bs_def unat_of_nat)
  moreover have "get_range 2 (2 + length ?v) bs = Some ?v" "drop (2 + length ?v) bs = rest"
    by (simp_all add: get_range_def slice_def capability_bytes_def bs_def)
  ultimately show ?thesis
    unfolding bs_def [symmetric]
    by (subst decode_capabilities.simps)
      (simp add: decode_capability_tlv [OF assms(1)] del: One_nat_def add_2_eq_Suc add_2_eq_Suc')
qed

lemma decode_capabilities_bytes:
  "wire_capabilities cs \<Longrightarrow> decode_capabilities caps (capabilities_bytes cs) = Inr (caps @ cs)"
proof (induction cs arbitrary: caps)
  case Nil
  show ?case by (simp add: decode_capabilities.simps)
next
  case (Cons c cs)
  then show ?case by (simp add: wire_capabilities_def decode_capabilities_step)
qed

lemma open_round_trip:
  assumes "BgpOpen_validate op = Inr ()" "wire_capabilities (op_capabilities op)"
  shows "\<exists>b. encode_open op = Inr b \<and> length b \<le> 265 \<and> decode_open b = Inr (Open op)"
proof -
  let ?caps = "capabilities_bytes (op_capabilities op)"
  let ?tail = "if ?caps = [] then [0] else [of_nat (length ?caps + 2), 2, of_nat (length ?caps)] @ ?caps"
  let ?head = "[4] @ u16_be (op_autonomous_system op) @ u16_be (op_hold_time op) @ octets (op_router_id op)"
  have n: "length ?caps \<le> 253" using assms(2) by (simp add: wire_capabilities_def)
  have e: "encode_open op = Inr (?head @ ?tail)"
    using assms(1) n by (simp add: encode_open_def encode_capabilities_bytes [of "[]"])
  have h: "length ?head = 9" by simp
  have "decode_parameters [] (drop 1 ?tail) = Inr (op_capabilities op)"
  proof (cases "?caps = []")
    case True
    then have "op_capabilities op = []" by (cases "op_capabilities op") (auto simp: capability_bytes_def)
    then show ?thesis by (simp add: decode_parameters.simps)
  next
    case False
    then have d: "drop 1 ?tail = [2, of_nat (length ?caps)] @ ?caps" by simp
    have "get_range 2 (2 + length ?caps) ([2, of_nat (length ?caps)] @ ?caps) = Some ?caps"
      by (simp add: get_range_def slice_def)
    then show ?thesis
      unfolding d using n decode_capabilities_bytes [OF assms(2), of "[]"]
      by (subst decode_parameters.simps) (simp add: unat_of_nat decode_parameters.simps [of _ "[]"])
  qed
  moreover have "unat (of_nat (length ?caps + 2) :: u8) = length ?caps + 2" using n by (subst unat_of_nat) simp
  then have "unat (?tail ! 0) + 10 = length (?head @ ?tail)" by simp
  moreover have "(?head @ ?tail) ! 9 = ?tail ! 0" "drop 10 (?head @ ?tail) = drop 1 ?tail" "(?head @ ?tail) ! 0 = 4"
    using h by (simp_all add: nth_append)
  moreover have "u16_at (?head @ ?tail) 1 = op_autonomous_system op" "u16_at (?head @ ?tail) 3 = op_hold_time op"
    by (simp_all add: codec_simps)
  moreover have "ip_of (slice 5 9 (?head @ ?tail)) = op_router_id op"
    by (simp add: slice_def)
  moreover have "length (?head @ ?tail) \<le> 265" "\<not> length (?head @ ?tail) < 10" using n by auto
  moreover have "\<lparr>op_autonomous_system = op_autonomous_system op, op_hold_time = op_hold_time op,
      op_router_id = op_router_id op, op_capabilities = op_capabilities op\<rparr> = op" by simp
  ultimately have "decode_open (?head @ ?tail) = Inr (Open op)"
    by (simp only: decode_open_def Let_def assms(1) and_then_simps if_False not_not simp_thms)
  moreover have "length (?head @ ?tail) \<le> 265" using n by auto
  ultimately show ?thesis unfolding e by blast
qed

lemma attrs_bytes_ne: "\<exists>x\<in>set (attrs_of four a). attr_bytes x \<noteq> []"
  by (simp add: attrs_of_def)

definition wire_update :: "bool \<Rightarrow> BgpUpdate \<Rightarrow> bool" where
  "wire_update four u =
     (list_all wf_network (up_withdrawn u) \<and> list_all wf_network (up_announced u) \<and>
      (case up_attributes u of None \<Rightarrow> up_announced u = [] | Some a \<Rightarrow> wire_attributes four a) \<and>
      length (concat (map prefix_bytes (up_withdrawn u))) +
        (case up_attributes u of None \<Rightarrow> 0 | Some a \<Rightarrow> length (attrs_bytes (attrs_of four a))) +
        length (concat (map prefix_bytes (up_announced u))) \<le> BGP_MAX_MESSAGE - 23)"

lemma update_round_trip:
  assumes "wire_update four u"
  shows "\<exists>b. encode_update four u = Inr b \<and> length b \<le> BGP_MAX_MESSAGE - 19 \<and> decode_update four b = Inr (Update u)"
proof -
  define w where "w = concat (map prefix_bytes (up_withdrawn u))"
  define n where "n = concat (map prefix_bytes (up_announced u))"
  define a where "a = (case up_attributes u of None \<Rightarrow> [] | Some x \<Rightarrow> attrs_bytes (attrs_of four x))"
  have l: "length w + length a + length n \<le> 4073"
    using assms by (auto simp: wire_update_def w_def n_def a_def BGP_MAX_MESSAGE_def split: option.splits)
  have wf: "\<forall>p\<in>set (up_withdrawn u). wf_network p" "\<forall>p\<in>set (up_announced u). wf_network p"
    using assms by (auto simp: wire_update_def list_all_iff)
  have ea: "(case up_attributes u of None \<Rightarrow> Inr [] | Some a \<Rightarrow> BgpAttributes_encode four a) = Inr a"
    using assms by (auto simp: wire_update_def a_def wire_attributes_def encode_attributes_put put_def split: option.splits)
  have ew: "encode_prefixes (up_withdrawn u) = Inr w" "encode_prefixes (up_announced u) = Inr n"
    using l wf by (auto simp: encode_prefixes_def w_def n_def BGP_MAX_MESSAGE_def encode_prefixes_bytes [of "[]"])
  have none: "up_announced u \<noteq> [] \<Longrightarrow> up_attributes u \<noteq> None" using assms by (cases "up_attributes u") (simp_all add: wire_update_def)
  define r where "r = u16_be (of_nat (length a)) @ a @ n"
  define b where "b = u16_be (of_nat (length w)) @ w @ r"
  have e: "encode_update four u = Inr b"
    using l none unfolding encode_update_def ea ew b_def r_def by auto
  have u16: "unat (u16_at b 0) = length w" "unat (u16_at r 0) = length a" using l by (simp_all add: b_def r_def unat_of_nat)
  have rng: "get_range 2 (2 + length w) b = Some w" "drop (2 + length w) b = r"
    "get_range 2 (2 + length a) r = Some a" "drop (2 + length a) r = n"
    by (simp_all add: b_def r_def get_range_def slice_def)
  have dw: "decode_prefixes w = Inr (up_withdrawn u)" "decode_prefixes n = Inr (up_announced u)"
    using wf by (simp_all add: decode_prefixes_def w_def n_def decode_prefixes_bytes)
  have da: "(if a = [] then Inr None else and_then (BgpAttributes_decode four a) (\<lambda>a. Inr (Some a))) = Inr (up_attributes u)"
    using assms by (cases "up_attributes u") (simp_all add: a_def wire_update_def decode_attributes_bytes attrs_bytes_ne)
  have "\<not> length b < 4" "\<not> length r < 2" by (simp_all add: b_def r_def)
  then have "decode_update four b = Inr (Update u)"
    using none unfolding decode_update_def Let_def u16 rng ok_or_simps and_then_simps dw da by (cases u) auto
  moreover have "length b \<le> BGP_MAX_MESSAGE - 19" using l by (simp add: b_def r_def BGP_MAX_MESSAGE_def)
  ultimately show ?thesis using e by blast
qed

fun wire_message :: "bool \<Rightarrow> BgpMessage \<Rightarrow> bool" where
  "wire_message four (Open op) = (BgpOpen_validate op = Inr () \<and> wire_capabilities (op_capabilities op))"
| "wire_message four (Update u) = wire_update four u"
| "wire_message four (Notification code subcode data) = (length data \<le> BGP_MAX_MESSAGE - 21)"
| "wire_message four Keepalive = True"

fun message_kind :: "BgpMessage \<Rightarrow> u8" where
  "message_kind (Open _) = 1"
| "message_kind (Update _) = 2"
| "message_kind (Notification _ _ _) = 3"
| "message_kind Keepalive = 4"

definition frame :: "u8 \<Rightarrow> bytes \<Rightarrow> bytes" where
  "frame kind body = replicate 16 255 @ u16_be (of_nat (19 + length body)) @ [kind] @ body"

lemma encode_frame:
  assumes "encode_body four m = Inr (kind, body)" "19 + length body \<le> BGP_MAX_MESSAGE"
  shows "BgpMessage_encode four m = Inr (frame kind body)"
proof -
  have "(replicate 16 255 @ [0, 0, 0] @ body)[18 := kind] = replicate 16 255 @ [0, 0, kind] @ body"
    by (simp add: list_update_append)
  moreover have "copy_into 16 (u16_be k) (replicate 16 255 @ [0, 0, kind] @ body) = replicate 16 255 @ u16_be k @ [kind] @ body" for k
    by (simp add: copy_into_def)
  ultimately show ?thesis using assms by (simp add: BgpMessage_encode_def frame_def Let_def)
qed

lemma message_length_frame:
  assumes "19 + length body \<le> BGP_MAX_MESSAGE" "1 \<le> kind" "kind \<le> 4"
  shows "message_length (frame kind body @ rest) = Inr (19 + length body)"
proof -
  define bs where "bs = frame kind body @ rest"
  have "unat (of_nat (19 + length body) :: u16) = 19 + length body"
    using assms(1) by (subst unat_of_nat) (simp add: BGP_MAX_MESSAGE_def)
  then have "unat (u16_at bs 16) = 19 + length body"
    by (simp add: bs_def frame_def codec_simps)
  moreover have "bs ! 18 = kind" "take 16 bs = replicate 16 255" "\<not> length bs < 19"
    by (simp_all add: bs_def frame_def nth_append)
  ultimately show ?thesis
    unfolding bs_def [symmetric] using assms by (simp add: message_length_def Let_def)
qed

lemma body_round_trip:
  assumes "wire_message four m"
  shows "\<exists>body. encode_body four m = Inr (message_kind m, body) \<and> 19 + length body \<le> BGP_MAX_MESSAGE \<and>
    BgpMessage_decode four (frame (message_kind m) body) = Inr m"
proof -
  have d: "BgpMessage_decode four (frame kind body) =
      (if kind = 1 then decode_open body else if kind = 2 then decode_update four body
       else if kind = 3 then if length body < 2 then bgp_err 1 2 else Inr (Notification (body ! 0) (body ! 1) (drop 2 body))
       else if kind = 4 \<and> body = [] then Inr Keepalive else bgp_err 1 2)"
    if "19 + length body \<le> BGP_MAX_MESSAGE" "1 \<le> kind" "kind \<le> 4" for kind body
  proof -
    have "length (frame kind body) = 19 + length body" "frame kind body ! 18 = kind" "drop 19 (frame kind body) = body"
      by (simp_all add: frame_def nth_append)
    then show ?thesis using message_length_frame [OF that, of "[]"] by (simp add: BgpMessage_decode_def Let_def)
  qed
  show ?thesis
  proof (cases m)
    case (Open op)
    then show ?thesis using open_round_trip [of op] assms by (auto simp: d BGP_MAX_MESSAGE_def)
  next
    case (Update u)
    then show ?thesis using update_round_trip [of four u] assms by (auto simp: d BGP_MAX_MESSAGE_def)
  next
    case (Notification code subcode data)
    then show ?thesis using assms by (auto simp: d BGP_MAX_MESSAGE_def)
  next
    case Keepalive
    then show ?thesis using assms by (auto simp: d BGP_MAX_MESSAGE_def)
  qed
qed

interpretation bgp_message: wire_codec "BgpMessage_encode four" "BgpMessage_decode four" "wire_message four" for four
proof
  fix m bs
  assume m: "wire_message four m"
  obtain body where b: "encode_body four m = Inr (message_kind m, body)" "19 + length body \<le> BGP_MAX_MESSAGE"
    "BgpMessage_decode four (frame (message_kind m) body) = Inr m"
    using body_round_trip [OF m] by blast
  then show "\<exists>bs. BgpMessage_encode four m = Inr bs" by (simp add: encode_frame)
  show "BgpMessage_decode four bs = Inr m" if "BgpMessage_encode four m = Inr bs" using that b by (simp add: encode_frame)
qed

section \<open>Messages out of a byte stream\<close>

lemma message_length_take: "19 \<le> k \<Longrightarrow> message_length (take k bs) = message_length bs"
  by (cases "length bs < 19") (simp_all add: message_length_def u16_at_def min_def Let_def)

text \<open>What one encoded message looks like to the stream.\<close>

definition framed :: "bool \<Rightarrow> BgpMessage \<Rightarrow> bytes \<Rightarrow> bool" where
  "framed four m f = (wire_message four m \<and> BgpMessage_encode four m = Inr f)"

lemma framed_facts:
  assumes "framed four m f"
  shows "19 \<le> length f" "length f \<le> BGP_MAX_MESSAGE" "message_length (f @ rest) = Inr (length f)" "BgpMessage_decode four f = Inr m"
proof -
  obtain body where b: "encode_body four m = Inr (message_kind m, body)" "19 + length body \<le> BGP_MAX_MESSAGE"
    "BgpMessage_decode four (frame (message_kind m) body) = Inr m"
    using body_round_trip [of four m] assms by (auto simp: framed_def)
  then have f: "f = frame (message_kind m) body" using assms by (simp add: framed_def encode_frame)
  then have l: "length f = 19 + length body" by (simp add: frame_def)
  then show "19 \<le> length f" "length f \<le> BGP_MAX_MESSAGE" "BgpMessage_decode four f = Inr m" using b f by simp_all
  have "1 \<le> message_kind m" "message_kind m \<le> 4" by (cases m; simp)+
  then show "message_length (f @ rest) = Inr (length f)" unfolding f using b(2) l f by (simp add: message_length_frame)
qed

lemma next_message_framed:
  "framed four m f \<Longrightarrow> BgpStream_next_message four \<lparr>bs_bytes = f @ rest\<rparr> = (Inr (Some m), \<lparr>bs_bytes = rest\<rparr>)"
  using framed_facts by (simp add: BgpStream_next_message_def not_less trans_le_add1)

lemma next_message_partial:
  assumes "framed four m f" "length b < length f" "f = b @ c"
  shows "BgpStream_next_message four \<lparr>bs_bytes = b\<rparr> = (Inr None, \<lparr>bs_bytes = b\<rparr>)"
proof (cases "length b < 19")
  case False
  then have "message_length b = Inr (length f)"
    using message_length_take [of "length b" f] framed_facts(3) [OF assms(1), of "[]"] assms(3) by simp
  then show ?thesis using assms(2) by (simp add: BgpStream_next_message_def)
qed (simp add: BgpStream_next_message_def)

lemma message_length_min: "message_length bs = Inr n \<Longrightarrow> 19 \<le> n"
  by (auto simp: message_length_def Let_def split: if_splits)

lemma next_message_shrinks:
  "BgpStream_next_message four s = (Inr (Some m), s') \<Longrightarrow> length (bs_bytes s') < length (bs_bytes s)"
  by (auto simp: BgpStream_next_message_def dest!: message_length_min split: if_splits sum.splits)

text \<open>The loop of a reader: push what arrived, then take messages until there is none.\<close>

function drain :: "bool \<Rightarrow> BgpStream \<Rightarrow> (BgpError + BgpMessage list) \<times> BgpStream" where
  "drain four s =
     (case BgpStream_next_message four s of
        (Inl e, s') \<Rightarrow> (Inl e, s')
      | (Inr None, s') \<Rightarrow> (Inr [], s')
      | (Inr (Some m), s') \<Rightarrow> (case drain four s' of (r, s'') \<Rightarrow> (and_then r (\<lambda>ms. Inr (m # ms)), s'')))"
  by pat_completeness auto
termination by (relation "measure (\<lambda>(four, s). length (bs_bytes s))") (auto dest!: next_message_shrinks [OF sym])

declare drain.simps [simp del]

fun receive :: "bool \<Rightarrow> BgpStream \<Rightarrow> bytes list \<Rightarrow> (BgpError + BgpMessage list) \<times> BgpStream" where
  "receive four s [] = (Inr [], s)"
| "receive four s (piece # pieces) =
     (case BgpStream_push piece s of
        (Inl e, s') \<Rightarrow> (Inl e, s')
      | (Inr _, s') \<Rightarrow>
          (case drain four s' of
             (Inl e, s'') \<Rightarrow> (Inl e, s'')
           | (Inr ms, s'') \<Rightarrow> (case receive four s'' pieces of (r, t) \<Rightarrow> (and_then r (\<lambda>ns. Inr (ms @ ns)), t))))"

lemma drain_prefix:
  assumes "list_all2 (framed four) ms fs" "b @ r = concat fs"
  shows "\<exists>k b'. drain four \<lparr>bs_bytes = b\<rparr> = (Inr (take k ms), \<lparr>bs_bytes = b'\<rparr>) \<and> b' @ r = concat (drop k fs) \<and>
    (drop k fs \<noteq> [] \<longrightarrow> length b' < length (hd (drop k fs)))"
  using assms
proof (induction ms fs arbitrary: b rule: list_all2_induct)
  case Nil
  then show ?case by (simp add: drain.simps BgpStream_next_message_def)
next
  case (Cons m ms f fs)
  show ?case
  proof (cases "length f \<le> length b")
    case True
    then obtain b1 where b: "b = f @ b1" using Cons.prems by (auto simp: append_eq_append_conv2)
    then have "b1 @ r = concat fs" using Cons.prems by simp
    from Cons.IH [OF this] obtain k b' where k: "drain four \<lparr>bs_bytes = b1\<rparr> = (Inr (take k ms), \<lparr>bs_bytes = b'\<rparr>)" "b' @ r = concat (drop k fs)"
      "drop k fs \<noteq> [] \<longrightarrow> length b' < length (hd (drop k fs))" by blast
    then have "drain four \<lparr>bs_bytes = b\<rparr> = (Inr (take (Suc k) (m # ms)), \<lparr>bs_bytes = b'\<rparr>)"
      by (subst drain.simps) (simp add: b next_message_framed [OF Cons.hyps(1)])
    with k show ?thesis by (intro exI [of _ "Suc k"] exI [of _ b']) simp
  next
    case False
    then obtain c where c: "f = b @ c" using Cons.prems by (auto simp: append_eq_append_conv2)
    have "drain four \<lparr>bs_bytes = b\<rparr> = (Inr [], \<lparr>bs_bytes = b\<rparr>)"
      using next_message_partial [OF Cons.hyps(1) _ c] False by (subst drain.simps) simp
    then show ?thesis using False Cons.prems by (intro exI [of _ 0] exI [of _ b]) simp
  qed
qed

lemma receive_chunks:
  assumes "list_all2 (framed four) ms fs" "b @ concat pieces = concat fs" "fs \<noteq> [] \<longrightarrow> length b < length (hd fs)"
    "list_all (\<lambda>c. length c \<le> BGP_MAX_MESSAGE) pieces"
  shows "receive four \<lparr>bs_bytes = b\<rparr> pieces = (Inr ms, \<lparr>bs_bytes = []\<rparr>)"
  using assms
proof (induction pieces arbitrary: b ms fs)
  case Nil
  then have "fs = []" by (cases fs) auto
  then show ?case using Nil by simp
next
  case (Cons c pieces)
  have b: "length b \<le> BGP_MAX_MESSAGE"
    using Cons.prems(1, 2, 3) framed_facts(2) by (cases fs) (fastforce simp: list_all2_Cons2)+
  obtain k b' where k: "drain four \<lparr>bs_bytes = b @ c\<rparr> = (Inr (take k ms), \<lparr>bs_bytes = b'\<rparr>)" "b' @ concat pieces = concat (drop k fs)"
    "drop k fs \<noteq> [] \<longrightarrow> length b' < length (hd (drop k fs))"
    using drain_prefix [OF Cons.prems(1), of "b @ c" "concat pieces"] Cons.prems(2) by auto
  have "receive four \<lparr>bs_bytes = b'\<rparr> pieces = (Inr (drop k ms), \<lparr>bs_bytes = []\<rparr>)"
    using Cons.prems(1, 4) k(2, 3) by (intro Cons.IH [of "drop k ms" "drop k fs"]) auto
  moreover have "\<not> BGP_MAX_MESSAGE * 2 - length b < length c" using b Cons.prems(4) by auto
  ultimately show ?case using k(1) by (simp add: BgpStream_push_def)
qed

section \<open>Properties\<close>

text \<open>
  C33. Every BGP message the wire format can carry (an OPEN that validates, an UPDATE whose prefixes are
  canonical and that fits in 4096 octets, a NOTIFICATION, a KEEPALIVE) is encoded without an error, to
  between 19 and 4096 octets of the length its header announces, and decodes to exactly itself: every
  path attribute, AS path segment, capability and prefix included, for two- and four-octet AS numbers.
\<close>
theorem bgp_message_round_trip:
  assumes "wire_message four m"
  shows "\<exists>bs. BgpMessage_encode four m = Inr bs \<and> 19 \<le> length bs \<and> length bs \<le> BGP_MAX_MESSAGE \<and>
    message_length bs = Inr (length bs) \<and> BgpMessage_decode four bs = Inr m"
proof -
  obtain bs where bs: "BgpMessage_encode four m = Inr bs"
    using bgp_message.encode_total [OF assms] by blast
  then have "framed four m bs" using assms by (simp add: framed_def)
  from framed_facts(1, 2) [OF this] framed_facts(3) [OF this, of "[]"] framed_facts(4) [OF this] bs
  show ?thesis by auto
qed

definition sample_update :: BgpMessage where
  "sample_update = Update \<lparr>up_withdrawn = [\<lparr>nw_address = 0x0a010000, nw_prefix_len = 16\<rparr>],
     up_attributes = Some \<lparr>at_origin = Igp, at_as_path = [Sequence [65001, 70000], AsSet [7]], at_next_hop = 0x0a000001,
       at_atomic_aggregate = True, at_med = Some 10, at_local_preference = None, at_originator_id = None,
       at_cluster_list = [0x0a000002], at_unknown_transitive = [\<lparr>ua_flags = 0xc0, ua_code = 32, ua_value = [1, 2]\<rparr>]\<rparr>,
     up_announced = [\<lparr>nw_address = 0xc0a80100, nw_prefix_len = 25\<rparr>]\<rparr>"

lemma sample_update_wire: "wire_message True sample_update"
  by code_simp

theorem bgp_message_round_trip_witness:
  "wire_message True sample_update \<and>
   (\<exists>bs. BgpMessage_encode True sample_update = Inr bs \<and> 19 \<le> length bs \<and> length bs \<le> BGP_MAX_MESSAGE \<and>
      message_length bs = Inr (length bs) \<and> BgpMessage_decode True bs = Inr sample_update)"
  using bgp_message_round_trip [OF sample_update_wire] sample_update_wire by blast

text \<open>
  C34. Framing is independent of how TCP cut the stream: when the concatenated encodings of any list of
  messages arrive in pieces of at most 4096 octets, cut anywhere, pushing each piece and taking
  messages until there is none yields exactly those messages in order, with no error, never overflows
  the 8192-octet buffer, and leaves it empty.
\<close>
theorem bgp_stream_reassembly:
  assumes "list_all (wire_message four) ms" "map (BgpMessage_encode four) ms = map Inr fs"
    "concat pieces = concat fs" "list_all (\<lambda>c. length c \<le> BGP_MAX_MESSAGE) pieces"
  shows "receive four \<lparr>bs_bytes = []\<rparr> pieces = (Inr ms, \<lparr>bs_bytes = []\<rparr>)"
proof (rule receive_chunks)
  show "list_all2 (framed four) ms fs"
    using assms(1, 2) by (induction ms arbitrary: fs) (auto simp: framed_def list_all2_Cons1 Cons_eq_map_conv)
  then show "fs \<noteq> [] \<longrightarrow> length [] < length (hd fs)"
    by (cases fs) (auto simp: list_all2_Cons2 dest!: framed_facts(1))
qed (use assms in auto)

definition keepalive_bytes :: bytes where
  "keepalive_bytes = replicate 16 255 @ [0, 19, 4]"

theorem bgp_stream_reassembly_witness:
  "receive True \<lparr>bs_bytes = []\<rparr> [take 7 keepalive_bytes, drop 7 keepalive_bytes @ take 18 keepalive_bytes, [4]] =
     (Inr [Keepalive, Keepalive], \<lparr>bs_bytes = []\<rparr>)"
proof (rule bgp_stream_reassembly [where fs = "[keepalive_bytes, keepalive_bytes]"])
  show "list_all (wire_message True) [Keepalive, Keepalive]" by simp
  show "map (BgpMessage_encode True) [Keepalive, Keepalive] = map Inr [keepalive_bytes, keepalive_bytes]" by code_simp
  show "concat [take 7 keepalive_bytes, drop 7 keepalive_bytes @ take 18 keepalive_bytes, [4]] = concat [keepalive_bytes, keepalive_bytes]"
    by code_simp
  show "list_all (\<lambda>c. length c \<le> BGP_MAX_MESSAGE) [take 7 keepalive_bytes, drop 7 keepalive_bytes @ take 18 keepalive_bytes, [4]]"
    by code_simp
qed

end
