(* ===== verification/Text.thy ===== *)
theory Text
  imports Prelude
begin

text \<open>
  The parts of \<open>str\<close>, \<open>char\<close> and integer parsing that names and numbers of devices use, on ASCII strings:
  character classes, case folding, words, and decimal numerals with their round trip.
\<close>

section \<open>Characters\<close>

definition is_ascii_alpha :: "char \<Rightarrow> bool" where
  "is_ascii_alpha c = (let n = (of_char c :: nat) in 65 \<le> n \<and> n \<le> 90 \<or> 97 \<le> n \<and> n \<le> 122)"

definition is_digit :: "char \<Rightarrow> bool" where
  "is_digit c = (48 \<le> (of_char c :: nat) \<and> (of_char c :: nat) \<le> 57)"

definition to_lower :: "char \<Rightarrow> char" where
  "to_lower c = (let n = (of_char c :: nat) in if 65 \<le> n \<and> n \<le> 90 then char_of (n + 32) else c)"

definition is_control :: "char \<Rightarrow> bool" where
  "is_control c = ((of_char c :: nat) < 32 \<or> 127 \<le> (of_char c :: nat) \<and> (of_char c :: nat) < 160)"

text \<open>\<open>char::is_whitespace\<close>, \<open>str::split_whitespace\<close>, \<open>str::trim\<close> and \<open>str::split_once\<close>.\<close>

definition is_white :: "char \<Rightarrow> bool" where
  "is_white c = (9 \<le> (of_char c :: nat) \<and> (of_char c :: nat) \<le> 13 \<or> c = CHR '' '')"

definition split_whitespace :: "string \<Rightarrow> string list" where
  "split_whitespace s = filter (\<lambda>w. w \<noteq> []) (split_on (CHR '' '') (map (\<lambda>c. if is_white c then CHR '' '' else c) s))"

definition trim :: "string \<Rightarrow> string" where
  "trim s = rev (dropWhile is_white (rev (dropWhile is_white s)))"

definition split_once :: "char \<Rightarrow> string \<Rightarrow> (string \<times> string) option" where
  "split_once c s =
     (if c \<in> set s then Some (takeWhile (\<lambda>x. x \<noteq> c) s, tl (dropWhile (\<lambda>x. x \<noteq> c) s)) else None)"

definition strip_prefix :: "string \<Rightarrow> string \<Rightarrow> string option" where
  "strip_prefix p s = (if take (length p) s = p then Some (drop (length p) s) else None)"

section \<open>Decimal numerals\<close>

fun decimal_value :: "nat \<Rightarrow> string \<Rightarrow> nat" where
  "decimal_value acc [] = acc"
| "decimal_value acc (c # cs) = decimal_value (acc * 10 + (of_char c - 48)) cs"

text \<open>\<open>str::parse\<close> of an unsigned integer type whose largest value is given; a leading plus sign is accepted.\<close>

definition parse_uint :: "nat \<Rightarrow> string \<Rightarrow> nat option" where
  "parse_uint largest s =
     (let t = (if s \<noteq> [] \<and> hd s = CHR ''+'' then tl s else s)
      in if t = [] \<or> \<not> list_all is_digit t \<or> largest < decimal_value 0 t then None else Some (decimal_value 0 t))"

function decimal :: "nat \<Rightarrow> string" where
  "decimal n = (if n < 10 then [char_of (48 + n)] else decimal (n div 10) @ [char_of (48 + n mod 10)])"
  by pat_completeness auto
termination by (relation "measure id") auto

declare decimal.simps [simp del]

section \<open>Numerals round trip\<close>

lemma decimal_value_append: "decimal_value acc (s @ t) = decimal_value (decimal_value acc s) t"
  by (induction s arbitrary: acc) simp_all

lemma digit_char: "k < 10 \<Longrightarrow> of_char (char_of (48 + k) :: char) = (48 + k :: nat)"
  by simp

lemma is_digit_char: "k < 10 \<Longrightarrow> is_digit (char_of (48 + k :: nat))"
  by (simp add: is_digit_def)

lemma decimal_digits: "decimal n \<noteq> [] \<and> list_all is_digit (decimal n) \<and> decimal_value 0 (decimal n) = n"
proof (induction n rule: decimal.induct)
  case (1 n)
  show ?case
  proof (cases "n < 10")
    case True
    then show ?thesis by (subst (1 2 3) decimal.simps) (simp add: is_digit_char digit_char)
  next
    case False
    then show ?thesis
      using 1 by (subst (1 2 3) decimal.simps) (simp add: is_digit_char digit_char decimal_value_append)
  qed
qed

lemma decimal_inj: "decimal m = decimal n \<longleftrightarrow> m = n"
  by (metis decimal_digits)

lemma digit_not_plus: "is_digit c \<Longrightarrow> c \<noteq> CHR ''+''"
  by (auto simp: is_digit_def)

lemma parse_decimal: "n \<le> largest \<Longrightarrow> parse_uint largest (decimal n) = Some n"
proof -
  assume "n \<le> largest"
  moreover have "hd (decimal n) \<noteq> CHR ''+''"
    using decimal_digits [of n] by (cases "decimal n") (auto dest: digit_not_plus)
  ultimately show ?thesis using decimal_digits [of n] by (simp add: parse_uint_def Let_def)
qed

lemma those_eq_Some: "those xs = Some ys \<longleftrightarrow> xs = map Some ys"
proof (induction xs arbitrary: ys)
  case (Cons x xs)
  show ?case using Cons by (cases x; cases ys) auto
qed auto

end
