(* ===== verification/Config.thy ===== *)
theory Config
  imports BTree Ethernet Ipv4_Route Ipv4_Packet Sim_Queue Codec "HOL-Library.List_Lexorder" "HOL-Library.Char_ord"
begin

text \<open>
  The structured configuration of \<open>rios-config\<close>: interfaces, VLANs, access lists, address
  translation, DHCP pools and spanning tree, with the matching rules that the configuration crate
  itself implements. Configuration of IPv6, OSPF, BGP, quality of service and routing policy is left
  out of the records; no operation modelled here reads it.

  A \<open>BTreeMap\<close> is a key-ordered association list (\<open>BTree\<close>), a \<open>BTreeSet\<close> that is iterated an ordered
  list, and one that is only tested for membership a set. Number newtypes are their numbers.
\<close>

section \<open>Orders of the keys\<close>

fun InterfaceId_value :: "InterfaceId \<Rightarrow> u64" where
  "InterfaceId_value (InterfaceId v) = v"

lemma InterfaceId_value_inj: "InterfaceId_value a = InterfaceId_value b \<longleftrightarrow> a = b"
  by (cases a; cases b) simp

instantiation InterfaceId :: linorder
begin

definition less_eq_InterfaceId :: "InterfaceId \<Rightarrow> InterfaceId \<Rightarrow> bool" where
  "less_eq_InterfaceId a b = (InterfaceId_value a \<le> InterfaceId_value b)"

definition less_InterfaceId :: "InterfaceId \<Rightarrow> InterfaceId \<Rightarrow> bool" where
  "less_InterfaceId a b = (InterfaceId_value a < InterfaceId_value b)"

instance
  by standard (auto simp: less_eq_InterfaceId_def less_InterfaceId_def InterfaceId_value_inj [symmetric])

end

lemma VlanId_get_inj: "VlanId_get a = VlanId_get b \<longleftrightarrow> a = b"
  by (cases a; cases b) simp

instantiation VlanId :: linorder
begin

definition less_eq_VlanId :: "VlanId \<Rightarrow> VlanId \<Rightarrow> bool" where
  "less_eq_VlanId a b = (VlanId_get a \<le> VlanId_get b)"

definition less_VlanId :: "VlanId \<Rightarrow> VlanId \<Rightarrow> bool" where
  "less_VlanId a b = (VlanId_get a < VlanId_get b)"

instance
  by standard (auto simp: less_eq_VlanId_def less_VlanId_def VlanId_get_inj [symmetric])

end

fun mac_tuple :: "MacAddress \<Rightarrow> u8 \<times> u8 \<times> u8 \<times> u8 \<times> u8 \<times> u8" where
  "mac_tuple (MacAddress a b c d e f) = (a, b, c, d, e, f)"

lemma mac_tuple_inj: "mac_tuple a = mac_tuple b \<longleftrightarrow> a = b"
  by (cases a; cases b) simp

instantiation MacAddress :: linorder
begin

definition less_eq_MacAddress :: "MacAddress \<Rightarrow> MacAddress \<Rightarrow> bool" where
  "less_eq_MacAddress a b = (mac_tuple a \<le> mac_tuple b)"

definition less_MacAddress :: "MacAddress \<Rightarrow> MacAddress \<Rightarrow> bool" where
  "less_MacAddress a b = (mac_tuple a < mac_tuple b)"

instance
proof
  fix a b c :: MacAddress
  show "(a < b) = (a \<le> b \<and> \<not> b \<le> a)" by (simp add: less_eq_MacAddress_def less_MacAddress_def less_le_not_le)
  show "a \<le> a" by (simp add: less_eq_MacAddress_def)
  show "a \<le> b \<Longrightarrow> b \<le> c \<Longrightarrow> a \<le> c" using order_trans by (simp only: less_eq_MacAddress_def)
  show "a \<le> b \<Longrightarrow> b \<le> a \<Longrightarrow> a = b" by (simp add: less_eq_MacAddress_def flip: mac_tuple_inj)
  show "a \<le> b \<or> b \<le> a" by (simp add: less_eq_MacAddress_def linear)
qed

end

section \<open>Access lists\<close>

type_synonym AccessListId = u8
type_synonym AclId = u32

definition AccessListId_new :: "u8 \<Rightarrow> AccessListId option" where
  "AccessListId_new value = (if 1 \<le> value \<and> value \<le> 99 then Some value else None)"

datatype AccessListAction = Permit | Deny

datatype AccessListDirection = DirIn | DirOut

record StandardAccessListEntry =
  sa_action :: AccessListAction
  sa_source :: ipv4
  sa_wildcard :: ipv4

definition StandardAccessListEntry_matches :: "StandardAccessListEntry \<Rightarrow> ipv4 \<Rightarrow> bool" where
  "StandardAccessListEntry_matches e source =
     (let mask = NOT (sa_wildcard e) in source AND mask = sa_source e AND mask)"

datatype AclKind = Standard | Extended

record AddressMatch =
  am_address :: ipv4
  am_wildcard :: ipv4

definition AddressMatch_ANY :: AddressMatch where
  "AddressMatch_ANY = \<lparr>am_address = 0, am_wildcard = - 1\<rparr>"

definition AddressMatch_matches :: "AddressMatch \<Rightarrow> ipv4 \<Rightarrow> bool" where
  "AddressMatch_matches m address = ((address XOR am_address m) AND NOT (am_wildcard m) = 0)"

datatype PortMatch = PortAny | PortEq u16 | PortRange u16 u16 | PortLt u16 | PortGt u16 | PortNeq u16

fun PortMatch_matches :: "PortMatch \<Rightarrow> u16 \<Rightarrow> bool" where
  "PortMatch_matches PortAny port = True"
| "PortMatch_matches (PortEq value) port = (port = value)"
| "PortMatch_matches (PortRange low high) port = (low \<le> port \<and> port \<le> high)"
| "PortMatch_matches (PortLt value) port = (port < value)"
| "PortMatch_matches (PortGt value) port = (port > value)"
| "PortMatch_matches (PortNeq value) port = (port \<noteq> value)"

datatype AclProtocol = AclIp | AclIcmp | AclTcp | AclUdp

fun AclProtocol_matches :: "AclProtocol \<Rightarrow> u8 \<Rightarrow> bool" where
  "AclProtocol_matches AclIp number = True"
| "AclProtocol_matches AclIcmp number = (number = 1)"
| "AclProtocol_matches AclTcp number = (number = 6)"
| "AclProtocol_matches AclUdp number = (number = 17)"

datatype AclEntry =
  Remark string
| Rule (rule_action: AccessListAction) (rule_protocol: AclProtocol) (rule_source: AddressMatch) (rule_source_port: PortMatch)
    (rule_destination: AddressMatch) (rule_destination_port: PortMatch) (rule_log: bool)

fun AclEntry_evaluate :: "AclEntry \<Rightarrow> Ipv4Packet \<Rightarrow> AccessListAction option" where
  "AclEntry_evaluate (Remark _) packet = None"
| "AclEntry_evaluate (Rule action protocol source source_port destination destination_port _) packet =
     (let number = IpProtocol_code (ip_protocol packet)
      in if \<not> AclProtocol_matches protocol number \<or> \<not> AddressMatch_matches source (ip_source packet) \<or>
            \<not> AddressMatch_matches destination (ip_destination packet) then None
         else if source_port \<noteq> PortAny \<or> destination_port \<noteq> PortAny then
           if number \<notin> {6, 17} \<or> length (ip_payload packet) < 4 then None
           else let src = u16_at (ip_payload packet) 0; dst = u16_at (ip_payload packet) 2
                in if \<not> PortMatch_matches source_port src \<or> \<not> PortMatch_matches destination_port dst then None
                   else Some action
         else Some action)"

record AccessList =
  al_name :: string
  al_kind :: AclKind
  al_entries :: "(u32, AclEntry) btree"

section \<open>Address translation\<close>

datatype NatRole = Inside | Outside

record NatOverloadConfig =
  no_access_list :: AccessListId
  no_outside_interface :: InterfaceId

datatype NatTransport = TransportTcp | TransportUdp

datatype StaticNat =
  StaticAddress (sn_local: ipv4) (sn_global: ipv4)
| StaticPort (sn_protocol: NatTransport) (sn_local: ipv4) (sn_local_port: u16) (sn_global: ipv4) (sn_global_port: u16)

text \<open>The derived order: the constructor, then the fields from left to right.\<close>

fun static_key :: "StaticNat \<Rightarrow> u8 \<times> u8 \<times> ipv4 \<times> u16 \<times> ipv4 \<times> u16" where
  "static_key (StaticAddress local global) = (0, 0, local, 0, global, 0)"
| "static_key (StaticPort protocol local local_port global global_port) =
     (1, if protocol = TransportTcp then 0 else 1, local, local_port, global, global_port)"

lemma static_key_inj: "static_key a = static_key b \<longleftrightarrow> a = b"
proof (cases a; cases b)
  fix p l lp g gp p' l' lp' g' gp'
  assume "a = StaticPort p l lp g gp" "b = StaticPort p' l' lp' g' gp'"
  then show ?thesis by (cases p; cases p') auto
qed auto

instantiation StaticNat :: linorder
begin

definition less_eq_StaticNat :: "StaticNat \<Rightarrow> StaticNat \<Rightarrow> bool" where
  "less_eq_StaticNat a b = (static_key a \<le> static_key b)"

definition less_StaticNat :: "StaticNat \<Rightarrow> StaticNat \<Rightarrow> bool" where
  "less_StaticNat a b = (static_key a < static_key b)"

instance
proof
  fix a b c :: StaticNat
  show "(a < b) = (a \<le> b \<and> \<not> b \<le> a)" by (simp add: less_eq_StaticNat_def less_StaticNat_def less_le_not_le)
  show "a \<le> a" by (simp add: less_eq_StaticNat_def)
  show "a \<le> b \<Longrightarrow> b \<le> c \<Longrightarrow> a \<le> c" using order_trans by (simp only: less_eq_StaticNat_def)
  show "a \<le> b \<Longrightarrow> b \<le> a \<Longrightarrow> a = b" by (simp add: less_eq_StaticNat_def flip: static_key_inj)
  show "a \<le> b \<or> b \<le> a" by (simp add: less_eq_StaticNat_def linear)
qed

end

record NatPool =
  np_first :: ipv4
  np_last :: ipv4
  np_prefix_len :: u8

record NatPoolRule =
  pr_access_list :: AccessListId
  pr_pool :: string
  pr_overload :: bool

section \<open>Interfaces and VLANs\<close>

datatype AdminState = AdminDown | AdminUp

record Dot1qEncapsulation =
  dq_vlan :: VlanId
  dq_native :: bool

datatype ChannelMode = ChannelOn | ChannelActive | ChannelPassive

record ChannelMembership =
  cm_number :: u16
  cm_mode :: ChannelMode

datatype SwitchportMode = Access | Trunk

record SwitchportConfig =
  sp_native_vlan :: VlanId
  sp_mode :: SwitchportMode
  sp_access_vlan :: VlanId
  sp_trunk_allowed_vlans :: "VlanId set option"

definition SwitchportConfig_default :: SwitchportConfig where
  "SwitchportConfig_default =
     \<lparr>sp_native_vlan = VlanId_DEFAULT, sp_mode = Access, sp_access_vlan = VlanId_DEFAULT, sp_trunk_allowed_vlans = None\<rparr>"

record VlanConfig =
  vc_name :: string

record StpPortConfig =
  pc_priority :: u8
  pc_cost :: "u32 option"
  pc_portfast :: bool
  pc_bpdu_guard :: bool
  pc_root_guard :: bool

definition StpPortConfig_default :: StpPortConfig where
  "StpPortConfig_default =
     \<lparr>pc_priority = 128, pc_cost = None, pc_portfast = False, pc_bpdu_guard = False, pc_root_guard = False\<rparr>"

record StpConfig =
  st_rapid :: bool
  st_priorities :: "(VlanId, u16) btree"

text \<open>The policy of IPv6 on an interface, without its OSPFv3 parameters.\<close>

record Ipv6InterfaceConfig =
  i6_address :: "128 word"
  i6_prefix_len :: u8

record Ipv6InterfacePolicy =
  v6_enabled :: bool
  v6_addresses :: "Ipv6InterfaceConfig list"
  v6_link_local :: "128 word option"
  v6_autoconfig :: bool
  v6_ra_suppress :: bool

definition Ipv6InterfacePolicy_default :: Ipv6InterfacePolicy where
  "Ipv6InterfacePolicy_default =
     \<lparr>v6_enabled = False, v6_addresses = [], v6_link_local = None, v6_autoconfig = False, v6_ra_suppress = False\<rparr>"

definition Ipv6InterfacePolicy_active :: "Ipv6InterfacePolicy \<Rightarrow> bool" where
  "Ipv6InterfacePolicy_active p = (v6_enabled p \<or> v6_autoconfig p \<or> v6_link_local p \<noteq> None \<or> v6_addresses p \<noteq> [])"

record InterfaceConfig =
  if_ipv6 :: Ipv6InterfacePolicy
  if_spanning_tree :: StpPortConfig
  if_channel_group :: "ChannelMembership option"
  if_port_channel :: "u16 option"
  if_named_access_group_in :: "AclId option"
  if_named_access_group_out :: "AclId option"
  if_parent :: "InterfaceId option"
  if_dot1q :: "Dot1qEncapsulation option"
  if_name :: string
  if_description :: string
  if_admin_state :: AdminState
  if_ipv4 :: "Ipv4InterfaceConfig option"
  if_dhcp_client :: bool
  if_helper_address :: "ipv4 option"
  if_mtu :: u16
  if_switchport_capable :: bool
  if_switchport :: "SwitchportConfig option"
  if_access_group_in :: "AccessListId option"
  if_access_group_out :: "AccessListId option"
  if_nat_role :: "NatRole option"

section \<open>DHCP pools\<close>

type_synonym DhcpPoolId = u16

record DhcpPoolConfig =
  dp_lease_seconds :: u32
  dp_dns_servers :: "ipv4 list"
  dp_domain_name :: "string option"
  dp_reserved_address :: "ipv4 option"
  dp_hardware_address :: "MacAddress option"
  dp_name :: string
  dp_network :: "Ipv4Network option"
  dp_default_router :: "ipv4 option"

section \<open>The running configuration\<close>

record RunningConfig =
  rc_spanning_tree :: StpConfig
  rc_dhcp_excluded :: "(ipv4, ipv4) btree"
  rc_static_nat :: "StaticNat list"
  rc_nat_pools :: "(string, NatPool) btree"
  rc_nat_pool_rule :: "NatPoolRule option"
  rc_named_access_lists :: "(AclId, AccessList) btree"
  rc_hostname :: string
  rc_ip_routing :: bool
  rc_interfaces :: "(InterfaceId, InterfaceConfig) btree"
  rc_vlans :: "(VlanId, VlanConfig) btree"
  rc_access_lists :: "(AccessListId, StandardAccessListEntry list) btree"
  rc_dhcp_pools :: "(DhcpPoolId, DhcpPoolConfig) btree"
  rc_nat_overload :: "NatOverloadConfig option"

end
