(* ===== verification/Tcp_Connection.thy ===== *)
theory Tcp_Connection
  imports Transport Sim_Queue Machine
begin

text \<open>
  One TCP connection of \<open>rios-device/src/tcp.rs\<close>: its state, the segments it sends and how it
  processes a received one. The stack keeps a single segment outstanding and retransmits it on
  simulated time. The second half puts two connections on a network that may lose, duplicate and
  reorder segments and shows that the byte streams arrive intact.
\<close>

section \<open>State\<close>

definition RECEIVE_LIMIT :: nat where "RECEIVE_LIMIT = 65535"
definition MAX_PAYLOAD :: nat where "MAX_PAYLOAD = 1200"
definition IDLE_US :: u64 where "IDLE_US = 300000000"
definition TIME_WAIT_US :: u64 where "TIME_WAIT_US = 120000000"

record TcpSocket =
  so_local_address :: ipv4
  so_local_port :: u16
  so_remote_address :: ipv4
  so_remote_port :: u16

datatype TcpState =
  TcpClosed | SynSent | SynReceived | TcpEstablished | FinWait | CloseWait | LastAck | TimeWait

datatype TcpError = TcpPacket TcpPacketError | TcpMissing | TcpState | TcpBusy | TcpCapacity | TcpEndpoint

record Outstanding =
  os_segment :: TcpSegment
  os_deadline :: SimTime
  os_retries :: u8

record TcpConnection =
  tc_state :: TcpState
  tc_retransmissions :: u64
  tc_send_next :: u32
  tc_receive_next :: u32
  tc_peer_window :: u16
  tc_received :: bytes
  tc_outstanding :: "Outstanding option"
  tc_last_activity :: SimTime
  tc_idle_timeout_us :: "u64 option"
  tc_time_wait_until :: "SimTime option"
  tc_peer_closed :: bool
  tc_passive :: bool

definition TcpConnection_send_capacity :: "TcpConnection \<Rightarrow> nat" where
  "TcpConnection_send_capacity c =
     (if tc_state c \<notin> {TcpEstablished, CloseWait} \<or> tc_outstanding c \<noteq> None then 0
      else min MAX_PAYLOAD (unat (tc_peer_window c)))"

definition TcpConnection_new :: "u32 \<Rightarrow> SimTime \<Rightarrow> TcpConnection" where
  "TcpConnection_new sequence now =
     \<lparr>tc_state = TcpClosed, tc_retransmissions = 0, tc_send_next = sequence, tc_receive_next = 0, tc_peer_window = 65535,
      tc_received = [], tc_outstanding = None, tc_last_activity = now, tc_idle_timeout_us = Some IDLE_US,
      tc_time_wait_until = None, tc_peer_closed = False, tc_passive = False\<rparr>"

section \<open>Segments\<close>

definition TcpConnection_segment :: "TcpSocket \<Rightarrow> TcpFlags \<Rightarrow> bytes \<Rightarrow> TcpConnection \<Rightarrow> TcpSegment" where
  "TcpConnection_segment socket flags payload c =
     \<lparr>tcp_source_port = so_local_port socket, tcp_destination_port = so_remote_port socket, tcp_sequence = tc_send_next c,
      tcp_acknowledgment = tc_receive_next c, tcp_flags = flags,
      tcp_window = of_nat (RECEIVE_LIMIT - length (tc_received c)), tcp_options = [], tcp_payload = payload\<rparr>"

definition TcpConnection_send ::
  "TcpSocket \<Rightarrow> TcpFlags \<Rightarrow> bytes \<Rightarrow> SimTime \<Rightarrow> TcpConnection \<Rightarrow> TcpSegment \<times> TcpConnection" where
  "TcpConnection_send socket flags payload now c =
     (let segment = TcpConnection_segment socket flags payload c;
          c1 = c\<lparr>tc_send_next := tc_send_next c + TcpSegment_sequence_len segment\<rparr>;
          c2 = (if TcpSegment_sequence_len segment \<noteq> 0
                then c1\<lparr>tc_outstanding := Some \<lparr>os_segment = segment, os_deadline = saturating_add now 1000000, os_retries = 0\<rparr>\<rparr>
                else c1)
      in (segment, c2\<lparr>tc_last_activity := now\<rparr>))"

definition enter_time_wait :: "SimTime \<Rightarrow> TcpConnection \<Rightarrow> TcpConnection" where
  "enter_time_wait now c = c\<lparr>tc_state := TimeWait, tc_time_wait_until := Some (saturating_add now TIME_WAIT_US)\<rparr>"

abbreviation has_flag :: "TcpSegment \<Rightarrow> TcpFlags \<Rightarrow> bool" where
  "has_flag s f \<equiv> TcpFlags_contains (tcp_flags s) f"

text \<open>The branches of \<open>receive\<close>, each as its own step.\<close>

definition receive_reset :: "TcpSegment \<Rightarrow> TcpConnection \<Rightarrow> TcpConnection" where
  "receive_reset s c =
     (let valid = (if tc_state c = SynSent then has_flag s ACK \<and> tcp_acknowledgment s = tc_send_next c
                   else tcp_sequence s = tc_receive_next c)
      in if valid then c\<lparr>tc_state := TcpClosed, tc_outstanding := None\<rparr> else c)"

definition receive_time_wait ::
  "TcpSocket \<Rightarrow> TcpSegment \<Rightarrow> SimTime \<Rightarrow> TcpConnection \<Rightarrow> TcpSegment option \<times> TcpConnection" where
  "receive_time_wait socket s now c =
     (let c' = (if has_flag s FIN \<and> tcp_sequence s + TcpSegment_sequence_len s = tc_receive_next c
                then enter_time_wait now c else c)
      in (if TcpSegment_sequence_len s \<noteq> 0 then Some (TcpConnection_segment socket ACK [] c') else None, c'))"

definition receive_syn_sent ::
  "TcpSocket \<Rightarrow> TcpSegment \<Rightarrow> SimTime \<Rightarrow> TcpConnection \<Rightarrow> TcpSegment option \<times> TcpConnection" where
  "receive_syn_sent socket s now c =
     (if has_flag s (TcpFlags_bitor SYN ACK) \<and> tcp_acknowledgment s = tc_send_next c then
        let c' = c\<lparr>tc_receive_next := tcp_sequence s + 1, tc_peer_window := tcp_window s, tc_outstanding := None,
                   tc_state := TcpEstablished, tc_last_activity := now\<rparr>
        in (Some (TcpConnection_segment socket ACK [] c'), c')
      else (None, c))"

text \<open>Accepting in-order data and a FIN, the last part of \<open>receive\<close>.\<close>

definition receive_data ::
  "TcpSocket \<Rightarrow> TcpSegment \<Rightarrow> SimTime \<Rightarrow> TcpConnection \<Rightarrow> TcpSegment option \<times> TcpConnection" where
  "receive_data socket s now c =
     (let c1 = c\<lparr>tc_last_activity := now, tc_peer_window := tcp_window s\<rparr>
      in if tc_peer_closed c1 then (None, c1)
         else if RECEIVE_LIMIT < length (tc_received c1) + length (tcp_payload s)
         then (Some (TcpConnection_segment socket ACK [] c1), c1)
         else let c2 = c1\<lparr>tc_receive_next := tc_receive_next c1 + of_nat (length (tcp_payload s)),
                          tc_received := tc_received c1 @ tcp_payload s\<rparr>;
                  fin = has_flag s FIN;
                  c3 = (if fin then
                          let d = c2\<lparr>tc_receive_next := tc_receive_next c2 + 1, tc_peer_closed := True\<rparr>
                          in if tc_state d = FinWait then
                               if tc_outstanding d = None then enter_time_wait now d else d
                             else d\<lparr>tc_state := CloseWait\<rparr>
                        else c2)
              in (if tcp_payload s \<noteq> [] \<or> fin then Some (TcpConnection_segment socket ACK [] c3) else None, c3))"

definition receive_ack ::
  "TcpSocket \<Rightarrow> TcpSegment \<Rightarrow> SimTime \<Rightarrow> TcpConnection \<Rightarrow> TcpSegment option \<times> TcpConnection" where
  "receive_ack socket s now c =
     (if tcp_acknowledgment s = tc_send_next c then
        let c1 = c\<lparr>tc_outstanding := None\<rparr>;
            c2 = (if tc_state c1 = SynReceived then c1\<lparr>tc_state := TcpEstablished\<rparr> else c1)
        in if tc_state c2 = LastAck then (None, c2\<lparr>tc_state := TcpClosed\<rparr>)
           else receive_data socket s now
                  (if tc_state c2 = FinWait \<and> tc_peer_closed c2 then enter_time_wait now c2 else c2)
      else if tc_state c = SynReceived then (None, c)
      else receive_data socket s now c)"

definition TcpConnection_receive ::
  "TcpSocket \<Rightarrow> TcpSegment \<Rightarrow> SimTime \<Rightarrow> TcpConnection \<Rightarrow> TcpSegment option \<times> TcpConnection" where
  "TcpConnection_receive socket s now c =
     (if tc_state c = TcpClosed then (None, c)
      else if has_flag s RST then (None, receive_reset s c)
      else if tc_state c = TimeWait then receive_time_wait socket s now c
      else if tc_state c = SynSent then receive_syn_sent socket s now c
      else if tc_state c = SynReceived \<and> has_flag s SYN \<and> tcp_sequence s + 1 = tc_receive_next c
      then (map_option os_segment (tc_outstanding c), c)
      else if tcp_sequence s \<noteq> tc_receive_next c then (Some (TcpConnection_segment socket ACK [] c), c)
      else if \<not> has_flag s ACK then (None, c)
      else receive_ack socket s now c)"

section \<open>Operations of the application and the clock\<close>

text \<open>The bodies of \<open>tcp_connect\<close>, \<open>tcp_send\<close>, \<open>tcp_close\<close> and \<open>tcp_read\<close> on the connection they look up.\<close>

definition connection_open :: "TcpSocket \<Rightarrow> u32 \<Rightarrow> SimTime \<Rightarrow> TcpSegment \<times> TcpConnection" where
  "connection_open socket sequence now =
     TcpConnection_send socket SYN [] now ((TcpConnection_new sequence now)\<lparr>tc_state := SynSent\<rparr>)"

definition connection_accept :: "TcpSocket \<Rightarrow> u32 \<Rightarrow> TcpSegment \<Rightarrow> SimTime \<Rightarrow> TcpSegment \<times> TcpConnection" where
  "connection_accept socket sequence s now =
     TcpConnection_send socket (TcpFlags_bitor SYN ACK) [] now
       ((TcpConnection_new sequence now)\<lparr>tc_state := SynReceived, tc_passive := True, tc_receive_next := tcp_sequence s + 1,
          tc_peer_window := tcp_window s\<rparr>)"

definition connection_send :: "TcpSocket \<Rightarrow> bytes \<Rightarrow> SimTime \<Rightarrow> TcpConnection \<Rightarrow> TcpError + TcpSegment \<times> TcpConnection" where
  "connection_send socket payload now c =
     (if tc_state c \<notin> {TcpEstablished, CloseWait} then Inl TcpState
      else if tc_outstanding c \<noteq> None \<or> unat (tc_peer_window c) < length payload then Inl TcpBusy
      else Inr (TcpConnection_send socket (TcpFlags_bitor ACK PSH) payload now c))"

definition connection_close :: "TcpSocket \<Rightarrow> SimTime \<Rightarrow> TcpConnection \<Rightarrow> TcpError + TcpSegment \<times> TcpConnection" where
  "connection_close socket now c =
     (if tc_outstanding c \<noteq> None then Inl TcpBusy
      else if tc_state c = TcpEstablished
      then Inr (TcpConnection_send socket (TcpFlags_bitor ACK FIN) [] now (c\<lparr>tc_state := FinWait\<rparr>))
      else if tc_state c = CloseWait
      then Inr (TcpConnection_send socket (TcpFlags_bitor ACK FIN) [] now (c\<lparr>tc_state := LastAck\<rparr>))
      else Inl TcpState)"

definition connection_read :: "TcpSocket \<Rightarrow> TcpConnection \<Rightarrow> bytes \<times> TcpSegment \<times> TcpConnection" where
  "connection_read socket c =
     (let c' = c\<lparr>tc_received := []\<rparr> in (tc_received c, TcpConnection_segment socket ACK [] c', c'))"

text \<open>The two halves of \<open>tcp_tick\<close>: which connections survive, and the retransmission of one of them.\<close>

definition connection_alive :: "SimTime \<Rightarrow> TcpConnection \<Rightarrow> bool" where
  "connection_alive now c =
     (tc_state c \<noteq> TcpClosed \<and>
      (case tc_idle_timeout_us c of None \<Rightarrow> True | Some timeout \<Rightarrow> saturating_sub now (tc_last_activity c) < timeout) \<and>
      (case tc_time_wait_until c of None \<Rightarrow> True | Some deadline \<Rightarrow> now < deadline))"

definition connection_tick :: "SimTime \<Rightarrow> TcpConnection \<Rightarrow> TcpSegment option \<times> TcpConnection" where
  "connection_tick now c =
     (case tc_outstanding c of
        None \<Rightarrow> (None, c)
      | Some pending \<Rightarrow>
          if now < os_deadline pending then (None, c)
          else if 5 \<le> os_retries pending then (None, c\<lparr>tc_state := TcpClosed\<rparr>)
          else let retries = os_retries pending + 1;
                   pending' = pending\<lparr>os_retries := retries,
                                      os_deadline := saturating_add now (push_bit (unat retries) 1000000)\<rparr>
               in (Some (os_segment pending'),
                   c\<lparr>tc_outstanding := Some pending', tc_retransmissions := tc_retransmissions c + 1\<rparr>))"

section \<open>What one received segment can change\<close>

definition sendable :: "TcpState \<Rightarrow> bool" where
  "sendable st = (st \<in> {SynSent, SynReceived, TcpEstablished, CloseWait})"

text \<open>
  The type invariant of a connection: the receive buffer fits the advertised window, whose
  subtraction therefore cannot underflow, and the state tells whether the peer has closed.
\<close>

definition conn_ok :: "TcpConnection \<Rightarrow> bool" where
  "conn_ok c =
     (length (tc_received c) \<le> RECEIVE_LIMIT \<and>
      (tc_state c \<in> {CloseWait, LastAck, TimeWait} \<longrightarrow> tc_peer_closed c) \<and>
      (tc_state c \<in> {SynSent, SynReceived, TcpEstablished} \<longrightarrow> \<not> tc_peer_closed c) \<and>
      (tc_state c = TimeWait \<longrightarrow> tc_time_wait_until c \<noteq> None))"

lemmas receive_defs = TcpConnection_receive_def receive_reset_def receive_time_wait_def receive_syn_sent_def
  receive_ack_def receive_data_def enter_time_wait_def Let_def

lemma receive_conn_ok: "conn_ok c \<Longrightarrow> TcpConnection_receive socket s now c = (r, c') \<Longrightarrow> conn_ok c'"
  by (cases "tc_state c") (auto simp: receive_defs conn_ok_def split: if_splits)

lemma receive_send_next: "TcpConnection_receive socket s now c = (r, c') \<Longrightarrow> tc_send_next c' = tc_send_next c"
  by (auto simp: receive_defs split: if_splits)

lemma receive_outstanding:
  "TcpConnection_receive socket s now c = (r, c') \<Longrightarrow> tc_outstanding c' = Some pending \<Longrightarrow> tc_outstanding c = Some pending"
  by (auto simp: receive_defs split: if_splits)

lemma receive_sendable:
  "conn_ok c \<Longrightarrow> TcpConnection_receive socket s now c = (r, c') \<Longrightarrow> sendable (tc_state c') \<Longrightarrow> sendable (tc_state c)"
  by (cases "tc_state c") (auto simp: receive_defs conn_ok_def sendable_def split: if_splits)

definition plain_ack :: "TcpSegment \<Rightarrow> bool" where
  "plain_ack t = (tcp_payload t = [] \<and> tcp_flags t = ACK)"

lemma plain_ack_segment [simp]: "plain_ack (TcpConnection_segment socket ACK [] c)"
  by (simp add: plain_ack_def TcpConnection_segment_def)

lemma receive_reply:
  "TcpConnection_receive socket s now c = (Some t, c') \<Longrightarrow> plain_ack t \<or> (\<exists>pending. tc_outstanding c = Some pending \<and> t = os_segment pending)"
  by (auto simp: receive_defs split: if_splits)

text \<open>The three ways in which the stream of the peer can advance: not at all, by its SYN, by data or FIN.\<close>

definition stream_unchanged :: "TcpConnection \<Rightarrow> TcpConnection \<Rightarrow> bool" where
  "stream_unchanged c c' =
     (tc_received c' = tc_received c \<and> tc_receive_next c' = tc_receive_next c \<and> tc_peer_closed c' = tc_peer_closed c \<and>
      (tc_state c \<in> {SynSent, TcpClosed} \<longrightarrow> tc_state c' \<in> {tc_state c, TcpClosed}) \<and> (tc_state c' = SynSent \<longrightarrow> tc_state c = SynSent))"

definition stream_opened :: "TcpSegment \<Rightarrow> TcpConnection \<Rightarrow> TcpConnection \<Rightarrow> bool" where
  "stream_opened s c c' =
     (tc_state c = SynSent \<and> tc_state c' = TcpEstablished \<and> has_flag s SYN \<and> tc_received c' = tc_received c \<and>
      tc_receive_next c' = tcp_sequence s + 1 \<and> tc_peer_closed c' = tc_peer_closed c)"

definition stream_advanced :: "TcpSegment \<Rightarrow> TcpConnection \<Rightarrow> TcpConnection \<Rightarrow> bool" where
  "stream_advanced s c c' =
     (tc_state c \<notin> {SynSent, TcpClosed} \<and> tc_state c' \<noteq> SynSent \<and> \<not> tc_peer_closed c \<and> tcp_sequence s = tc_receive_next c \<and>
      tc_received c' = tc_received c @ tcp_payload s \<and> tc_peer_closed c' = has_flag s FIN \<and>
      tc_receive_next c' = tc_receive_next c + of_nat (length (tcp_payload s)) + of_bool (has_flag s FIN))"

lemma has_syn_ack: "has_flag s (TcpFlags_bitor SYN ACK) \<Longrightarrow> has_flag s SYN"
proof -
  assume "has_flag s (TcpFlags_bitor SYN ACK)"
  then have "tcp_bits (tcp_flags s) AND 18 = 18" by (simp add: TcpFlags_contains_def TcpFlags_bitor_def SYN_def ACK_def)
  then have "(tcp_bits (tcp_flags s) AND 18) AND 2 = 2" by simp
  then show ?thesis by (simp add: TcpFlags_contains_def SYN_def and.assoc)
qed

lemma receive_data_stream:
  assumes "receive_data socket s now c = (r, c')" "tc_state c \<notin> {SynSent, TcpClosed}" "tcp_sequence s = tc_receive_next c"
  shows "stream_unchanged c c' \<or> stream_advanced s c c'"
proof (cases "tc_peer_closed c \<or> RECEIVE_LIMIT < length (tc_received c) + length (tcp_payload s)")
  case True
  then show ?thesis
    using assms by (auto simp: receive_data_def Let_def stream_unchanged_def split: if_splits)
next
  case False
  then show ?thesis
    using assms by (cases "has_flag s FIN")
      (auto simp: receive_data_def Let_def stream_advanced_def enter_time_wait_def split: if_splits)
qed

lemma stream_transfer:
  assumes "tc_received d = tc_received c" "tc_receive_next d = tc_receive_next c" "tc_peer_closed d = tc_peer_closed c"
    "tc_state c \<notin> {SynSent, TcpClosed}"
  shows "stream_unchanged d c' \<Longrightarrow> tc_state d \<noteq> SynSent \<Longrightarrow> stream_unchanged c c'" "stream_advanced s d c' \<Longrightarrow> stream_advanced s c c'"
  using assms by (auto simp: stream_unchanged_def stream_advanced_def)

lemma receive_ack_stream:
  assumes "receive_ack socket s now c = (r, c')" "tc_state c \<notin> {SynSent, TcpClosed}" "tcp_sequence s = tc_receive_next c"
  shows "stream_unchanged c c' \<or> stream_advanced s c c'"
proof -
  consider "receive_data socket s now c = (r, c')" | "c' = c" | "c' = c\<lparr>tc_outstanding := None, tc_state := TcpClosed\<rparr>"
    | d where "receive_data socket s now d = (r, c')" "tc_received d = tc_received c" "tc_receive_next d = tc_receive_next c"
      "tc_peer_closed d = tc_peer_closed c" "tc_state d \<notin> {SynSent, TcpClosed}"
    using assms(1, 2) by (auto simp: receive_ack_def Let_def enter_time_wait_def split: if_splits)
  then show ?thesis
  proof cases
    case 1
    then show ?thesis using receive_data_stream assms by blast
  next
    case (4 d)
    then show ?thesis
      using receive_data_stream [OF 4(1, 5)] stream_transfer(1) [of d c c'] stream_transfer(2) [of d c s c'] assms(2, 3) by auto
  qed (use assms(2) in \<open>auto simp: stream_unchanged_def\<close>)
qed

lemma receive_stream:
  assumes "TcpConnection_receive socket s now c = (r, c')"
  shows "stream_unchanged c c' \<or> stream_opened s c c' \<or> stream_advanced s c c'"
proof (cases "tc_state c \<in> {SynSent, TcpClosed, TimeWait} \<or> has_flag s RST")
  case True
  then show ?thesis
    using assms by (auto simp: receive_defs stream_unchanged_def stream_opened_def has_syn_ack split: if_splits)
next
  case False
  then have "c' = c \<or> tcp_sequence s = tc_receive_next c \<and> receive_ack socket s now c = (r, c')"
    using assms by (auto simp: TcpConnection_receive_def split: if_splits)
  then show ?thesis using receive_ack_stream [of socket s now c r c'] False by (auto simp: stream_unchanged_def)
qed

lemma send_fields:
  "tc_received (snd (TcpConnection_send socket f p now c)) = tc_received c"
  "tc_receive_next (snd (TcpConnection_send socket f p now c)) = tc_receive_next c"
  "tc_peer_closed (snd (TcpConnection_send socket f p now c)) = tc_peer_closed c"
  "tc_state (snd (TcpConnection_send socket f p now c)) = tc_state c"
  "tc_time_wait_until (snd (TcpConnection_send socket f p now c)) = tc_time_wait_until c"
  "fst (TcpConnection_send socket f p now c) = TcpConnection_segment socket f p c"
  "tc_send_next (snd (TcpConnection_send socket f p now c)) =
     tc_send_next c + TcpSegment_sequence_len (TcpConnection_segment socket f p c)"
  "tc_outstanding (snd (TcpConnection_send socket f p now c)) = Some pending \<Longrightarrow>
     tc_outstanding c = Some pending \<or> os_segment pending = TcpConnection_segment socket f p c"
  by (auto simp: TcpConnection_send_def Let_def split: if_splits)

lemma segment_fields [simp]:
  "tcp_sequence (TcpConnection_segment socket f p c) = tc_send_next c"
  "tcp_payload (TcpConnection_segment socket f p c) = p"
  "tcp_flags (TcpConnection_segment socket f p c) = f"
  by (simp_all add: TcpConnection_segment_def)

lemma flag_simps [simp]:
  "\<not> TcpFlags_contains ACK SYN" "\<not> TcpFlags_contains ACK FIN"
  "\<not> TcpFlags_contains (TcpFlags_bitor ACK PSH) SYN" "\<not> TcpFlags_contains (TcpFlags_bitor ACK PSH) FIN"
  "\<not> TcpFlags_contains (TcpFlags_bitor ACK FIN) SYN" "TcpFlags_contains (TcpFlags_bitor ACK FIN) FIN"
  "TcpFlags_contains SYN SYN" "\<not> TcpFlags_contains SYN FIN"
  "TcpFlags_contains (TcpFlags_bitor SYN ACK) SYN" "\<not> TcpFlags_contains (TcpFlags_bitor SYN ACK) FIN"
  by (simp_all add: TcpFlags_contains_def TcpFlags_bitor_def SYN_def FIN_def ACK_def PSH_def)

section \<open>Two connections on an unreliable network\<close>

text \<open>
  One end of a connection: its state, the bytes its application wrote and read so far, and every
  segment it ever put on the wire. The network may deliver any of the peer's segments at any time,
  any number of times, or never.
\<close>

record endpoint =
  ep_conn :: TcpConnection
  ep_sent :: bytes
  ep_read :: bytes
  ep_out :: "TcpSegment set"

inductive endpoint_step :: "TcpSocket \<Rightarrow> TcpSegment set \<Rightarrow> endpoint \<Rightarrow> endpoint \<Rightarrow> bool" for socket inbound where
  send: "connection_send socket payload now (ep_conn e) = Inr (s, c) \<Longrightarrow>
    endpoint_step socket inbound e (e\<lparr>ep_conn := c, ep_sent := ep_sent e @ payload, ep_out := insert s (ep_out e)\<rparr>)"
| close: "connection_close socket now (ep_conn e) = Inr (s, c) \<Longrightarrow>
    endpoint_step socket inbound e (e\<lparr>ep_conn := c, ep_out := insert s (ep_out e)\<rparr>)"
| read: "connection_read socket (ep_conn e) = (data, s, c) \<Longrightarrow>
    endpoint_step socket inbound e (e\<lparr>ep_conn := c, ep_read := ep_read e @ data, ep_out := insert s (ep_out e)\<rparr>)"
| tick: "connection_tick now (ep_conn e) = (r, c) \<Longrightarrow>
    endpoint_step socket inbound e (e\<lparr>ep_conn := c, ep_out := ep_out e \<union> set_option r\<rparr>)"
| receive: "s \<in> inbound \<Longrightarrow> TcpConnection_receive socket s now (ep_conn e) = (r, c) \<Longrightarrow>
    endpoint_step socket inbound e (e\<lparr>ep_conn := c, ep_out := ep_out e \<union> set_option r\<rparr>)"

inductive_cases endpoint_stepE: "endpoint_step socket inbound e e'"

definition stream :: "endpoint \<Rightarrow> bytes" where
  "stream e = ep_read e @ tc_received (ep_conn e)"

text \<open>The data of a segment is a window of the sender's stream; \<open>isn\<close> numbers its first byte.\<close>

definition segment_of :: "u32 \<Rightarrow> bytes \<Rightarrow> TcpSegment \<Rightarrow> bool" where
  "segment_of isn sent s =
     ((tcp_payload s \<noteq> [] \<longrightarrow> (\<exists>k. tcp_sequence s = isn + of_nat k \<and> k + length (tcp_payload s) \<le> length sent \<and>
         take (length (tcp_payload s)) (drop k sent) = tcp_payload s)) \<and>
      (has_flag s SYN \<longrightarrow> tcp_sequence s = isn - 1) \<and>
      (has_flag s FIN \<longrightarrow> tcp_payload s = [] \<and> tcp_sequence s = isn + of_nat (length sent)))"

definition sender_ok :: "u32 \<Rightarrow> endpoint \<Rightarrow> bool" where
  "sender_ok isn x =
     ((\<forall>s\<in>ep_out x. segment_of isn (ep_sent x) s) \<and>
      (\<forall>s\<in>ep_out x. has_flag s FIN \<longrightarrow> \<not> sendable (tc_state (ep_conn x))) \<and>
      (sendable (tc_state (ep_conn x)) \<longrightarrow> tc_send_next (ep_conn x) = isn + of_nat (length (ep_sent x))) \<and>
      (\<forall>pending. tc_outstanding (ep_conn x) = Some pending \<longrightarrow> os_segment pending \<in> ep_out x))"

definition receiver_ok :: "u32 \<Rightarrow> endpoint \<Rightarrow> endpoint \<Rightarrow> bool" where
  "receiver_ok isn x y =
     ((tc_state (ep_conn y) = SynSent \<longrightarrow> stream y = []) \<and>
      (tc_state (ep_conn y) \<notin> {SynSent, TcpClosed} \<and> \<not> tc_peer_closed (ep_conn y) \<longrightarrow>
         tc_receive_next (ep_conn y) = isn + of_nat (length (stream y))) \<and>
      take (length (stream y)) (ep_sent x) = stream y \<and>
      (tc_peer_closed (ep_conn y) \<longrightarrow> stream y = ep_sent x \<and> (\<exists>s\<in>ep_out x. has_flag s FIN)))"

lemma plain_ack_of: "plain_ack t \<Longrightarrow> segment_of isn sent t" "plain_ack t \<Longrightarrow> \<not> has_flag t FIN"
  by (simp_all add: plain_ack_def segment_of_def)

lemma segment_of_append:
  "segment_of isn sent s \<Longrightarrow> \<not> has_flag s FIN \<Longrightarrow> segment_of isn (sent @ later) s"
  unfolding segment_of_def by (elim conjE, intro conjI) (force, simp_all)

lemma sender_ok_extend:
  assumes "sender_ok isn x" "\<forall>t\<in>new. segment_of isn (ep_sent x) t \<and> (has_flag t FIN \<longrightarrow> t \<in> ep_out x \<or> \<not> sendable (tc_state c))"
    "sendable (tc_state c) \<Longrightarrow> sendable (tc_state (ep_conn x)) \<and> tc_send_next c = tc_send_next (ep_conn x)"
    "\<And>pending. tc_outstanding c = Some pending \<Longrightarrow> os_segment pending \<in> ep_out x \<union> new"
  shows "sender_ok isn (x\<lparr>ep_conn := c, ep_out := ep_out x \<union> new\<rparr>)"
  using assms unfolding sender_ok_def by auto

lemma sender_ok_send:
  assumes ok: "sender_ok isn x" and "connection_send socket payload now (ep_conn x) = Inr (s, c)"
  shows "sender_ok isn (x\<lparr>ep_conn := c, ep_sent := ep_sent x @ payload, ep_out := insert s (ep_out x)\<rparr>)"
proof -
  let ?c = "ep_conn x"
  have st: "tc_state ?c \<in> {TcpEstablished, CloseWait}" and none: "tc_outstanding ?c = None"
    and sc: "s = TcpConnection_segment socket (TcpFlags_bitor ACK PSH) payload ?c"
      "c = snd (TcpConnection_send socket (TcpFlags_bitor ACK PSH) payload now ?c)"
    using assms(2) send_fields(6) [of socket "TcpFlags_bitor ACK PSH" payload now ?c]
    by (auto simp: connection_send_def split: if_splits)
  have sendable: "sendable (tc_state ?c)" using st by (auto simp: sendable_def)
  then have next_seq: "tc_send_next ?c = isn + of_nat (length (ep_sent x))" and nofin: "\<forall>t\<in>ep_out x. \<not> has_flag t FIN"
    using ok by (auto simp: sender_ok_def)
  have "segment_of isn (ep_sent x @ payload) t" if "t \<in> ep_out x" for t
    using ok nofin that by (auto simp: sender_ok_def intro: segment_of_append)
  moreover have "segment_of isn (ep_sent x @ payload) s"
    by (auto simp: sc segment_of_def next_seq intro!: exI [of _ "length (ep_sent x)"])
  moreover have "tc_send_next c = isn + of_nat (length (ep_sent x @ payload))"
    by (simp add: sc send_fields(7) next_seq TcpSegment_sequence_len_def)
  moreover have "tc_outstanding c = Some pending \<Longrightarrow> os_segment pending = s" for pending
    using send_fields(8) [of socket _ payload now ?c pending] none by (simp add: sc)
  ultimately show ?thesis
    using nofin by (auto simp: sender_ok_def sc(1))
qed

lemma sender_ok_close:
  assumes ok: "sender_ok isn x" and "connection_close socket now (ep_conn x) = Inr (s, c)"
  shows "sender_ok isn (x\<lparr>ep_conn := c, ep_out := ep_out x \<union> {s}\<rparr>)"
proof -
  let ?c = "ep_conn x"
  obtain st where st0: "tc_state ?c \<in> {TcpEstablished, CloseWait}" "tc_outstanding ?c = None" "st \<in> {FinWait, LastAck}"
    and sent: "TcpConnection_send socket (TcpFlags_bitor ACK FIN) [] now (?c\<lparr>tc_state := st\<rparr>) = (s, c)"
    using assms(2) by (simp add: connection_close_def split: if_splits) blast+
  have "s = TcpConnection_segment socket (TcpFlags_bitor ACK FIN) [] (?c\<lparr>tc_state := st\<rparr>)"
    "c = snd (TcpConnection_send socket (TcpFlags_bitor ACK FIN) [] now (?c\<lparr>tc_state := st\<rparr>))"
    using send_fields(6) [of socket "TcpFlags_bitor ACK FIN" "[]" now "?c\<lparr>tc_state := st\<rparr>"] sent by simp_all
  note st = st0 this
  have "tc_send_next ?c = isn + of_nat (length (ep_sent x))"
    using ok st(1) by (auto simp: sender_ok_def sendable_def)
  then have "segment_of isn (ep_sent x) s" by (simp add: st(4) segment_of_def)
  moreover have "\<not> sendable (tc_state c)" using st(3) by (auto simp: st(5) send_fields(4) sendable_def)
  moreover have "tc_outstanding c = Some pending \<Longrightarrow> os_segment pending = s" for pending
    using send_fields(8) [of socket _ "[]" now "?c\<lparr>tc_state := st\<rparr>" pending] st(2) by (simp add: st(4, 5))
  ultimately show ?thesis by (intro sender_ok_extend [OF ok]) auto
qed

lemma sender_ok_step:
  assumes "sender_ok isn e" "conn_ok (ep_conn e)" "endpoint_step socket inbound e e'"
  shows "sender_ok isn e'"
  using assms(3)
proof (cases rule: endpoint_step.cases)
  case (send payload now s c)
  then show ?thesis using sender_ok_send [OF assms(1)] by simp
next
  case (close now s c)
  then show ?thesis using sender_ok_close [OF assms(1)] by simp
next
  case (read data s c)
  then have c: "c = (ep_conn e)\<lparr>tc_received := []\<rparr>" "plain_ack s" by (auto simp: connection_read_def Let_def)
  have "sender_ok isn (e\<lparr>ep_conn := c, ep_out := ep_out e \<union> {s}\<rparr>)"
    using assms(1) c plain_ack_of by (intro sender_ok_extend) (auto simp: sender_ok_def)
  then show ?thesis by (simp add: read sender_ok_def)
next
  case (tick now r c)
  have "\<forall>t\<in>set_option r. t \<in> ep_out e"
    using assms(1) tick(2) by (auto simp: connection_tick_def sender_ok_def Let_def split: option.splits if_splits)
  moreover have "tc_outstanding c = Some pending \<Longrightarrow> os_segment pending \<in> ep_out e" for pending
    using assms(1) tick(2) by (auto simp: connection_tick_def sender_ok_def Let_def split: option.splits if_splits)
  moreover have "sendable (tc_state c) \<Longrightarrow> sendable (tc_state (ep_conn e)) \<and> tc_send_next c = tc_send_next (ep_conn e)"
    using tick(2) by (auto simp: connection_tick_def sendable_def Let_def split: option.splits if_splits)
  ultimately have "sender_ok isn (e\<lparr>ep_conn := c, ep_out := ep_out e \<union> set_option r\<rparr>)"
    using assms(1) by (intro sender_ok_extend) (auto simp: sender_ok_def)
  then show ?thesis by (simp add: tick)
next
  case (receive s now r c)
  note rcv = receive(3)
  have "sender_ok isn (e\<lparr>ep_conn := c, ep_out := ep_out e \<union> set_option r\<rparr>)"
  proof (rule sender_ok_extend [OF assms(1)])
    show "\<forall>t\<in>set_option r. segment_of isn (ep_sent e) t \<and> (has_flag t FIN \<longrightarrow> t \<in> ep_out e \<or> \<not> sendable (tc_state c))"
      using receive_reply [of socket s now "ep_conn e" _ c] rcv plain_ack_of assms(1) by (auto simp: sender_ok_def)
    show "sendable (tc_state c) \<Longrightarrow> sendable (tc_state (ep_conn e)) \<and> tc_send_next c = tc_send_next (ep_conn e)"
      using receive_sendable [OF assms(2) rcv] receive_send_next [OF rcv] by simp
    show "tc_outstanding c = Some pending \<Longrightarrow> os_segment pending \<in> ep_out e \<union> set_option r" for pending
      using receive_outstanding [OF rcv] assms(1) by (auto simp: sender_ok_def)
  qed
  then show ?thesis by (simp add: receive)
qed

text \<open>The receiving side of the step, and the effect of a step on the stream its peer receives.\<close>

lemma of_nat_eq_small:
  "of_nat m = (of_nat n :: u32) \<Longrightarrow> m < 2 ^ 32 \<Longrightarrow> n < 2 ^ 32 \<Longrightarrow> m = n"
  by (simp add: word_of_nat_eq_iff take_bit_nat_eq_self)

lemma take_eq_stream:
  "take (length r) sent = r \<Longrightarrow> length r \<le> length sent"
  by (metis length_take min.cobounded1)

lemma receiver_ok_advance:
  assumes ok: "receiver_ok isn x y" and seg: "segment_of isn (ep_sent x) s" "s \<in> ep_out x"
    and adv: "stream_advanced s (ep_conn y) c" and small: "length (ep_sent x) < 2 ^ 32"
  shows "receiver_ok isn x (y\<lparr>ep_conn := c, ep_out := out\<rparr>)"
proof -
  let ?r = "stream y"
  have r: "take (length ?r) (ep_sent x) = ?r" and next_seq: "tcp_sequence s = isn + of_nat (length ?r)"
    using ok adv by (auto simp: receiver_ok_def stream_advanced_def)
  have le: "length ?r \<le> length (ep_sent x)" using r by (rule take_eq_stream)
  have new: "stream (y\<lparr>ep_conn := c, ep_out := out\<rparr>) = ?r @ tcp_payload s"
    using adv by (simp add: stream_def stream_advanced_def)
  have data: "take (length (?r @ tcp_payload s)) (ep_sent x) = ?r @ tcp_payload s"
  proof (cases "tcp_payload s = []")
    case False
    then obtain k where k: "tcp_sequence s = isn + of_nat k" "k + length (tcp_payload s) \<le> length (ep_sent x)"
      "take (length (tcp_payload s)) (drop k (ep_sent x)) = tcp_payload s"
      using seg(1) by (auto simp: segment_of_def)
    have "k = length ?r" using of_nat_eq_small [of k "length ?r"] k(1, 2) next_seq le small by simp
    then show ?thesis using k(3) r by (simp add: take_add)
  qed (use r in simp)
  have fin: "?r @ tcp_payload s = ep_sent x" if "has_flag s FIN"
  proof -
    have "tcp_payload s = []" "tcp_sequence s = isn + of_nat (length (ep_sent x))"
      using seg(1) that by (auto simp: segment_of_def)
    then have "length ?r = length (ep_sent x)"
      using of_nat_eq_small [of "length ?r" "length (ep_sent x)"] next_seq le small by simp
    then show ?thesis using r \<open>tcp_payload s = []\<close> by simp
  qed
  have "tc_receive_next c = isn + of_nat (length (?r @ tcp_payload s))" if "\<not> has_flag s FIN"
    using that adv next_seq by (simp add: stream_advanced_def)
  then show ?thesis
    using adv data fin seg(2) unfolding receiver_ok_def new by (auto simp: stream_advanced_def)
qed

lemma receiver_ok_unchanged:
  assumes "receiver_ok isn x y" "stream_unchanged (ep_conn y) c"
  shows "receiver_ok isn x (y\<lparr>ep_conn := c, ep_out := out\<rparr>)"
proof -
  have "stream (y\<lparr>ep_conn := c, ep_out := out\<rparr>) = stream y" using assms(2) by (simp add: stream_def stream_unchanged_def)
  then show ?thesis using assms unfolding receiver_ok_def by (auto simp: stream_unchanged_def)
qed

lemma receiver_ok_opened:
  assumes "receiver_ok isn x y" "stream_opened s (ep_conn y) c" "segment_of isn (ep_sent x) s"
  shows "receiver_ok isn x (y\<lparr>ep_conn := c, ep_out := out\<rparr>)"
proof -
  have "stream (y\<lparr>ep_conn := c, ep_out := out\<rparr>) = stream y" using assms(2) by (simp add: stream_def stream_opened_def)
  then show ?thesis using assms unfolding receiver_ok_def by (auto simp: stream_opened_def segment_of_def)
qed

lemma receiver_ok_cong:
  assumes "receiver_ok isn x y" "ep_conn y' = ep_conn y" "ep_read y' = ep_read y"
  shows "receiver_ok isn x y'"
  using assms by (simp add: receiver_ok_def stream_def)

lemma local_step_stream:
  "connection_send socket payload now c = Inr (s, c') \<Longrightarrow> stream_unchanged c c'"
  "connection_close socket now c = Inr (s, c') \<Longrightarrow> stream_unchanged c c'"
  "connection_tick now c = (r, c') \<Longrightarrow> stream_unchanged c c'"
  by (auto simp: stream_unchanged_def connection_send_def connection_close_def connection_tick_def TcpConnection_send_def Let_def
    split: if_splits option.splits)

lemma receiver_ok_step:
  assumes ok: "receiver_ok isn x e" and sender: "sender_ok isn x" and small: "length (ep_sent x) < 2 ^ 32"
    and step: "endpoint_step socket (ep_out x) e e'"
  shows "receiver_ok isn x e'"
  using step
proof (cases rule: endpoint_step.cases)
  case (send payload now s c)
  have "receiver_ok isn x (e\<lparr>ep_conn := c, ep_out := insert s (ep_out e)\<rparr>)"
    using receiver_ok_unchanged [OF ok local_step_stream(1) [OF send(2)]] .
  then show ?thesis by (rule receiver_ok_cong) (simp_all add: send(1))
next
  case (close now s c)
  then show ?thesis using receiver_ok_unchanged [OF ok local_step_stream(2)] by simp
next
  case (read data s c)
  then have "stream e' = stream e" "tc_state (ep_conn e') = tc_state (ep_conn e)"
    "tc_peer_closed (ep_conn e') = tc_peer_closed (ep_conn e)" "tc_receive_next (ep_conn e') = tc_receive_next (ep_conn e)"
    by (auto simp: connection_read_def Let_def stream_def)
  then show ?thesis using ok by (simp add: receiver_ok_def)
next
  case (tick now r c)
  then show ?thesis using receiver_ok_unchanged [OF ok local_step_stream(3)] by simp
next
  case (receive s now r c)
  have s: "segment_of isn (ep_sent x) s" using sender receive(2) by (simp add: sender_ok_def)
  show ?thesis
    using receive_stream [OF receive(3)] receiver_ok_unchanged [OF ok] receiver_ok_opened [OF ok _ s]
      receiver_ok_advance [OF ok s receive(2) _ small]
    unfolding receive(1) by blast
qed

lemma peer_receiver_step:
  assumes ok: "receiver_ok isn e y" and sender: "sender_ok isn e" and step: "endpoint_step socket inbound e e'"
  shows "receiver_ok isn e' y"
proof -
  obtain tail where more: "ep_sent e' = ep_sent e @ tail" "ep_out e \<subseteq> ep_out e'"
    "tail = [] \<or> sendable (tc_state (ep_conn e))"
    using step by (cases rule: endpoint_step.cases) (auto simp: connection_send_def sendable_def split: if_splits)
  have "tail = []" if "tc_peer_closed (ep_conn y)"
    using that ok sender more(3) by (auto simp: receiver_ok_def sender_ok_def)
  moreover have "length (stream y) \<le> length (ep_sent e)" using ok by (auto simp: receiver_ok_def intro: take_eq_stream)
  ultimately show ?thesis using ok more(1, 2) by (auto simp: receiver_ok_def)
qed

lemma conn_ok_send: "conn_ok (snd (TcpConnection_send socket f p now c)) = conn_ok c"
  by (simp add: conn_ok_def send_fields)

lemma conn_ok_local:
  assumes "conn_ok c"
  shows "connection_send socket payload now c = Inr (s, c') \<Longrightarrow> conn_ok c'"
    "connection_close socket now c = Inr (s, c') \<Longrightarrow> conn_ok c'"
  using assms conn_ok_send [of socket "TcpFlags_bitor ACK PSH" payload now c]
    conn_ok_send [of socket "TcpFlags_bitor ACK FIN" "[]" now "c\<lparr>tc_state := FinWait\<rparr>"]
    conn_ok_send [of socket "TcpFlags_bitor ACK FIN" "[]" now "c\<lparr>tc_state := LastAck\<rparr>"]
  by (simp_all add: connection_send_def connection_close_def conn_ok_def split: if_splits)

lemma tick_fields:
  assumes "connection_tick now c = (r, c')"
  shows "tc_received c' = tc_received c" "tc_peer_closed c' = tc_peer_closed c" "tc_time_wait_until c' = tc_time_wait_until c"
    "tc_state c' = tc_state c \<or> tc_state c' = TcpClosed"
  using assms by (auto simp: connection_tick_def Let_def split: if_splits option.splits)

lemma conn_ok_tick:
  assumes "conn_ok c" "connection_tick now c = (r, c')"
  shows "conn_ok c'"
  using tick_fields(4) [OF assms(2)]
proof
  assume "tc_state c' = tc_state c"
  then show ?thesis using assms(1) tick_fields(1-3) [OF assms(2)] by (simp add: conn_ok_def)
next
  assume "tc_state c' = TcpClosed"
  then show ?thesis using assms(1) tick_fields(1-3) [OF assms(2)] by (simp add: conn_ok_def)
qed

lemma conn_ok_step:
  assumes "conn_ok (ep_conn e)" "endpoint_step socket inbound e e'"
  shows "conn_ok (ep_conn e')"
  using assms(2)
proof (cases rule: endpoint_step.cases)
  case (send payload now s c)
  then show ?thesis using conn_ok_local(1) [OF assms(1)] by simp
next
  case (close now s c)
  then show ?thesis using conn_ok_local(2) [OF assms(1)] by simp
next
  case (read data s c)
  then show ?thesis using assms(1) by (auto simp: connection_read_def conn_ok_def Let_def)
next
  case (tick now r c)
  then show ?thesis using conn_ok_tick [OF assms(1)] by simp
next
  case (receive s now r c)
  then show ?thesis using receive_conn_ok [OF assms(1)] by simp
qed

text \<open>A client that opened a connection with sequence number \<open>a\<close> and the server that accepted it with \<open>b\<close>.\<close>

type_synonym net = "endpoint \<times> endpoint"

inductive net_init :: "TcpSocket \<Rightarrow> TcpSocket \<Rightarrow> u32 \<Rightarrow> u32 \<Rightarrow> net \<Rightarrow> bool" for ls rs a b where
  "connection_open ls a now = (syn, c) \<Longrightarrow> connection_accept rs b syn now' = (syn_ack, d) \<Longrightarrow>
     net_init ls rs a b
       (\<lparr>ep_conn = c, ep_sent = [], ep_read = [], ep_out = {syn}\<rparr>, \<lparr>ep_conn = d, ep_sent = [], ep_read = [], ep_out = {syn_ack}\<rparr>)"

inductive net_step :: "TcpSocket \<Rightarrow> TcpSocket \<Rightarrow> net \<Rightarrow> net \<Rightarrow> bool" for ls rs where
  left: "endpoint_step ls (ep_out r) l l' \<Longrightarrow> net_step ls rs (l, r) (l', r)"
| right: "endpoint_step rs (ep_out l) r r' \<Longrightarrow> net_step ls rs (l, r) (l, r')"

definition bounded :: "net \<Rightarrow> bool" where
  "bounded n = (length (ep_sent (fst n)) < 2 ^ 32 \<and> length (ep_sent (snd n)) < 2 ^ 32)"

definition net_inv :: "u32 \<Rightarrow> u32 \<Rightarrow> net \<Rightarrow> bool" where
  "net_inv a b = (\<lambda>(l, r). conn_ok (ep_conn l) \<and> conn_ok (ep_conn r) \<and>
     (bounded (l, r) \<longrightarrow> sender_ok (a + 1) l \<and> sender_ok (b + 1) r \<and> receiver_ok (a + 1) l r \<and> receiver_ok (b + 1) r l))"

lemma net_init_inv: "net_init ls rs a b n \<Longrightarrow> net_inv a b n"
  by (auto elim!: net_init.cases simp: net_inv_def connection_open_def connection_accept_def TcpConnection_send_def Let_def
    TcpConnection_new_def conn_ok_def sender_ok_def receiver_ok_def segment_of_def stream_def sendable_def
    TcpSegment_sequence_len_def)

lemma sent_grows: "endpoint_step socket inbound e e' \<Longrightarrow> length (ep_sent e) \<le> length (ep_sent e')"
  by (auto elim!: endpoint_stepE)

lemma net_step_inv: "net_inv a b n \<Longrightarrow> net_step ls rs n n' \<Longrightarrow> net_inv a b n'"
proof -
  assume inv: "net_inv a b n" and step: "net_step ls rs n n'"
  from step show "net_inv a b n'"
  proof cases
    case (left r l l')
    have ok: "conn_ok (ep_conn l)" "conn_ok (ep_conn r)" using inv left(1) by (auto simp: net_inv_def)
    have "sender_ok (a + 1) l' \<and> sender_ok (b + 1) r \<and> receiver_ok (a + 1) l' r \<and> receiver_ok (b + 1) r l'"
      if b: "bounded (l', r)"
    proof -
      have "bounded (l, r)" using b sent_grows [OF left(3)] by (simp add: bounded_def)
      then have i: "sender_ok (a + 1) l" "sender_ok (b + 1) r" "receiver_ok (a + 1) l r" "receiver_ok (b + 1) r l"
        using inv left(1) by (auto simp: net_inv_def)
      show ?thesis
        using sender_ok_step [OF i(1) ok(1) left(3)] i(2) peer_receiver_step [OF i(3) i(1) left(3)]
          receiver_ok_step [OF i(4) i(2) _ left(3)] b by (simp add: bounded_def)
    qed
    then show ?thesis using conn_ok_step [OF ok(1) left(3)] ok(2) left(2) by (simp add: net_inv_def)
  next
    case (right l r r')
    have ok: "conn_ok (ep_conn l)" "conn_ok (ep_conn r)" using inv right(1) by (auto simp: net_inv_def)
    have "sender_ok (a + 1) l \<and> sender_ok (b + 1) r' \<and> receiver_ok (a + 1) l r' \<and> receiver_ok (b + 1) r' l"
      if b: "bounded (l, r')"
    proof -
      have "bounded (l, r)" using b sent_grows [OF right(3)] by (simp add: bounded_def)
      then have i: "sender_ok (a + 1) l" "sender_ok (b + 1) r" "receiver_ok (a + 1) l r" "receiver_ok (b + 1) r l"
        using inv right(1) by (auto simp: net_inv_def)
      show ?thesis
        using sender_ok_step [OF i(2) ok(2) right(3)] i(1) peer_receiver_step [OF i(4) i(2) right(3)]
          receiver_ok_step [OF i(3) i(1) _ right(3)] b by (simp add: bounded_def)
    qed
    then show ?thesis using conn_ok_step [OF ok(2) right(3)] ok(1) right(2) by (simp add: net_inv_def)
  qed
qed

interpretation tcp_net: invariant_system "net_init ls rs a b" "net_step ls rs" "net_inv a b" for ls rs a b
  by unfold_locales (auto intro: net_init_inv net_step_inv)

section \<open>Properties\<close>

text \<open>
  C6. Reliable byte streams: whatever the network loses, repeats or reorders, and however the two
  applications interleave their writes, reads and closes with timer ticks, the bytes an application has
  received are always exactly a prefix of those its peer wrote, in both directions; once the peer's
  FIN was accepted they are all of them. Receive buffers never exceed 65535 bytes, so the advertised
  window never underflows. Sequence numbers identify bytes as long as fewer than \<open>2 ^ 32\<close> are written.
\<close>
theorem tcp_stream_integrity:
  assumes "net_init ls rs a b n" "(net_step ls rs)\<^sup>*\<^sup>* n (l, r)" "bounded (l, r)"
  shows "(\<exists>rest. ep_sent l = stream r @ rest) \<and> (\<exists>rest. ep_sent r = stream l @ rest) \<and>
    (tc_peer_closed (ep_conn r) \<longrightarrow> stream r = ep_sent l) \<and> (tc_peer_closed (ep_conn l) \<longrightarrow> stream l = ep_sent r) \<and>
    length (tc_received (ep_conn l)) \<le> RECEIVE_LIMIT \<and> length (tc_received (ep_conn r)) \<le> RECEIVE_LIMIT"
proof -
  have inv: "net_inv a b (l, r)" by (rule tcp_net.reachable_inv [OF assms(1, 2)])
  then have i: "receiver_ok (a + 1) l r" "receiver_ok (b + 1) r l" using assms(3) by (simp_all add: net_inv_def)
  have "\<exists>rest. ep_sent x = stream y @ rest" if "receiver_ok isn x y" for isn x y
    using that by (metis append_take_drop_id receiver_ok_def)
  moreover have "tc_peer_closed (ep_conn y) \<longrightarrow> stream y = ep_sent x" if "receiver_ok isn x y" for isn x y
    using that by (simp add: receiver_ok_def)
  moreover have "conn_ok (ep_conn l)" "conn_ok (ep_conn r)" using inv by (simp_all add: net_inv_def)
  then have "length (tc_received (ep_conn l)) \<le> RECEIVE_LIMIT" "length (tc_received (ep_conn r)) \<le> RECEIVE_LIMIT"
    by (simp_all add: conn_ok_def)
  ultimately show ?thesis using i by blast
qed

text \<open>A run: the handshake, one write of the client, its delivery to the server.\<close>

definition client_socket :: TcpSocket where
  "client_socket = \<lparr>so_local_address = 1, so_local_port = 1000, so_remote_address = 2, so_remote_port = 80\<rparr>"

definition server_socket :: TcpSocket where
  "server_socket = \<lparr>so_local_address = 2, so_local_port = 80, so_remote_address = 1, so_remote_port = 1000\<rparr>"

definition run_open :: "TcpSegment \<times> TcpConnection" where
  "run_open = connection_open client_socket 100 0"

definition run_accept :: "TcpSegment \<times> TcpConnection" where
  "run_accept = connection_accept server_socket 700 (fst run_open) 0"

definition run_connected :: "TcpSegment option \<times> TcpConnection" where
  "run_connected = TcpConnection_receive client_socket (fst run_accept) 1 (snd run_open)"

definition run_sent :: "TcpSegment \<times> TcpConnection" where
  "run_sent = TcpConnection_send client_socket (TcpFlags_bitor ACK PSH) [1, 2, 3] 2 (snd run_connected)"

definition run_delivered :: "TcpSegment option \<times> TcpConnection" where
  "run_delivered = TcpConnection_receive server_socket (fst run_sent) 3 (snd run_accept)"

definition run_client :: endpoint where
  "run_client = \<lparr>ep_conn = snd run_sent, ep_sent = [1, 2, 3], ep_read = [],
     ep_out = insert (fst run_sent) ({fst run_open} \<union> set_option (fst run_connected))\<rparr>"

definition run_server :: endpoint where
  "run_server = \<lparr>ep_conn = snd run_delivered, ep_sent = [], ep_read = [],
     ep_out = {fst run_accept} \<union> set_option (fst run_delivered)\<rparr>"

lemmas run_defs = run_open_def run_accept_def run_connected_def run_sent_def connection_open_def connection_accept_def
  TcpConnection_send_def TcpConnection_new_def TcpConnection_segment_def TcpConnection_receive_def receive_syn_sent_def
  TcpSegment_sequence_len_def Let_def

lemma run_flags:
  "\<not> TcpFlags_contains (TcpFlags_bitor SYN ACK) RST" "TcpFlags_contains (TcpFlags_bitor SYN ACK) (TcpFlags_bitor SYN ACK)"
  "\<not> TcpFlags_contains (TcpFlags_bitor ACK PSH) RST" "TcpFlags_contains (TcpFlags_bitor ACK PSH) ACK"
  by (simp_all add: TcpFlags_contains_def TcpFlags_bitor_def SYN_def FIN_def ACK_def PSH_def RST_def)

lemma run_send: "connection_send client_socket [1, 2, 3] 2 (snd run_connected) = Inr run_sent"
proof -
  have "tc_state (snd run_connected) = TcpEstablished" "tc_outstanding (snd run_connected) = None"
    "tc_peer_window (snd run_connected) = 65535" by (simp_all add: run_defs run_flags RECEIVE_LIMIT_def)
  then show ?thesis by (simp add: connection_send_def run_sent_def)
qed

lemma run_reachable:
  "\<exists>n. net_init client_socket server_socket 100 700 n \<and> (net_step client_socket server_socket)\<^sup>*\<^sup>* n (run_client, run_server)"
proof -
  let ?l = "\<lparr>ep_conn = snd run_open, ep_sent = [], ep_read = [], ep_out = {fst run_open}\<rparr>"
  let ?r = "\<lparr>ep_conn = snd run_accept, ep_sent = [], ep_read = [], ep_out = {fst run_accept}\<rparr>"
  let ?m = "?l\<lparr>ep_conn := snd run_connected, ep_out := ep_out ?l \<union> set_option (fst run_connected)\<rparr>"
  have "net_init client_socket server_socket 100 700 (?l, ?r)"
    by (rule net_init.intros [of _ _ 0 _ _ _ _ 0]) (simp_all add: run_open_def run_accept_def)
  moreover have "net_step client_socket server_socket (?l, ?r) (?m, ?r)"
    by (intro left receive [where s = "fst run_accept" and now = 1]) (simp_all add: run_connected_def)
  moreover have "net_step client_socket server_socket (?m, ?r) (run_client, ?r)"
    using left [OF send [where e = ?m and payload = "[1, 2, 3]" and now = 2 and s = "fst run_sent" and c = "snd run_sent"]] run_send
    by (simp add: run_client_def)
  moreover have "net_step client_socket server_socket (run_client, ?r) (run_client, run_server)"
    using right [OF receive [where e = ?r and s = "fst run_sent" and now = 3 and r = "fst run_delivered" and c = "snd run_delivered"]]
    by (simp add: run_client_def run_server_def run_delivered_def)
  ultimately show ?thesis by (meson converse_rtranclp_into_rtranclp rtranclp.rtrancl_refl)
qed

theorem tcp_stream_integrity_witness:
  "bounded (run_client, run_server) \<and> stream run_server = [1, 2, 3] \<and> (\<exists>rest. ep_sent run_client = stream run_server @ rest) \<and>
   (\<exists>rest. ep_sent run_server = stream run_client @ rest) \<and> length (tc_received (ep_conn run_server)) \<le> RECEIVE_LIMIT"
proof -
  have b: "bounded (run_client, run_server)" by (simp add: bounded_def run_client_def run_server_def)
  moreover have "stream run_server = [1, 2, 3]" by (simp add: stream_def run_server_def run_delivered_def run_defs run_flags receive_ack_def receive_data_def RECEIVE_LIMIT_def)
  moreover obtain n where "net_init client_socket server_socket 100 700 n"
    "(net_step client_socket server_socket)\<^sup>*\<^sup>* n (run_client, run_server)"
    using run_reachable by blast
  ultimately show ?thesis using tcp_stream_integrity [of client_socket server_socket 100 700 n run_client run_server] by simp
qed

end
