(* ===== verification/Device.thy ===== *)
theory Device
  imports Text Config Switching Tcp_Connection
begin

text \<open>
  The device of \<open>rios-device/src/lib.rs\<close>: its runtime state as one record, capability classes, and the
  operational state of an interface. \<open>protocol_up\<close>, \<open>channel_members\<close> of \<open>channel.rs\<close> and the
  advertisements of \<open>lacp.rs\<close> call each other: a port channel is up when a member is, and a member
  counts when LACP distributes on it. The model has these functions over the recursive call as a
  parameter, once for a call that returns and once for one that may not (\<open>None\<close>), and nests the latter to a
  bounded depth: on well-formed devices depth two returns and the source's equation holds, so the
  recursion of the program ends there; on a cyclic device no depth returns.

  Names are ASCII strings, so the number of bytes and of characters agree. Counters with a default
  (\<open>entry(..).or_default()\<close>) are total functions that are zero where the map has no key. The runtime of IPv6, OSPF, BGP, UDP, services and observability is not part of the record.
\<close>

section \<open>Interfaces\<close>

datatype DeviceType = RouterDevice | SwitchDevice | Layer3Switch | Host

datatype InterfaceKind =
  GigabitEthernet | TenGigabitEthernet | EthernetSubinterface | PortChannel | Serial | Console | Loopback | VlanInterface

fun is_ethernet :: "InterfaceKind \<Rightarrow> bool" where
  "is_ethernet GigabitEthernet = True"
| "is_ethernet TenGigabitEthernet = True"
| "is_ethernet _ = False"

fun is_physical :: "InterfaceKind \<Rightarrow> bool" where
  "is_physical Loopback = False"
| "is_physical VlanInterface = False"
| "is_physical EthernetSubinterface = False"
| "is_physical PortChannel = False"
| "is_physical _ = True"

datatype InterfaceMedia = Rj45 | Sfp | SfpPlus | SerialMedia | ConsoleMedia | VirtualMedia

datatype DropReason =
  QosPoliced | QosPriorityExceeded | QosBurstExceeded | QosPolicyChanged | VlanFiltered | MalformedPacket | NeighborUnreachable
| ChannelInactive | NatFailed | QueueIsFull | SimulatedLoss | LinkDown | StpBlocking | InterfaceDown | NoLink | LinkChanged
| MtuExceeded | NotForInterface | NotEthernet | InvalidEtherType | AccessListDenied

record InterfaceCounters =
  co_drop_reasons :: "DropReason \<Rightarrow> u64"
  co_rx_packets :: u64
  co_tx_packets :: u64
  co_rx_bytes :: u64
  co_tx_bytes :: u64
  co_drops :: u64

record Interface =
  it_id :: InterfaceId
  it_kind :: InterfaceKind
  it_media :: InterfaceMedia
  it_mac_address :: MacAddress
  it_link_state :: LinkState
  it_counters :: InterfaceCounters

section \<open>Runtime tables\<close>

record MacEntry =
  me_vlan :: VlanId
  me_address :: MacAddress
  me_interface :: InterfaceId
  me_learned_at :: SimTime

record ArpEntry =
  ae_address :: ipv4
  ae_mac_address :: MacAddress
  ae_interface :: InterfaceId
  ae_learned_at :: SimTime

record LacpNeighbor =
  ln_pdu :: Lacpdu
  ln_expires_at :: SimTime

record StpReceived =
  sr_bpdu :: StpBpdu
  sr_guarded :: bool
  sr_expires_at :: SimTime

record StpInstance =
  si_agreed :: "InterfaceId set"
  si_transitions :: "(InterfaceId, SimTime) btree"
  si_root_id :: u64
  si_root_cost :: u32
  si_root_port :: "InterfaceId option"
  si_ports :: "(InterfaceId, StpPortRole \<times> StpPortState) btree"
  si_received :: "(InterfaceId, StpReceived) btree"

record DhcpLease =
  dl_dns_servers :: "ipv4 list"
  dl_domain_name :: "string option"
  dl_renew_at :: SimTime
  dl_rebind_at :: SimTime
  dl_address :: ipv4
  dl_prefix_len :: u8
  dl_default_router :: "ipv4 option"
  dl_server_id :: ipv4
  dl_expires_at :: SimTime

record DhcpBinding =
  db_address :: ipv4
  db_client_mac :: MacAddress
  db_pool_name :: string
  db_expires_at :: SimTime

record DhcpOffer =
  do_address :: ipv4
  do_prefix_len :: u8
  do_default_router :: "ipv4 option"
  do_server_id :: ipv4
  do_lease_time_seconds :: u32
  do_pool :: DhcpPoolId
  do_expires_at :: SimTime

record AclLog =
  lg_list :: AclId
  lg_sequence :: u32
  lg_action :: AccessListAction
  lg_source :: ipv4
  lg_destination :: ipv4
  lg_protocol :: u8

datatype NatProtocol = NatIcmp | NatUdp | NatTcp

record NatStatistics =
  ns_hits :: u64
  ns_misses :: u64
  ns_allocations :: u64
  ns_expired :: u64
  ns_drops :: u64

record NatTranslation =
  nt_protocol :: NatProtocol
  nt_inside_local_address :: ipv4
  nt_inside_local_port :: u16
  nt_inside_global_address :: ipv4
  nt_inside_global_port :: u16
  nt_outside_global_address :: ipv4
  nt_outside_global_port :: u16
  nt_expires_at :: SimTime

text \<open>The derived order of a socket is the lexicographic order of its fields.\<close>

type_synonym SocketKey = "ipv4 \<times> u16 \<times> ipv4 \<times> u16"

definition socket_key :: "TcpSocket \<Rightarrow> SocketKey" where
  "socket_key s = (so_local_address s, so_local_port s, so_remote_address s, so_remote_port s)"

fun key_socket :: "SocketKey \<Rightarrow> TcpSocket" where
  "key_socket (la, lp, ra, rp) =
     \<lparr>so_local_address = la, so_local_port = lp, so_remote_address = ra, so_remote_port = rp\<rparr>"

record TcpRuntime =
  tr_connections :: "(SocketKey, TcpConnection) btree"
  tr_listeners :: "u16 set"
  tr_next_sequence :: u32

record Device =
  dv_id :: u64
  dv_device_type :: DeviceType
  dv_interfaces :: "(InterfaceId, Interface) btree"
  dv_running_config :: RunningConfig
  dv_stp_errdisabled :: "InterfaceId set"
  dv_lacp_neighbors :: "(InterfaceId, LacpNeighbor) btree"
  dv_tcp :: TcpRuntime
  dv_acl_matches :: "AclId \<times> u32 \<Rightarrow> u64"
  dv_acl_logs :: "AclId \<times> u32 \<Rightarrow> u64"
  dv_acl_log_records :: "AclLog list"
  dv_legacy_acl_matches :: "AccessListId \<times> nat \<Rightarrow> u64"
  dv_arp_cache :: "(ipv4, ArpEntry) btree"
  dv_mac_table :: "(VlanId \<times> MacAddress, MacEntry) btree"
  dv_stp_runtime :: "(VlanId, StpInstance) btree"
  dv_dhcp_conflicts :: "(ipv4, SimTime) btree"
  dv_dhcp_leases :: "(InterfaceId, DhcpLease) btree"
  dv_dhcp_bindings :: "(MacAddress, DhcpBinding) btree"
  dv_dhcp_offers :: "(MacAddress, DhcpOffer) btree"
  dv_nat_translations :: "NatTranslation list"
  dv_nat_statistics :: NatStatistics
  dv_next_nat_port :: u16

datatype DeviceError =
  InvalidHostname | InvalidDeviceId | InvalidInterface string | InvalidDescription |
  InvalidSpanningTree | InvalidChannel | InvalidAccessList | AccessListCapacity | NotSubinterface | DuplicateEncapsulation
| MissingInterface | NotSwitchport | NotRoutedPort | UnsupportedIpv4Interface | InvalidVlanName | DefaultVlan
| AccessListUnsupported | MissingAccessList | DhcpNotSupported | InvalidDhcpPoolName | MissingDhcpPool | InvalidDhcpNetwork
| NatUnsupported | InvalidNatConfig

section \<open>Capabilities and lookups\<close>

definition supports_switching :: "Device \<Rightarrow> bool" where
  "supports_switching d = (dv_device_type d \<in> {SwitchDevice, Layer3Switch})"

definition supports_routing :: "Device \<Rightarrow> bool" where
  "supports_routing d = (dv_device_type d \<in> {RouterDevice, Layer3Switch})"

definition ipv4_forwarding_enabled :: "Device \<Rightarrow> bool" where
  "ipv4_forwarding_enabled d =
     (dv_device_type d = RouterDevice \<or> dv_device_type d = Layer3Switch \<and> rc_ip_routing (dv_running_config d))"

definition set_ip_routing :: "bool \<Rightarrow> Device \<Rightarrow> DeviceError + Device" where
  "set_ip_routing enabled d =
     (if \<not> supports_routing d then Inl NotRoutedPort
      else Inr (d\<lparr>dv_running_config := (dv_running_config d)\<lparr>rc_ip_routing := enabled\<rparr>\<rparr>))"

abbreviation if_configs :: "Device \<Rightarrow> (InterfaceId, InterfaceConfig) btree" where
  "if_configs d \<equiv> rc_interfaces (dv_running_config d)"

definition if_config :: "Device \<Rightarrow> InterfaceId \<Rightarrow> InterfaceConfig option" where
  "if_config d port = bt_get (if_configs d) port"

text \<open>\<open>config_mut\<close>: apply a change to the configuration of an interface that exists.\<close>

definition with_config :: "InterfaceId \<Rightarrow> (InterfaceConfig \<Rightarrow> InterfaceConfig) \<Rightarrow> Device \<Rightarrow> DeviceError + Device" where
  "with_config port change d =
     (case if_config d port of
        None \<Rightarrow> Inl MissingInterface
      | Some c \<Rightarrow> Inr (d\<lparr>dv_running_config := (dv_running_config d)\<lparr>rc_interfaces := bt_insert port (change c) (if_configs d)\<rparr>\<rparr>))"

definition is_switchport :: "Device \<Rightarrow> InterfaceId \<Rightarrow> bool" where
  "is_switchport d port = (case if_config d port of None \<Rightarrow> False | Some c \<Rightarrow> if_switchport c \<noteq> None)"

definition interface_ipv4 :: "Device \<Rightarrow> InterfaceId \<Rightarrow> Ipv4InterfaceConfig option" where
  "interface_ipv4 d port =
     (case if_config d port of
        None \<Rightarrow> None
      | Some c \<Rightarrow>
          (case if_ipv4 c of
             Some ip \<Rightarrow> Some ip
           | None \<Rightarrow>
               (case bt_get (dv_dhcp_leases d) port of
                  None \<Rightarrow> None
                | Some lease \<Rightarrow>
                    (case Ipv4InterfaceConfig_new (dl_address lease) (dl_prefix_len lease) of Inl _ \<Rightarrow> None | Inr ip \<Rightarrow> Some ip))))"

section \<open>Operational state\<close>

text \<open>The functions of \<open>lacp.rs\<close> and \<open>channel.rs\<close> that \<open>protocol_up\<close> depends on, over the recursive call \<open>up\<close>.\<close>

definition LacpPortInfo_default :: LacpPortInfo where
  "LacpPortInfo_default =
     \<lparr>lp_system_priority = 0, lp_system = MacAddress 0 0 0 0 0 0, lp_key = 0, lp_port_priority = 0, lp_port = 0, lp_state = 0\<rparr>"

definition lacp_system :: "Device \<Rightarrow> MacAddress option" where
  "lacp_system d =
     (let macs = map it_mac_address (filter (\<lambda>port. is_ethernet (it_kind port)) (bt_values (dv_interfaces d)))
      in if macs = [] then None else Some (Min (set macs)))"

definition lacp_info :: "Device \<Rightarrow> InterfaceId \<Rightarrow> ChannelMembership \<Rightarrow> LacpPortInfo option" where
  "lacp_info d port g =
     (case lacp_system d of
        None \<Rightarrow> None
      | Some system \<Rightarrow>
          if 65535 < InterfaceId_value port then None
          else Some \<lparr>lp_system_priority = 32768, lp_system = system, lp_key = cm_number g,
                     lp_port_priority = 32768, lp_port = ucast (InterfaceId_value port),
                     lp_state = LACP_TIMEOUT OR LACP_AGGREGATION OR
                       (if cm_mode g = ChannelActive then LACP_ACTIVITY else 0)\<rparr>)"

definition lacp_actor_with :: "(InterfaceId \<Rightarrow> bool) \<Rightarrow> Device \<Rightarrow> InterfaceId \<Rightarrow> LacpPortInfo option" where
  "lacp_actor_with up d port =
     (case if_config d port of
        None \<Rightarrow> None
      | Some config \<Rightarrow>
          (case if_channel_group config of
             None \<Rightarrow> None
           | Some g \<Rightarrow> if cm_mode g = ChannelOn \<or> \<not> up port then None else lacp_info d port g))"

definition in_group :: "Device \<Rightarrow> u16 \<Rightarrow> InterfaceId \<Rightarrow> bool" where
  "in_group d number port =
     (case if_config d port of
        None \<Rightarrow> False
      | Some config \<Rightarrow> (case if_channel_group config of None \<Rightarrow> False | Some g \<Rightarrow> cm_number g = number))"

definition least_partner :: "(InterfaceId \<times> LacpNeighbor) list \<Rightarrow> (u16 \<times> MacAddress \<times> u16) option" where
  "least_partner neighbors =
     (let partners = map (\<lambda>(_, n). let a = la_actor (ln_pdu n) in (lp_system_priority a, lp_system a, lp_key a)) neighbors
      in if partners = [] then None else Some (Min (set partners)))"

definition selected_partner_with ::
  "(InterfaceId \<Rightarrow> bool) \<Rightarrow> Device \<Rightarrow> u16 \<Rightarrow> (u16 \<times> MacAddress \<times> u16) option" where
  "selected_partner_with up d number =
     least_partner (filter (\<lambda>(port, _). up port \<and> in_group d number port) (dv_lacp_neighbors d))"

definition lacp_silent :: "Device \<Rightarrow> InterfaceId \<Rightarrow> LacpPortInfo \<Rightarrow> bool" where
  "lacp_silent d port actor =
     (lp_state actor AND LACP_ACTIVITY = 0 \<and>
      (case bt_get (dv_lacp_neighbors d) port of
         None \<Rightarrow> True | Some peer \<Rightarrow> lp_state (la_actor (ln_pdu peer)) AND LACP_ACTIVITY = 0))"

definition lacp_pdu :: "Device \<Rightarrow> InterfaceId \<Rightarrow> LacpPortInfo \<Rightarrow> (u16 \<times> MacAddress \<times> u16) option \<Rightarrow> Lacpdu" where
  "lacp_pdu d port actor best =
     (let neighbor = bt_get (dv_lacp_neighbors d) port;
          partner = (case neighbor of None \<Rightarrow> LacpPortInfo_default | Some peer \<Rightarrow> la_actor (ln_pdu peer));
          selected = (best = Some (lp_system_priority partner, lp_system partner, lp_key partner));
          flags = (case neighbor of
              None \<Rightarrow> LACP_DEFAULTED
            | Some peer \<Rightarrow>
                if selected \<and> LacpPortInfo_matches (la_partner (ln_pdu peer)) actor \<and> lp_state partner AND LACP_AGGREGATION \<noteq> 0
                then LACP_SYNC OR
                  (if lp_state partner AND LACP_SYNC \<noteq> 0 then LACP_COLLECTING OR
                     (if lp_state partner AND LACP_COLLECTING \<noteq> 0 then LACP_DISTRIBUTING else 0) else 0)
                else 0)
      in \<lparr>la_actor = actor\<lparr>lp_state := lp_state actor OR flags\<rparr>, la_partner = partner, la_collector_delay = 0\<rparr>)"

definition lacp_advertisement_with :: "(InterfaceId \<Rightarrow> bool) \<Rightarrow> Device \<Rightarrow> InterfaceId \<Rightarrow> Lacpdu option" where
  "lacp_advertisement_with up d port =
     (case lacp_actor_with up d port of
        None \<Rightarrow> None
      | Some actor \<Rightarrow>
          if lacp_silent d port actor then None else Some (lacp_pdu d port actor (selected_partner_with up d (lp_key actor))))"

definition distributing :: "Lacpdu option \<Rightarrow> bool" where
  "distributing pdu = (case pdu of None \<Rightarrow> False | Some pdu \<Rightarrow> lp_state (la_actor pdu) AND LACP_DISTRIBUTING \<noteq> 0)"

definition lacp_distributing_with :: "(InterfaceId \<Rightarrow> bool) \<Rightarrow> Device \<Rightarrow> InterfaceId \<Rightarrow> bool" where
  "lacp_distributing_with up d port = distributing (lacp_advertisement_with up d port)"

definition channel_members_with :: "(InterfaceId \<Rightarrow> bool) \<Rightarrow> Device \<Rightarrow> InterfaceId \<Rightarrow> InterfaceId list" where
  "channel_members_with up d logical =
     (case if_config d logical of
        None \<Rightarrow> []
      | Some policy \<Rightarrow>
          (case if_port_channel policy of
             None \<Rightarrow> []
           | Some number \<Rightarrow>
               map fst (filter (\<lambda>(port, config).
                 (case if_channel_group config of
                    None \<Rightarrow> False
                  | Some g \<Rightarrow> cm_number g = number \<and> (cm_mode g = ChannelOn \<or> lacp_distributing_with up d port)) \<and>
                 if_switchport config = if_switchport policy \<and> if_mtu config = if_mtu policy \<and> up port) (if_configs d))))"

definition protocol_up_with :: "(InterfaceId \<Rightarrow> bool) \<Rightarrow> Device \<Rightarrow> InterfaceId \<Rightarrow> bool" where
  "protocol_up_with up d port =
     (case bt_get (dv_interfaces d) port of
        None \<Rightarrow> False
      | Some interface \<Rightarrow>
          port \<notin> dv_stp_errdisabled d \<and>
          (case if_config d port of
             None \<Rightarrow> False
           | Some config \<Rightarrow>
               if_admin_state config = AdminUp \<and>
               (case it_kind interface of
                  Loopback \<Rightarrow> True
                | PortChannel \<Rightarrow> channel_members_with up d port \<noteq> []
                | EthernetSubinterface \<Rightarrow>
                    if_dot1q config \<noteq> None \<and>
                    (case if_parent config of None \<Rightarrow> False | Some parent \<Rightarrow> up parent \<and> \<not> is_switchport d parent)
                | GigabitEthernet \<Rightarrow> it_link_state interface = Up
                | TenGigabitEthernet \<Rightarrow> it_link_state interface = Up
                | VlanInterface \<Rightarrow> it_link_state interface = Up
                | Serial \<Rightarrow> False
                | Console \<Rightarrow> False)))"

text \<open>
  The recursion itself: the same functions over a recursive call that may not return, which is \<open>None\<close>.
  They make their calls in the order and under the conditions of the source, and a call that does not
  return makes its caller not return.
\<close>

fun filter_calls :: "('a \<Rightarrow> bool option) \<Rightarrow> 'a list \<Rightarrow> 'a list option" where
  "filter_calls p [] = Some []"
| "filter_calls p (x # xs) =
     Option.bind (p x) (\<lambda>keep. map_option (\<lambda>rest. if keep then x # rest else rest) (filter_calls p xs))"

definition lacp_actor_calls :: "(InterfaceId \<Rightarrow> bool option) \<Rightarrow> Device \<Rightarrow> InterfaceId \<Rightarrow> LacpPortInfo option option" where
  "lacp_actor_calls up d port =
     (case if_config d port of
        None \<Rightarrow> Some None
      | Some config \<Rightarrow>
          (case if_channel_group config of
             None \<Rightarrow> Some None
           | Some g \<Rightarrow>
               if cm_mode g = ChannelOn then Some None
               else map_option (\<lambda>is_up. if is_up then lacp_info d port g else None) (up port)))"

definition selected_partner_calls ::
  "(InterfaceId \<Rightarrow> bool option) \<Rightarrow> Device \<Rightarrow> u16 \<Rightarrow> (u16 \<times> MacAddress \<times> u16) option option" where
  "selected_partner_calls up d number =
     map_option least_partner
       (filter_calls (\<lambda>(port, _). map_option (\<lambda>is_up. is_up \<and> in_group d number port) (up port)) (dv_lacp_neighbors d))"

definition lacp_advertisement_calls :: "(InterfaceId \<Rightarrow> bool option) \<Rightarrow> Device \<Rightarrow> InterfaceId \<Rightarrow> Lacpdu option option" where
  "lacp_advertisement_calls up d port =
     Option.bind (lacp_actor_calls up d port) (\<lambda>a.
       case a of
         None \<Rightarrow> Some None
       | Some actor \<Rightarrow>
           if lacp_silent d port actor then Some None
           else map_option (\<lambda>best. Some (lacp_pdu d port actor best)) (selected_partner_calls up d (lp_key actor)))"

definition member_calls :: "(InterfaceId \<Rightarrow> bool option) \<Rightarrow> Device \<Rightarrow> u16 \<Rightarrow> InterfaceConfig \<Rightarrow> InterfaceId \<times> InterfaceConfig \<Rightarrow> bool option" where
  "member_calls up d number policy = (\<lambda>(port, config).
     case if_channel_group config of
       None \<Rightarrow> Some False
     | Some g \<Rightarrow>
         if cm_number g \<noteq> number then Some False
         else Option.bind (if cm_mode g = ChannelOn then Some True else map_option distributing (lacp_advertisement_calls up d port))
           (\<lambda>active. if active \<and> if_switchport config = if_switchport policy \<and> if_mtu config = if_mtu policy then up port else Some False))"

definition channel_members_calls :: "(InterfaceId \<Rightarrow> bool option) \<Rightarrow> Device \<Rightarrow> InterfaceId \<Rightarrow> InterfaceId list option" where
  "channel_members_calls up d logical =
     (case if_config d logical of
        None \<Rightarrow> Some []
      | Some policy \<Rightarrow>
          (case if_port_channel policy of
             None \<Rightarrow> Some []
           | Some number \<Rightarrow> map_option (map fst) (filter_calls (member_calls up d number policy) (if_configs d))))"

definition protocol_up_calls :: "(InterfaceId \<Rightarrow> bool option) \<Rightarrow> Device \<Rightarrow> InterfaceId \<Rightarrow> bool option" where
  "protocol_up_calls up d port =
     (case bt_get (dv_interfaces d) port of
        None \<Rightarrow> Some False
      | Some interface \<Rightarrow>
          if port \<in> dv_stp_errdisabled d then Some False
          else case if_config d port of
             None \<Rightarrow> Some False
           | Some config \<Rightarrow>
               if if_admin_state config \<noteq> AdminUp then Some False
               else case it_kind interface of
                  Loopback \<Rightarrow> Some True
                | PortChannel \<Rightarrow> map_option (\<lambda>members. members \<noteq> []) (channel_members_calls up d port)
                | EthernetSubinterface \<Rightarrow>
                    if if_dot1q config = None then Some False
                    else (case if_parent config of
                            None \<Rightarrow> Some False
                          | Some parent \<Rightarrow> map_option (\<lambda>is_up. is_up \<and> \<not> is_switchport d parent) (up parent))
                | GigabitEthernet \<Rightarrow> Some (it_link_state interface = Up)
                | TenGigabitEthernet \<Rightarrow> Some (it_link_state interface = Up)
                | VlanInterface \<Rightarrow> Some (it_link_state interface = Up)
                | Serial \<Rightarrow> Some False
                | Console \<Rightarrow> Some False)"

text \<open>
  Calls nested to a bounded depth. \<open>None\<close> is a call that has not returned at that depth, and a call that
  never returns is \<open>None\<close> at every depth. Depth two is enough for every device the operations can
  produce; the value for a device on which it is not is immaterial.
\<close>

fun protocol_up_fuel :: "nat \<Rightarrow> Device \<Rightarrow> InterfaceId \<Rightarrow> bool option" where
  "protocol_up_fuel 0 d port = None"
| "protocol_up_fuel (Suc n) d port = protocol_up_calls (protocol_up_fuel n d) d port"

definition protocol_up :: "Device \<Rightarrow> InterfaceId \<Rightarrow> bool" where
  "protocol_up d port = (protocol_up_fuel 2 d port = Some True)"

definition lacp_actor :: "Device \<Rightarrow> InterfaceId \<Rightarrow> LacpPortInfo option" where
  "lacp_actor d = lacp_actor_with (protocol_up d) d"

definition selected_partner :: "Device \<Rightarrow> u16 \<Rightarrow> (u16 \<times> MacAddress \<times> u16) option" where
  "selected_partner d = selected_partner_with (protocol_up d) d"

definition lacp_advertisement :: "Device \<Rightarrow> InterfaceId \<Rightarrow> Lacpdu option" where
  "lacp_advertisement d = lacp_advertisement_with (protocol_up d) d"

definition lacp_distributing :: "Device \<Rightarrow> InterfaceId \<Rightarrow> bool" where
  "lacp_distributing d = lacp_distributing_with (protocol_up d) d"

definition channel_members :: "Device \<Rightarrow> InterfaceId \<Rightarrow> InterfaceId list" where
  "channel_members d = channel_members_with (protocol_up d) d"

definition owns_ipv4 :: "Device \<Rightarrow> InterfaceId \<Rightarrow> ipv4 \<Rightarrow> bool" where
  "owns_ipv4 d port address =
     (protocol_up d port \<and> (case interface_ipv4 d port of None \<Rightarrow> False | Some ip \<Rightarrow> ic_address ip = address))"

definition owns_any_ipv4 :: "Device \<Rightarrow> ipv4 \<Rightarrow> bool" where
  "owns_any_ipv4 d address = list_ex (\<lambda>port. owns_ipv4 d port address) (map fst (if_configs d))"

section \<open>The recursion of the operational state\<close>

text \<open>
  What creation and channel configuration guarantee: members of channels, LACP neighbours and parents of
  subinterfaces are Ethernet ports.
\<close>

definition ethernet_port :: "Device \<Rightarrow> InterfaceId \<Rightarrow> bool" where
  "ethernet_port d port = (case bt_get (dv_interfaces d) port of None \<Rightarrow> False | Some i \<Rightarrow> is_ethernet (it_kind i))"

definition wf_layering :: "Device \<Rightarrow> bool" where
  "wf_layering d =
     ((\<forall>(port, config) \<in> set (if_configs d).
        (if_channel_group config \<noteq> None \<longrightarrow> ethernet_port d port) \<and>
        (\<forall>parent. if_parent config = Some parent \<longrightarrow> ethernet_port d parent)) \<and>
      (\<forall>(port, n) \<in> set (dv_lacp_neighbors d). ethernet_port d port))"

lemma ethernet_up:
  assumes "ethernet_port d port"
  shows "protocol_up_calls up d port = Some (protocol_up_with up' d port)"
  using assms by (auto simp: ethernet_port_def protocol_up_calls_def protocol_up_with_def split: option.splits InterfaceKind.splits)

lemma ethernet_fuel: "ethernet_port d port \<Longrightarrow> protocol_up_fuel (Suc n) d port = Some (protocol_up_with up d port)"
  by (simp add: ethernet_up)

lemma if_config_in: "if_config d port = Some c \<Longrightarrow> (port, c) \<in> set (if_configs d)"
  by (simp add: if_config_def bt_get_def map_of_SomeD)

lemma filter_calls_return: "(\<And>x. x \<in> set xs \<Longrightarrow> p x = Some (q x)) \<Longrightarrow> filter_calls p xs = Some (filter q xs)"
  by (induction xs) auto

text \<open>When the recursive calls on Ethernet ports return, so does every function of the recursion.\<close>

lemma actor_returns: "up port = Some (up' port) \<Longrightarrow> lacp_actor_calls up d port = Some (lacp_actor_with up' d port)"
  by (auto simp: lacp_actor_calls_def lacp_actor_with_def split: option.splits)

lemma partner_returns:
  assumes "wf_layering d" "\<And>port. ethernet_port d port \<Longrightarrow> up port = Some (up' port)"
  shows "selected_partner_calls up d number = Some (selected_partner_with up' d number)"
proof -
  have "up port = Some (up' port)" if "(port, n) \<in> set (dv_lacp_neighbors d)" for port n
    using assms that by (auto simp: wf_layering_def)
  then have "filter_calls (\<lambda>(port, _). map_option (\<lambda>is_up. is_up \<and> in_group d number port) (up port)) (dv_lacp_neighbors d) =
      Some (filter (\<lambda>(port, _). up' port \<and> in_group d number port) (dv_lacp_neighbors d))"
    by (intro filter_calls_return) auto
  then show ?thesis by (simp add: selected_partner_calls_def selected_partner_with_def)
qed

lemma advertisement_returns:
  assumes "wf_layering d" "\<And>port. ethernet_port d port \<Longrightarrow> up port = Some (up' port)" "up port = Some (up' port)"
  shows "lacp_advertisement_calls up d port = Some (lacp_advertisement_with up' d port)"
  using actor_returns [of up port up' d, OF assms(3)] partner_returns [where up = up and up' = up', OF assms(1, 2)]
  by (simp add: lacp_advertisement_calls_def lacp_advertisement_with_def split: option.split)

lemma members_return:
  assumes "wf_layering d" "\<And>port. ethernet_port d port \<Longrightarrow> up port = Some (up' port)"
  shows "channel_members_calls up d logical = Some (channel_members_with up' d logical)"
proof -
  have call: "member_calls up d number policy x = Some ((\<lambda>(port, config).
      (case if_channel_group config of
         None \<Rightarrow> False
       | Some g \<Rightarrow> cm_number g = number \<and> (cm_mode g = ChannelOn \<or> lacp_distributing_with up' d port)) \<and>
      if_switchport config = if_switchport policy \<and> if_mtu config = if_mtu policy \<and> up' port) x)"
    if "x \<in> set (if_configs d)" for x number policy
  proof -
    obtain port config where x: "x = (port, config)" by (cases x)
    show ?thesis
    proof (cases "if_channel_group config")
      case (Some g)
      then have "ethernet_port d port" using assms(1) that unfolding x wf_layering_def by auto
      then have "up port = Some (up' port)" by (rule assms(2))
      then show ?thesis
        using advertisement_returns [where up = up and up' = up' and port = port, OF assms] by (auto simp: x Some member_calls_def lacp_distributing_with_def)
    qed (simp add: x member_calls_def)
  qed
  show ?thesis
    by (simp add: channel_members_calls_def channel_members_with_def filter_calls_return [OF call] split: option.split)
qed

lemma protocol_up_returns:
  assumes "wf_layering d" "\<And>port. ethernet_port d port \<Longrightarrow> up port = Some (up' port)"
  shows "protocol_up_calls up d port = Some (protocol_up_with up' d port)"
proof -
  have "up parent = Some (up' parent)" if "if_config d port = Some c" "if_parent c = Some parent" for c parent
    using assms that if_config_in [OF that(1)] by (auto simp: wf_layering_def)
  then show ?thesis
    using members_return [where up = up and up' = up' and logical = port, OF assms]
    by (auto simp: protocol_up_calls_def protocol_up_with_def split: option.splits InterfaceKind.splits)
qed

lemma protocol_up_fuel_enough:
  assumes "wf_layering d"
  shows "protocol_up_fuel (2 + n) d port = Some (protocol_up d port)"
proof -
  let ?ports = "\<lambda>port. protocol_up_with (\<lambda>_. False) d port"
  have "protocol_up_fuel (2 + m) d port = Some (protocol_up_with ?ports d port)" for m
    using protocol_up_returns [where d = d and up = "protocol_up_fuel (Suc m) d" and up' = ?ports and port = port, OF assms] ethernet_fuel by simp
  from this [of n] this [of 0] show ?thesis by (simp add: protocol_up_def)
qed

lemma protocol_up_fuel_total: "wf_layering d \<Longrightarrow> protocol_up_fuel (2 + n) d = (\<lambda>port. Some (protocol_up d port))"
  using protocol_up_fuel_enough by blast

lemma protocol_up_unfold:
  assumes "wf_layering d"
  shows "protocol_up d port = protocol_up_with (protocol_up d) d port"
  using protocol_up_fuel_enough [OF assms, of 1 port] protocol_up_fuel_total [OF assms, of 0]
    protocol_up_returns [where d = d and up = "\<lambda>port. Some (protocol_up d port)" and up' = "protocol_up d" and port = port, OF assms]
  by (simp add: numeral_2_eq_2 numeral_3_eq_3)

text \<open>The recursion does not end on every device: a subinterface that is its own parent asks itself forever.\<close>

lemma self_parent_diverges:
  assumes "bt_get (dv_interfaces d) port = Some i" "it_kind i = EthernetSubinterface" "port \<notin> dv_stp_errdisabled d"
    "if_config d port = Some c" "if_admin_state c = AdminUp" "if_dot1q c \<noteq> None" "if_parent c = Some port"
  shows "protocol_up_fuel n d port = None"
  by (induction n) (use assms in \<open>simp_all add: protocol_up_calls_def\<close>)

section \<open>Construction\<close>

definition hostname_valid :: "string \<Rightarrow> bool" where
  "hostname_valid name =
     (name \<noteq> [] \<and> length name \<le> 63 \<and> is_ascii_alpha (hd name) \<and>
      list_all (\<lambda>c. is_ascii_alpha c \<or> is_digit c \<or> c = CHR ''-'') name)"

definition RunningConfig_new :: "string \<Rightarrow> DeviceType \<Rightarrow> RunningConfig" where
  "RunningConfig_new hostname device_type =
     \<lparr>rc_spanning_tree = \<lparr>st_rapid = False, st_priorities = []\<rparr>, rc_dhcp_excluded = [], rc_static_nat = [], rc_nat_pools = [],
      rc_nat_pool_rule = None, rc_named_access_lists = [], rc_hostname = hostname, rc_ip_routing = False, rc_interfaces = [],
      rc_vlans = (if device_type \<in> {SwitchDevice, Layer3Switch} then [(VlanId_DEFAULT, \<lparr>vc_name = []\<rparr>)] else []),
      rc_access_lists = [], rc_dhcp_pools = [], rc_nat_overload = None\<rparr>"

definition Device_new :: "u64 \<Rightarrow> string \<Rightarrow> DeviceType \<Rightarrow> DeviceError + Device" where
  "Device_new number hostname device_type =
     (if \<not> hostname_valid hostname then Inl InvalidHostname
      else if 0xffffff < number then Inl InvalidDeviceId
      else Inr \<lparr>dv_id = number, dv_device_type = device_type, dv_interfaces = [],
        dv_running_config = RunningConfig_new hostname device_type, dv_stp_errdisabled = {}, dv_lacp_neighbors = [],
        dv_tcp = \<lparr>tr_connections = [], tr_listeners = {}, tr_next_sequence = 0\<rparr>, dv_acl_matches = (\<lambda>_. 0), dv_acl_logs = (\<lambda>_. 0),
        dv_acl_log_records = [], dv_legacy_acl_matches = (\<lambda>_. 0), dv_arp_cache = [], dv_mac_table = [], dv_stp_runtime = [],
        dv_dhcp_conflicts = [], dv_dhcp_leases = [], dv_dhcp_bindings = [], dv_dhcp_offers = [], dv_nat_translations = [],
        dv_nat_statistics = \<lparr>ns_hits = 0, ns_misses = 0, ns_allocations = 0, ns_expired = 0, ns_drops = 0\<rparr>,
        dv_next_nat_port = 10000\<rparr>)"

definition find_interface :: "Device \<Rightarrow> string \<Rightarrow> InterfaceId option" where
  "find_interface d canonical =
     map_option fst (find (\<lambda>(_, c). map to_lower (if_name c) = map to_lower canonical) (if_configs d))"

definition new_counters :: InterfaceCounters where
  "new_counters = \<lparr>co_drop_reasons = (\<lambda>_. 0), co_rx_packets = 0, co_tx_packets = 0, co_rx_bytes = 0, co_tx_bytes = 0, co_drops = 0\<rparr>"

definition new_interface_config :: "Device \<Rightarrow> string \<Rightarrow> InterfaceKind \<Rightarrow> InterfaceConfig" where
  "new_interface_config d name kind =
     \<lparr>if_ipv6 = Ipv6InterfacePolicy_default, if_spanning_tree = StpPortConfig_default, if_channel_group = None, if_port_channel = None, if_named_access_group_in = None,
      if_named_access_group_out = None, if_parent = None, if_dot1q = None, if_name = name, if_description = [],
      if_admin_state = (if supports_switching d \<and> is_ethernet kind then AdminUp else AdminDown), if_ipv4 = None,
      if_dhcp_client = False, if_helper_address = None, if_mtu = 1500,
      if_switchport_capable = (supports_switching d \<and> is_ethernet kind),
      if_switchport = (if supports_switching d \<and> is_ethernet kind then Some SwitchportConfig_default else None),
      if_access_group_in = None, if_access_group_out = None, if_nat_role = None\<rparr>"

definition interface_mac :: "u64 \<Rightarrow> u64 \<Rightarrow> MacAddress" where
  "interface_mac device port =
     (let d = u64_be device; p = u64_be port in MacAddress 2 (d ! 5) (d ! 6) (d ! 7) (p ! 6) (p ! 7))"

definition insert_interface :: "string \<Rightarrow> InterfaceKind \<Rightarrow> InterfaceMedia \<Rightarrow> Device \<Rightarrow> DeviceError + InterfaceId \<times> Device" where
  "insert_interface name kind media d =
     (case find_interface d name of
        Some port \<Rightarrow> Inr (port, d)
      | None \<Rightarrow>
          let number = (if dv_interfaces d = [] then 1 else InterfaceId_value (fst (last (dv_interfaces d))) + 1)
          in if 65535 < number then Inl (InvalidInterface name)
             else let port = InterfaceId number;
                      interface = \<lparr>it_id = port, it_kind = kind, it_media = media, it_mac_address = interface_mac (dv_id d) number,
                                   it_link_state = Down, it_counters = new_counters\<rparr>
                  in Inr (port, d\<lparr>dv_interfaces := bt_insert port interface (dv_interfaces d),
                                  dv_running_config := (dv_running_config d)\<lparr>rc_interfaces :=
                                    bt_insert port (new_interface_config d name kind) (if_configs d)\<rparr>\<rparr>))"

definition result_of :: "'e + 'a \<Rightarrow> 'a" where
  "result_of r = (case r of Inr x \<Rightarrow> x | Inl _ \<Rightarrow> undefined)"

lemma result_of_ok: "\<not> isl r \<Longrightarrow> r = Inr (result_of r)"
  by (cases r) (simp_all add: result_of_def)

text \<open>The two-port router of the standalone front end.\<close>

definition standalone :: Device where
  "standalone =
     (let d0 = result_of (Device_new 1 ''R1'' RouterDevice);
          d1 = snd (result_of (insert_interface ''GigabitEthernet0/0'' GigabitEthernet Rj45 d0))
      in snd (result_of (insert_interface ''GigabitEthernet0/1'' GigabitEthernet Rj45 d1)))"

lemma standalone_simps:
  "dv_device_type standalone = RouterDevice"
  "map fst (if_configs standalone) = [InterfaceId 1, InterfaceId 2]"
  by code_simp+

end
