(* ===== verification/Dev_Acl.thy ===== *)
theory Dev_Acl
  imports Device
begin

text \<open>
  Access lists of a device: the numbered standard lists of \<open>acl.rs\<close> and the named, sequenced lists of
  \<open>named_acl.rs\<close>, their validation, their application to interfaces, and the evaluation of a packet with
  match counters and the bounded log. A numbered list that is edited by name is promoted to a named one.
  Counters are functions with default 0, as every reader of the maps uses them.
\<close>

section \<open>Named lists\<close>

abbreviation named_lists :: "Device \<Rightarrow> (AclId, AccessList) btree" where
  "named_lists d \<equiv> rc_named_access_lists (dv_running_config d)"

abbreviation numbered_lists :: "Device \<Rightarrow> (AccessListId, StandardAccessListEntry list) btree" where
  "numbered_lists d \<equiv> rc_access_lists (dv_running_config d)"

definition set_named_lists :: "(AclId, AccessList) btree \<Rightarrow> Device \<Rightarrow> Device" where
  "set_named_lists l d = d\<lparr>dv_running_config := (dv_running_config d)\<lparr>rc_named_access_lists := l\<rparr>\<rparr>"

definition set_numbered_lists :: "(AccessListId, StandardAccessListEntry list) btree \<Rightarrow> Device \<Rightarrow> Device" where
  "set_numbered_lists l d = d\<lparr>dv_running_config := (dv_running_config d)\<lparr>rc_access_lists := l\<rparr>\<rparr>"

definition acl_id :: "Device \<Rightarrow> string \<Rightarrow> AclId option" where
  "acl_id d name = map_option fst (find (\<lambda>(key, list). al_name list = name) (named_lists d))"

definition acl_name_char :: "char \<Rightarrow> bool" where
  "acl_name_char c =
     (let n = (of_char c :: nat) in is_digit c \<or> 65 \<le> n \<and> n \<le> 90 \<or> 97 \<le> n \<and> n \<le> 122 \<or> c = CHR ''_'' \<or> c = CHR ''-'')"

definition acl_number_valid :: "AclKind \<Rightarrow> nat \<Rightarrow> bool" where
  "acl_number_valid kind n =
     (case kind of
        Standard \<Rightarrow> 1 \<le> n \<and> n \<le> 99 \<or> 1300 \<le> n \<and> n \<le> 1999
      | Extended \<Rightarrow> 100 \<le> n \<and> n \<le> 199 \<or> 2000 \<le> n \<and> n \<le> 2699)"

definition acl_name_valid :: "string \<Rightarrow> AclKind \<Rightarrow> bool" where
  "acl_name_valid name kind =
     (name \<noteq> [] \<and> length name \<le> 64 \<and> list_all acl_name_char name \<and>
      (list_all is_digit name \<longrightarrow>
         (case parse_uint 65535 name of None \<Rightarrow> False | Some n \<Rightarrow> acl_number_valid kind n \<and> name = decimal n)))"

definition promoted_rule :: "StandardAccessListEntry \<Rightarrow> AclEntry" where
  "promoted_rule e =
     Rule (sa_action e) AclIp \<lparr>am_address = sa_source e, am_wildcard = sa_wildcard e\<rparr> PortAny AddressMatch_ANY PortAny False"

definition promoted_entries :: "StandardAccessListEntry list \<Rightarrow> (u32, AclEntry) btree" where
  "promoted_entries old = bt_collect (map (\<lambda>(index, e). ((of_nat index + 1) * 10, promoted_rule e)) (enumerate 0 old))"

text \<open>The numbered list that a new standard list with this name replaces.\<close>

definition promotable :: "Device \<Rightarrow> string \<Rightarrow> AclKind \<Rightarrow> (AccessListId \<times> StandardAccessListEntry list) option" where
  "promotable d name kind =
     (if kind \<noteq> Standard then None
      else case parse_uint 255 name of
          None \<Rightarrow> None
        | Some number \<Rightarrow>
            (case AccessListId_new (of_nat number) of
               None \<Rightarrow> None
             | Some old_id \<Rightarrow> map_option (\<lambda>old. (old_id, old)) (bt_get (numbered_lists d) old_id)))"

definition ensure_acl :: "string \<Rightarrow> AclKind \<Rightarrow> Device \<Rightarrow> DeviceError + AclId \<times> Device" where
  "ensure_acl name kind d =
     (if \<not> supports_routing d then Inl AccessListUnsupported
      else if \<not> acl_name_valid name kind then Inl InvalidAccessList
      else case acl_id d name of
          Some key \<Rightarrow>
            (case bt_get (named_lists d) key of
               Some list \<Rightarrow> if al_kind list = kind then Inr (key, d) else Inl InvalidAccessList
             | None \<Rightarrow> Inl InvalidAccessList)
        | None \<Rightarrow>
            if 4096 \<le> length (named_lists d) then Inl AccessListCapacity
            else and_then (if named_lists d = [] then Inr 1
                           else ok_or AccessListCapacity (checked_add (fst (last (named_lists d))) 1)) (\<lambda>key.
              case promotable d name kind of
                None \<Rightarrow>
                  Inr (key, set_named_lists (bt_insert key \<lparr>al_name = name, al_kind = kind, al_entries = []\<rparr> (named_lists d)) d)
              | Some (old_id, old) \<Rightarrow>
                  Inr (key, set_named_lists (bt_insert key \<lparr>al_name = name, al_kind = kind, al_entries = promoted_entries old\<rparr> (named_lists d))
                              (set_numbered_lists (bt_remove old_id (numbered_lists d)) d))))"

fun port_range_reversed :: "PortMatch \<Rightarrow> bool" where
  "port_range_reversed (PortRange a b) = (a > b)"
| "port_range_reversed _ = False"

fun acl_entry_valid :: "AclKind \<Rightarrow> AclEntry \<Rightarrow> bool" where
  "acl_entry_valid kind (Remark text) = (length text \<le> 240 \<and> \<not> list_ex is_control text)"
| "acl_entry_valid kind (Rule action protocol source source_port destination destination_port log) =
     (\<not> port_range_reversed source_port \<and> \<not> port_range_reversed destination_port \<and>
      (protocol \<in> {AclTcp, AclUdp} \<or> source_port = PortAny \<and> destination_port = PortAny) \<and>
      (kind = Standard \<longrightarrow> protocol = AclIp \<and> destination = AddressMatch_ANY))"

definition forget_matches :: "AclId \<Rightarrow> u32 \<Rightarrow> Device \<Rightarrow> Device" where
  "forget_matches key sequence d =
     d\<lparr>dv_acl_matches := (dv_acl_matches d)((key, sequence) := 0), dv_acl_logs := (dv_acl_logs d)((key, sequence) := 0)\<rparr>"

definition next_sequence :: "(u32, AclEntry) btree \<Rightarrow> u32" where
  "next_sequence entries = (if entries = [] then 10 else saturating_add (fst (last entries)) 10)"

definition set_acl_entry :: "AclId \<Rightarrow> u32 option \<Rightarrow> AclEntry \<Rightarrow> Device \<Rightarrow> DeviceError + Device" where
  "set_acl_entry key sequence entry d =
     (case bt_get (named_lists d) key of
        None \<Rightarrow> Inl MissingAccessList
      | Some list \<Rightarrow>
          let sequence' = (case sequence of None \<Rightarrow> next_sequence (al_entries list) | Some s \<Rightarrow> s)
          in if sequence' = 0 \<or> sequence' = - 1 then Inl InvalidAccessList
             else if 4096 \<le> length (al_entries list) \<and> bt_get (al_entries list) sequence' = None then Inl AccessListCapacity
             else if \<not> acl_entry_valid (al_kind list) entry then Inl InvalidAccessList
             else Inr (forget_matches key sequence' (set_named_lists
                    (bt_insert key (list\<lparr>al_entries := bt_insert sequence' entry (al_entries list)\<rparr>) (named_lists d)) d)))"

definition remove_acl_entry :: "AclId \<Rightarrow> u32 \<Rightarrow> Device \<Rightarrow> DeviceError + Device" where
  "remove_acl_entry key sequence d =
     (case bt_get (named_lists d) key of
        None \<Rightarrow> Inl MissingAccessList
      | Some list \<Rightarrow>
          Inr (forget_matches key sequence (set_named_lists
            (bt_insert key (list\<lparr>al_entries := bt_remove sequence (al_entries list)\<rparr>) (named_lists d)) d)))"

fun apply_named_group :: "AccessListDirection \<Rightarrow> AclId \<Rightarrow> InterfaceConfig \<Rightarrow> InterfaceConfig" where
  "apply_named_group DirIn key c = c\<lparr>if_named_access_group_in := Some key, if_access_group_in := None\<rparr>"
| "apply_named_group DirOut key c = c\<lparr>if_named_access_group_out := Some key, if_access_group_out := None\<rparr>"

definition set_named_access_group :: "InterfaceId \<Rightarrow> string \<Rightarrow> AccessListDirection \<Rightarrow> Device \<Rightarrow> DeviceError + Device" where
  "set_named_access_group port name direction d =
     (case acl_id d name of
        None \<Rightarrow> Inl MissingAccessList
      | Some key \<Rightarrow> with_config port (apply_named_group direction key) d)"

definition acl_match_count :: "AclId \<Rightarrow> u32 \<Rightarrow> Device \<Rightarrow> u64" where
  "acl_match_count key sequence d = dv_acl_matches d (key, sequence)"

definition take_acl_logs :: "Device \<Rightarrow> AclLog list \<times> Device" where
  "take_acl_logs d = (dv_acl_log_records d, d\<lparr>dv_acl_log_records := []\<rparr>)"

section \<open>Evaluation\<close>

fun find_rule :: "Ipv4Packet \<Rightarrow> (u32, AclEntry) btree \<Rightarrow> (u32 \<times> AccessListAction \<times> bool) option" where
  "find_rule packet [] = None"
| "find_rule packet ((sequence, entry) # entries) =
     (case AclEntry_evaluate entry packet of
        Some action \<Rightarrow> Some (sequence, action, (case entry of Remark _ \<Rightarrow> False | Rule _ _ _ _ _ _ log \<Rightarrow> log))
      | None \<Rightarrow> find_rule packet entries)"

definition count_match :: "AclId \<Rightarrow> u32 \<Rightarrow> Device \<Rightarrow> Device" where
  "count_match key sequence d =
     d\<lparr>dv_acl_matches := (dv_acl_matches d)((key, sequence) := saturating_add (dv_acl_matches d (key, sequence)) 1)\<rparr>"

definition log_match :: "AclId \<Rightarrow> u32 \<Rightarrow> AccessListAction \<Rightarrow> Ipv4Packet \<Rightarrow> Device \<Rightarrow> Device" where
  "log_match key sequence action packet d =
     (let kept = (if 256 \<le> length (dv_acl_log_records d) then tl (dv_acl_log_records d) else dv_acl_log_records d)
      in d\<lparr>dv_acl_log_records := kept @ [\<lparr>lg_list = key, lg_sequence = sequence, lg_action = action, lg_source = ip_source packet,
             lg_destination = ip_destination packet, lg_protocol = IpProtocol_code (ip_protocol packet)\<rparr>],
           dv_acl_logs := (dv_acl_logs d)((key, sequence) := saturating_add (dv_acl_logs d (key, sequence)) 1)\<rparr>)"

definition evaluate_named_acl :: "AclId \<Rightarrow> Ipv4Packet \<Rightarrow> Device \<Rightarrow> bool \<times> Device" where
  "evaluate_named_acl key packet d =
     (case (case bt_get (named_lists d) key of None \<Rightarrow> None | Some list \<Rightarrow> find_rule packet (al_entries list)) of
        None \<Rightarrow> (False, d)
      | Some (sequence, action, log) \<Rightarrow>
          let d1 = count_match key sequence d;
              d2 = (if log then log_match key sequence action packet d1 else d1)
          in (action = Permit, d2))"

definition find_entry :: "ipv4 \<Rightarrow> StandardAccessListEntry list \<Rightarrow> (nat \<times> StandardAccessListEntry) option" where
  "find_entry source entries = find (\<lambda>(index, e). StandardAccessListEntry_matches e source) (enumerate 0 entries)"

fun direction_named :: "AccessListDirection \<Rightarrow> InterfaceConfig \<Rightarrow> AclId option" where
  "direction_named DirIn c = if_named_access_group_in c"
| "direction_named DirOut c = if_named_access_group_out c"

fun direction_numbered :: "AccessListDirection \<Rightarrow> InterfaceConfig \<Rightarrow> AccessListId option" where
  "direction_numbered DirIn c = if_access_group_in c"
| "direction_numbered DirOut c = if_access_group_out c"

abbreviation number_name :: "AccessListId \<Rightarrow> string" where
  "number_name n \<equiv> decimal (unat n)"

definition permits_ipv4 :: "InterfaceId \<Rightarrow> AccessListDirection \<Rightarrow> Ipv4Packet \<Rightarrow> Device \<Rightarrow> bool \<times> Device" where
  "permits_ipv4 port direction packet d =
     (case if_config d port of
        None \<Rightarrow> (False, d)
      | Some config \<Rightarrow>
          (case direction_named direction config of
             Some key \<Rightarrow> evaluate_named_acl key packet d
           | None \<Rightarrow>
               (case direction_numbered direction config of
                  None \<Rightarrow> (True, d)
                | Some number \<Rightarrow>
                    (case acl_id d (number_name number) of
                       Some named \<Rightarrow> evaluate_named_acl named packet d
                     | None \<Rightarrow>
                         (case (case bt_get (numbered_lists d) number of None \<Rightarrow> None | Some entries \<Rightarrow> find_entry (ip_source packet) entries) of
                            None \<Rightarrow> (False, d)
                          | Some (index, e) \<Rightarrow>
                              (sa_action e = Permit,
                               d\<lparr>dv_legacy_acl_matches := (dv_legacy_acl_matches d)((number, index) :=
                                   saturating_add (dv_legacy_acl_matches d (number, index)) 1)\<rparr>))))))"

definition access_list_permits :: "AccessListId \<Rightarrow> ipv4 \<Rightarrow> Device \<Rightarrow> bool" where
  "access_list_permits number source d =
     (case acl_id d (number_name number) of
        Some named \<Rightarrow>
          let packet = \<lparr>ip_dscp_ecn = 0, ip_source = source, ip_destination = 0, ip_ttl = 64, ip_protocol = OtherProtocol 0, ip_payload = []\<rparr>
          in (case bt_get (named_lists d) named of
                None \<Rightarrow> False
              | Some list \<Rightarrow> map_option (\<lambda>(_, action, _). action) (find_rule packet (al_entries list)) = Some Permit)
      | None \<Rightarrow>
          (case bt_get (numbered_lists d) number of
             None \<Rightarrow> False
           | Some entries \<Rightarrow>
               (case find (\<lambda>e. StandardAccessListEntry_matches e source) entries of None \<Rightarrow> False | Some e \<Rightarrow> sa_action e = Permit)))"

section \<open>Numbered lists\<close>

definition add_access_list_entry :: "AccessListId \<Rightarrow> StandardAccessListEntry \<Rightarrow> Device \<Rightarrow> DeviceError + Device" where
  "add_access_list_entry number entry d =
     (if \<not> supports_routing d then Inl AccessListUnsupported
      else case acl_id d (number_name number) of
          Some named \<Rightarrow> set_acl_entry named None (promoted_rule entry) d
        | None \<Rightarrow>
            let entries = (case bt_get (numbered_lists d) number of None \<Rightarrow> [] | Some l \<Rightarrow> l)
            in if 4096 \<le> length entries then Inl AccessListCapacity
               else Inr (set_numbered_lists (bt_insert number (entries @ [entry]) (numbered_lists d)) d))"

fun apply_numbered_group :: "AccessListDirection \<Rightarrow> AccessListId \<Rightarrow> InterfaceConfig \<Rightarrow> InterfaceConfig" where
  "apply_numbered_group DirIn number c = c\<lparr>if_access_group_in := Some number, if_named_access_group_in := None\<rparr>"
| "apply_numbered_group DirOut number c = c\<lparr>if_access_group_out := Some number, if_named_access_group_out := None\<rparr>"

definition set_access_group :: "InterfaceId \<Rightarrow> AccessListId \<Rightarrow> AccessListDirection \<Rightarrow> Device \<Rightarrow> DeviceError + Device" where
  "set_access_group port number direction d =
     (if \<not> supports_routing d then Inl AccessListUnsupported
      else if acl_id d (number_name number) \<noteq> None then set_named_access_group port (number_name number) direction d
      else if bt_get (numbered_lists d) number = None then Inl MissingAccessList
      else with_config port (apply_numbered_group direction number) d)"

section \<open>First match\<close>

lemma find_rule_first:
  assumes "bt_wf entries"
  shows "find_rule packet entries = Some (sequence, action, log) \<longleftrightarrow>
    (\<exists>entry. bt_get entries sequence = Some entry \<and> AclEntry_evaluate entry packet = Some action \<and>
       log = (case entry of Remark _ \<Rightarrow> False | Rule _ _ _ _ _ _ l \<Rightarrow> l) \<and>
       (\<forall>s e. s < sequence \<longrightarrow> bt_get entries s = Some e \<longrightarrow> AclEntry_evaluate e packet = None))"
  using assms
proof (induction entries)
  case (Cons x entries)
  obtain s e where x: "x = (s, e)" by (cases x)
  have wf: "bt_wf entries" and above: "\<And>t f. bt_get entries t = Some f \<Longrightarrow> s < t"
    using Cons.prems by (auto simp: x bt_wf_def bt_get_def dest!: map_of_SomeD)
  have "bt_get entries s = None" using above [of s] by (cases "bt_get entries s") auto
  then have get: "bt_get (x # entries) t = (if t = s then Some e else bt_get entries t)" for t
    by (simp add: x bt_get_def)
  show ?case
  proof (cases "AclEntry_evaluate e packet")
    case None
    have "bt_get (x # entries) sequence = Some entry \<and> AclEntry_evaluate entry packet = Some action \<longleftrightarrow>
        bt_get entries sequence = Some entry \<and> AclEntry_evaluate entry packet = Some action" for entry
      using None \<open>bt_get entries s = None\<close> by (auto simp: get)
    moreover have "(\<forall>t f. t < sequence \<longrightarrow> bt_get (x # entries) t = Some f \<longrightarrow> AclEntry_evaluate f packet = None) \<longleftrightarrow>
        (\<forall>t f. t < sequence \<longrightarrow> bt_get entries t = Some f \<longrightarrow> AclEntry_evaluate f packet = None)"
      using None \<open>bt_get entries s = None\<close> by (auto simp: get) (metis option.distinct(1))
    ultimately show ?thesis using Cons.IH [OF wf] None by (simp add: x) blast
  next
    case (Some a)
    let ?log = "case e of Remark _ \<Rightarrow> False | Rule _ _ _ _ _ _ l \<Rightarrow> l"
    have fr: "find_rule packet (x # entries) = Some (s, a, ?log)" using Some by (simp add: x)
    have s: "bt_get (x # entries) s = Some e" by (simp add: get)
    have first: "\<not> t < s \<or> bt_get (x # entries) t = None" for t
      using above [of t] by (auto simp: get) (metis not_None_eq order.asym)
    show ?thesis
    proof
      assume "find_rule packet (x # entries) = Some (sequence, action, log)"
      then have "sequence = s" "action = a" "log = ?log" using fr by simp_all
      then show "\<exists>entry. bt_get (x # entries) sequence = Some entry \<and> AclEntry_evaluate entry packet = Some action \<and>
          log = (case entry of Remark _ \<Rightarrow> False | Rule _ _ _ _ _ _ l \<Rightarrow> l) \<and>
          (\<forall>t f. t < sequence \<longrightarrow> bt_get (x # entries) t = Some f \<longrightarrow> AclEntry_evaluate f packet = None)"
        using s Some first by auto
    next
      assume "\<exists>entry. bt_get (x # entries) sequence = Some entry \<and> AclEntry_evaluate entry packet = Some action \<and>
          log = (case entry of Remark _ \<Rightarrow> False | Rule _ _ _ _ _ _ l \<Rightarrow> l) \<and>
          (\<forall>t f. t < sequence \<longrightarrow> bt_get (x # entries) t = Some f \<longrightarrow> AclEntry_evaluate f packet = None)"
      then obtain entry where entry: "bt_get (x # entries) sequence = Some entry" "AclEntry_evaluate entry packet = Some action"
          "log = (case entry of Remark _ \<Rightarrow> False | Rule _ _ _ _ _ _ l \<Rightarrow> l)"
        and before: "\<forall>t f. t < sequence \<longrightarrow> bt_get (x # entries) t = Some f \<longrightarrow> AclEntry_evaluate f packet = None"
        by blast
      have "\<not> s < sequence" using before s Some by auto
      moreover have "\<not> sequence < s" using first [of sequence] entry(1) by auto
      ultimately have "sequence = s" by simp
      then show "find_rule packet (x # entries) = Some (sequence, action, log)" using entry s Some fr by simp
    qed
  qed
qed (simp add: bt_get_def)

lemma find_rule_None:
  "find_rule packet entries = None \<longleftrightarrow> (\<forall>(s, e)\<in>set entries. AclEntry_evaluate e packet = None)"
  by (induction packet entries rule: find_rule.induct) (auto split: option.splits)

lemma matches_promoted:
  "AclEntry_evaluate (promoted_rule e) packet =
     (if StandardAccessListEntry_matches e (ip_source packet) then Some (sa_action e) else None)"
proof -
  have "(s XOR a) AND NOT w = 0 \<longleftrightarrow> s AND NOT w = a AND NOT w" for s a w :: u32
    by (auto simp: bit_eq_iff bit_simps)
  then show ?thesis
    by (simp add: promoted_rule_def AddressMatch_matches_def AddressMatch_ANY_def StandardAccessListEntry_matches_def Let_def)
qed

section \<open>Promotion of a numbered list\<close>

lemma bt_insert_last: "\<forall>k'\<in>set (map fst m). k' < k \<Longrightarrow> bt_insert k v m = m @ [(k, v)]"
  by (induction k v m rule: bt_insert.induct) auto

lemma bt_collect_sorted: "sorted_wrt (<) (map fst kvs) \<Longrightarrow> bt_collect kvs = kvs"
proof (induction kvs rule: rev_induct)
  case (snoc x kvs)
  then show ?case by (cases x) (simp add: bt_collect_def sorted_wrt_append bt_insert_last)
qed (simp add: bt_collect_def)

lemma promoted_key: "i \<le> 4096 \<Longrightarrow> unat ((of_nat i + 1) * 10 :: u32) = (i + 1) * 10"
proof -
  assume "i \<le> 4096"
  moreover have "((of_nat i + 1) * 10 :: u32) = of_nat ((i + 1) * 10)" by (simp add: algebra_simps)
  ultimately show ?thesis by (simp only: unat_of_nat) simp
qed

lemma promoted_entries_eq:
  assumes "length old \<le> 4096"
  shows "promoted_entries old = map (\<lambda>(index, e). ((of_nat index + 1) * 10, promoted_rule e)) (enumerate 0 old)"
proof -
  have "sorted_wrt (<) (map (\<lambda>i. (of_nat i + 1) * 10 :: u32) [0..<length old])"
  proof -
    have "((of_nat x + 1) * 10 :: u32) < (of_nat y + 1) * 10" if "x < y" "y < length old" for x y
      using that assms by (simp only: word_less_nat_alt promoted_key) simp
    then show ?thesis unfolding sorted_wrt_map by (intro sorted_wrt_mono_rel [OF _ sorted_wrt_upt]) auto
  qed
  moreover have "map fst (map (\<lambda>(index, e). ((of_nat index + 1) * 10 :: u32, promoted_rule e)) (enumerate 0 old)) =
      map (\<lambda>i. (of_nat i + 1) * 10) [0..<length old]"
    by (rule nth_equalityI) (simp_all add: nth_enumerate_eq)
  ultimately show ?thesis unfolding promoted_entries_def by (intro bt_collect_sorted) simp
qed

lemma promoted_log: "(case promoted_rule e of Remark _ \<Rightarrow> False | Rule _ _ _ _ _ _ l \<Rightarrow> l) = False"
  by (simp add: promoted_rule_def)

lemma find_rule_map:
  "find_rule packet (map (\<lambda>(index, e). (f index, promoted_rule e)) l) =
     map_option (\<lambda>(index, e). (f index, sa_action e, False))
       (find (\<lambda>(index, e). StandardAccessListEntry_matches e (ip_source packet)) l)"
  by (induction l) (auto simp: matches_promoted promoted_log)

lemma find_rule_promoted:
  "length old \<le> 4096 \<Longrightarrow> find_rule packet (promoted_entries old) =
     map_option (\<lambda>(index, e). ((of_nat index + 1) * 10, sa_action e, False)) (find_entry (ip_source packet) old)"
  unfolding promoted_entries_eq find_entry_def by (rule find_rule_map [where f = "\<lambda>index. (of_nat index + 1) * 10"])

section \<open>The invariant of the configuration\<close>

definition acl_list_ok :: "AccessList \<Rightarrow> bool" where
  "acl_list_ok list =
     (bt_wf (al_entries list) \<and> length (al_entries list) \<le> 4096 \<and> acl_name_valid (al_name list) (al_kind list) \<and>
      (\<forall>(sequence, entry)\<in>set (al_entries list). sequence \<noteq> 0 \<and> sequence \<noteq> - 1 \<and> acl_entry_valid (al_kind list) entry))"

definition group_ok :: "Device \<Rightarrow> InterfaceConfig \<Rightarrow> bool" where
  "group_ok d c =
     (\<forall>direction. (\<forall>key. direction_named direction c = Some key \<longrightarrow> bt_get (named_lists d) key \<noteq> None) \<and>
        (\<forall>number. direction_numbered direction c = Some number \<longrightarrow> AccessListId_new number = Some number))"

definition acl_ok :: "Device \<Rightarrow> bool" where
  "acl_ok d =
     (bt_wf (named_lists d) \<and> (\<forall>(key, list)\<in>set (named_lists d). acl_list_ok list) \<and>
      distinct (map (\<lambda>(key, list). al_name list) (named_lists d)) \<and> length (named_lists d) \<le> 4096 \<and>
      bt_wf (numbered_lists d) \<and>
      (\<forall>(number, entries)\<in>set (numbered_lists d). AccessListId_new number = Some number \<and> length entries \<le> 4096) \<and>
      bt_wf (if_configs d) \<and> (\<forall>(port, c)\<in>set (if_configs d). group_ok d c))"

lemma set_bt_insert: "bt_wf m \<Longrightarrow> set (bt_insert k v m) = insert (k, v) (set m - {x. fst x = k})"
proof (induction k v m rule: bt_insert.induct)
  case (2 k v k' v' m)
  have "bt_wf m" "\<forall>x\<in>set m. k' < fst x" using "2.prems" by (auto simp: bt_wf_def)
  then show ?case using "2.IH" by (auto simp: order.asym)
qed simp

lemma acl_id_None: "acl_id d name = None \<longleftrightarrow> name \<notin> al_name ` snd ` set (named_lists d)"
  by (force simp: acl_id_def find_None_iff image_iff)

lemma acl_id_Some:
  assumes "acl_ok d"
  shows "acl_id d name = Some key \<longleftrightarrow> (\<exists>list. bt_get (named_lists d) key = Some list \<and> al_name list = name)"
proof
  assume "acl_id d name = Some key"
  then obtain list where "find (\<lambda>(key, list). al_name list = name) (named_lists d) = Some (key, list)"
    by (auto simp: acl_id_def)
  then have "(key, list) \<in> set (named_lists d)" "al_name list = name"
    by (auto simp: find_Some_iff in_set_conv_nth)
  then show "\<exists>list. bt_get (named_lists d) key = Some list \<and> al_name list = name"
    using assms bt.entries_get [of "named_lists d" key list] by (auto simp: acl_ok_def)
next
  assume "\<exists>list. bt_get (named_lists d) key = Some list \<and> al_name list = name"
  then obtain list where l: "(key, list) \<in> set (named_lists d)" "al_name list = name"
    by (auto simp: bt_get_def dest: map_of_SomeD)
  then obtain k' list' where f: "find (\<lambda>(key, list). al_name list = name) (named_lists d) = Some (k', list')"
    by (cases "find (\<lambda>(key, list). al_name list = name) (named_lists d)") (auto simp: find_None_iff)
  then have "(k', list') \<in> set (named_lists d)" "al_name list' = name"
    by (auto simp: find_Some_iff in_set_conv_nth)
  then have "(k', list') = (key, list)"
    using l assms by (auto simp: acl_ok_def distinct_map inj_on_def)
  then show "acl_id d name = Some key" using f by (simp add: acl_id_def)
qed

lemma digits_name:
  assumes "list_all acl_name_char name" "parse_uint largest name = Some n"
  shows "list_all is_digit name" "decimal_value 0 name = n" "n \<le> largest"
proof -
  have "\<not> (name \<noteq> [] \<and> hd name = CHR ''+'')"
    using assms(1) by (cases name) (auto simp: acl_name_char_def is_digit_def Let_def)
  then show "list_all is_digit name" "decimal_value 0 name = n" "n \<le> largest"
    using assms(2) by (auto simp: parse_uint_def Let_def split: if_splits)
qed

lemma numeric_name:
  assumes "acl_name_valid name kind" "parse_uint 255 name = Some n"
  shows "name = decimal n" "acl_number_valid kind n"
proof -
  have chars: "list_all acl_name_char name" using assms(1) by (simp add: acl_name_valid_def)
  from digits_name [OF chars assms(2)] assms(1)
  obtain m where m: "parse_uint 65535 name = Some m" "acl_number_valid kind m" "name = decimal m"
    by (auto simp: acl_name_valid_def split: option.splits)
  then have "m = n" using digits_name(2) [OF chars assms(2)] digits_name(2) [OF chars m(1)] by simp
  then show "name = decimal n" "acl_number_valid kind n" using m by simp_all
qed

lemma number_parse: "parse_uint 255 (number_name number) = Some (unat number)"
  using unat_bound [of number] by (intro parse_decimal) simp

lemma fresh_key:
  assumes "bt_wf (named_lists d)"
    "(if named_lists d = [] then Inr 1 else ok_or AccessListCapacity (checked_add (fst (last (named_lists d))) 1)) = Inr key"
  shows "\<forall>k\<in>set (map fst (named_lists d)). k < key"
proof (cases "named_lists d" rule: rev_cases)
  case (snoc m x)
  have "unat (fst x) + 1 < 2 ^ 32" "key = fst x + 1"
    using assms(2) by (auto simp: snoc ok_or_def checked_add_def split: if_splits)
  then have "fst x < key" by (simp add: word_less_nat_alt unat_word_ariths)
  then show ?thesis using assms(1) by (auto simp: snoc bt_wf_def sorted_wrt_append dest: order.strict_trans)
qed simp

lemma bt_get_above: "bt_wf m \<Longrightarrow> \<forall>k\<in>set (map fst m). k < key \<Longrightarrow> bt_get m key = None"
  by (auto simp: bt_get_def map_of_eq_None_iff)

text \<open>The branch of \<open>ensure_acl\<close> that creates a list.\<close>

lemma ensure_acl_cases:
  assumes "acl_ok d" "ensure_acl name kind d = Inr (key, d')"
  obtains (existing) list where "d' = d" "bt_get (named_lists d) key = Some list" "al_name list = name" "al_kind list = kind"
  | (created) entries where "acl_id d name = None" "acl_name_valid name kind" "length (named_lists d) < 4096"
      "\<forall>k\<in>set (map fst (named_lists d)). k < key"
      "named_lists d' = named_lists d @ [(key, \<lparr>al_name = name, al_kind = kind, al_entries = entries\<rparr>)]"
      "if_configs d' = if_configs d"
      "promotable d name kind = None \<and> entries = [] \<and> numbered_lists d' = numbered_lists d \<or>
       (\<exists>old_id old. promotable d name kind = Some (old_id, old) \<and> entries = promoted_entries old \<and>
          numbered_lists d' = bt_remove old_id (numbered_lists d))"
proof (cases "acl_id d name")
  case None
  obtain key' where fresh: "(if named_lists d = [] then Inr 1
      else ok_or AccessListCapacity (checked_add (fst (last (named_lists d))) 1)) = Inr key'"
    and rest: "acl_name_valid name kind" "length (named_lists d) < 4096"
    and out: "(case promotable d name kind of
        None \<Rightarrow> Inr (key', set_named_lists (bt_insert key' \<lparr>al_name = name, al_kind = kind, al_entries = []\<rparr> (named_lists d)) d)
      | Some (old_id, old) \<Rightarrow>
          Inr (key', set_named_lists (bt_insert key' \<lparr>al_name = name, al_kind = kind, al_entries = promoted_entries old\<rparr> (named_lists d))
                       (set_numbered_lists (bt_remove old_id (numbered_lists d)) d))) = (Inr (key, d') :: DeviceError + AclId \<times> Device)"
    using assms(2) None unfolding ensure_acl_def and_then_Inr_iff by (auto simp: and_then_Inr_iff not_le split: if_splits)
  have above: "\<forall>k\<in>set (map fst (named_lists d)). k < key'" using fresh_key [OF _ fresh] assms(1) by (simp add: acl_ok_def)
  have k: "key' = key" using out by (auto split: option.splits)
  show thesis
  proof (cases "promotable d name kind")
    case None': None
    then show thesis
      using out above k None rest bt_insert_last [OF above]
      by (intro created [of "[]"]) (auto simp: set_named_lists_def)
  next
    case (Some p)
    obtain old_id old where p: "p = (old_id, old)" by (cases p)
    show thesis
      using out above k None rest bt_insert_last [OF above] Some p
      by (intro created [of "promoted_entries old"]) (auto simp: set_named_lists_def set_numbered_lists_def)
  qed
next
  case (Some k)
  then obtain list where l: "bt_get (named_lists d) k = Some list" "al_name list = name"
    using acl_id_Some [OF assms(1), of name k] by blast
  then have "key = k" "d' = d" "al_kind list = kind" using assms(2) Some by (simp_all add: ensure_acl_def split: if_splits)
  then show thesis using existing [of list] l by simp
qed

section \<open>Promotion keeps every verdict\<close>

definition rule_verdict :: "(u32 \<times> AccessListAction \<times> bool) option \<Rightarrow> bool" where
  "rule_verdict r = (case r of None \<Rightarrow> False | Some (_, action, _) \<Rightarrow> action = Permit)"

lemma evaluate_verdict:
  "fst (evaluate_named_acl key packet d) =
     (case bt_get (named_lists d) key of None \<Rightarrow> False | Some list \<Rightarrow> rule_verdict (find_rule packet (al_entries list)))"
  by (simp add: evaluate_named_acl_def rule_verdict_def Let_def split: option.split prod.split)

definition numbered_verdict :: "AccessListId \<Rightarrow> Ipv4Packet \<Rightarrow> Device \<Rightarrow> bool" where
  "numbered_verdict number packet d =
     (case acl_id d (number_name number) of
        Some named \<Rightarrow> fst (evaluate_named_acl named packet d)
      | None \<Rightarrow>
          (case bt_get (numbered_lists d) number of
             None \<Rightarrow> False
           | Some entries \<Rightarrow> (case find_entry (ip_source packet) entries of None \<Rightarrow> False | Some (_, e) \<Rightarrow> sa_action e = Permit)))"

lemma permits_verdict:
  "fst (permits_ipv4 port direction packet d) =
     (case if_config d port of
        None \<Rightarrow> False
      | Some c \<Rightarrow>
          (case direction_named direction c of
             Some key \<Rightarrow> fst (evaluate_named_acl key packet d)
           | None \<Rightarrow> (case direction_numbered direction c of None \<Rightarrow> True | Some number \<Rightarrow> numbered_verdict number packet d)))"
  by (simp add: permits_ipv4_def numbered_verdict_def split: option.split prod.split)

lemma bt_get_append_new: "bt_get (m @ [(k, v)]) k' = (case bt_get m k' of None \<Rightarrow> (if k' = k then Some v else None) | Some x \<Rightarrow> Some x)"
  by (simp add: bt_get_def map_of_append map_add_def split: option.split)

lemma find_append: "find P (xs @ ys) = (case find P xs of None \<Rightarrow> find P ys | Some x \<Rightarrow> Some x)"
  by (induction xs) simp_all

lemma numbered_verdict_created:
  assumes ok: "acl_ok d" and number: "AccessListId_new number = Some number"
    and none: "acl_id d name = None" and valid: "acl_name_valid name kind"
    and above: "\<forall>k\<in>set (map fst (named_lists d)). k < key"
    and named: "named_lists d' = named_lists d @ [(key, \<lparr>al_name = name, al_kind = kind, al_entries = entries\<rparr>)]"
    and promoted: "promotable d name kind = None \<and> entries = [] \<and> numbered_lists d' = numbered_lists d \<or>
       (\<exists>old_id old. promotable d name kind = Some (old_id, old) \<and> entries = promoted_entries old \<and>
          numbered_lists d' = bt_remove old_id (numbered_lists d))"
  shows "numbered_verdict number packet d' = numbered_verdict number packet d"
proof -
  have id': "acl_id d' n = (case acl_id d n of None \<Rightarrow> (if n = name then Some key else None) | Some k \<Rightarrow> Some k)" for n
    by (auto simp: acl_id_def named find_append split: option.split)
  have fresh: "bt_get (named_lists d) key = None" using above by (auto simp: bt_get_def map_of_eq_None_iff)
  have eval_old: "fst (evaluate_named_acl k packet d') = fst (evaluate_named_acl k packet d)"
    if "acl_id d n = Some k" for n k
    using that acl_id_Some [OF ok, of n k] by (auto simp: evaluate_verdict named bt_get_append_new)
  have eval_new: "fst (evaluate_named_acl key packet d') = rule_verdict (find_rule packet entries)"
    using fresh by (simp add: evaluate_verdict named bt_get_append_new)
  show ?thesis
  proof (cases "number_name number = name")
    case True
    have std: "kind = Standard"
      using numeric_name(2) [OF valid, of "unat number"] number_parse [of number] number
      by (cases kind) (auto simp: True acl_number_valid_def AccessListId_new_def word_le_nat_alt split: if_splits)
    have p: "promotable d name kind = map_option (\<lambda>old. (number, old)) (bt_get (numbered_lists d) number)"
      using number_parse [of number] number by (simp add: promotable_def std flip: True)
    show ?thesis
    proof (cases "bt_get (numbered_lists d) number")
      case None
      then have "entries = []" using p promoted by simp
      then show ?thesis
        using None none True by (simp add: numbered_verdict_def id' eval_new rule_verdict_def)
    next
      case (Some old)
      then have "length old \<le> 4096" using ok by (auto simp: acl_ok_def bt_get_def dest!: map_of_SomeD)
      moreover have "entries = promoted_entries old" using p promoted Some by simp
      ultimately show ?thesis
        using Some none True find_rule_promoted [of old packet]
        by (auto simp: numbered_verdict_def id' eval_new rule_verdict_def split: option.split)
    qed
  next
    case False
    have "bt_get (numbered_lists d') number = bt_get (numbered_lists d) number"
      using promoted
    proof (elim disjE exE conjE)
      fix old_id old
      assume p: "promotable d name kind = Some (old_id, old)" and n: "numbered_lists d' = bt_remove old_id (numbered_lists d)"
      from p obtain m where m: "parse_uint 255 name = Some m" "AccessListId_new (of_nat m) = Some old_id"
        by (auto simp: promotable_def split: if_splits option.splits)
      then have "m \<le> 255" using digits_name(3) valid by (auto simp: acl_name_valid_def)
      then have "unat old_id = m" using m(2) by (auto simp: AccessListId_new_def unat_of_nat split: if_splits)
      then have "name = number_name old_id" using numeric_name(1) [OF valid m(1)] by simp
      then have "old_id \<noteq> number" using False by auto
      then show ?thesis by (simp add: n bt_get_remove)
    qed simp
    then show ?thesis using False eval_old by (auto simp: numbered_verdict_def id' split: option.split)
  qed
qed

section \<open>The invariant is kept by every operation\<close>

lemma bt_insert_existing:
  "bt_wf m \<Longrightarrow> bt_get m k = Some v \<Longrightarrow> f v' = f v \<Longrightarrow> map (\<lambda>(k, v). f v) (bt_insert k v' m) = map (\<lambda>(k, v). f v) m"
proof (induction k v' m rule: bt_insert.induct)
  case (2 k v' k1 v1 m)
  have wf: "bt_wf m" and above: "\<forall>x\<in>set m. k1 < fst x" using "2.prems"(1) by (auto simp: bt_wf_def)
  have "bt_get m k = Some v \<Longrightarrow> k1 < k" using above by (auto simp: bt_get_def dest!: map_of_SomeD)
  then show ?case using "2.prems" "2.IH" wf by (auto simp: bt_get_def split: if_splits dest: order.asym)
qed (simp add: bt_get_def)

lemma acl_ok_list: "acl_ok d \<Longrightarrow> bt_get (named_lists d) key = Some list \<Longrightarrow> acl_list_ok list"
  by (auto simp: acl_ok_def bt_get_def dest!: map_of_SomeD)

lemma group_ok_mono:
  "group_ok d c \<Longrightarrow> (\<And>key. bt_get (named_lists d) key \<noteq> None \<Longrightarrow> bt_get (named_lists d') key \<noteq> None) \<Longrightarrow> group_ok d' c"
  by (auto simp: group_ok_def)

lemma acl_ok_replace:
  assumes ok: "acl_ok d" and get: "bt_get (named_lists d) key = Some list" and new: "acl_list_ok list'"
    and name: "al_name list' = al_name list"
    and d': "named_lists d' = bt_insert key list' (named_lists d)" "numbered_lists d' = numbered_lists d" "if_configs d' = if_configs d"
  shows "acl_ok d'"
proof -
  have wf: "bt_wf (named_lists d)" using ok by (simp add: acl_ok_def)
  have "map (\<lambda>(key, list). al_name list) (bt_insert key list' (named_lists d)) = map (\<lambda>(key, list). al_name list) (named_lists d)"
    by (rule bt_insert_existing [OF wf get name])
  moreover have "length (bt_insert key list' (named_lists d)) = length (named_lists d)"
    using length_bt_insert [OF wf] get by simp
  moreover have "group_ok d' c" if "group_ok d c" for c
    by (rule group_ok_mono [OF that]) (auto simp: d'(1) bt_get_insert)
  ultimately show ?thesis
    using ok new wf by (auto simp: acl_ok_def d' wf_bt_insert set_bt_insert)
qed

lemma acl_ok_cong:
  assumes "acl_ok d" "dv_running_config d' = dv_running_config d"
  shows "acl_ok d'"
  using assms by (simp add: acl_ok_def group_ok_def)

lemma set_acl_entry_ok:
  assumes ok: "acl_ok d" and "set_acl_entry key sequence entry d = Inr d'"
  shows "acl_ok d'"
proof -
  obtain list s where l: "bt_get (named_lists d) key = Some list" and s: "s \<noteq> 0" "s \<noteq> - 1"
    and cap: "length (al_entries list) < 4096 \<or> bt_get (al_entries list) s \<noteq> None" and v: "acl_entry_valid (al_kind list) entry"
    and d': "d' = forget_matches key s (set_named_lists
        (bt_insert key (list\<lparr>al_entries := bt_insert s entry (al_entries list)\<rparr>) (named_lists d)) d)"
    using assms(2) by (auto simp: set_acl_entry_def Let_def not_le split: option.splits if_splits)
  have list: "acl_list_ok list" using acl_ok_list [OF ok l] .
  then have "acl_list_ok (list\<lparr>al_entries := bt_insert s entry (al_entries list)\<rparr>)"
    using s v cap by (auto simp: acl_list_ok_def wf_bt_insert set_bt_insert length_bt_insert)
  then show ?thesis
    by (rule acl_ok_replace [OF ok l]) (simp_all add: d' forget_matches_def set_named_lists_def)
qed

lemma remove_acl_entry_ok:
  assumes ok: "acl_ok d" and "remove_acl_entry key sequence d = Inr d'"
  shows "acl_ok d'"
proof -
  obtain list where l: "bt_get (named_lists d) key = Some list"
    and d': "d' = forget_matches key sequence (set_named_lists
        (bt_insert key (list\<lparr>al_entries := bt_remove sequence (al_entries list)\<rparr>) (named_lists d)) d)"
    using assms(2) by (auto simp: remove_acl_entry_def split: option.splits)
  have "acl_list_ok (list\<lparr>al_entries := bt_remove sequence (al_entries list)\<rparr>)"
    using acl_ok_list [OF ok l] le_trans [OF length_bt_remove [of sequence "al_entries list"]]
    by (auto simp: acl_list_ok_def bt_remove_def wf_filter)
  then show ?thesis
    by (rule acl_ok_replace [OF ok l]) (simp_all add: d' forget_matches_def set_named_lists_def)
qed

lemma promoted_valid: "acl_entry_valid kind (promoted_rule e)"
  by (simp add: promoted_rule_def)

lemma promoted_list_ok:
  assumes "length old \<le> 4096" "acl_name_valid name kind"
  shows "acl_list_ok \<lparr>al_name = name, al_kind = kind, al_entries = promoted_entries old\<rparr>"
proof -
  have "(of_nat i + 1) * 10 \<noteq> (0 :: u32)" "(of_nat i + 1) * 10 \<noteq> (- 1 :: u32)" if "i < length old" for i
  proof -
    define w :: u32 where "w = (of_nat i + 1) * 10"
    have k: "unat w = (i + 1) * 10" unfolding w_def using that assms(1) by (intro promoted_key) simp
    have m: "unat (- 1 :: u32) = 4294967295" by (simp add: unsigned_minus_1_eq_mask mask_eq_exp_minus_1)
    have "w \<noteq> 0" using k by auto
    moreover have "w \<noteq> - 1" using k m that assms(1) by auto
    ultimately show "(of_nat i + 1) * 10 \<noteq> (0 :: u32)" "(of_nat i + 1) * 10 \<noteq> (- 1 :: u32)" unfolding w_def by blast+
  qed
  then have "\<forall>(sequence, entry)\<in>set (promoted_entries old). sequence \<noteq> 0 \<and> sequence \<noteq> - 1 \<and> acl_entry_valid kind entry"
    by (auto simp only: promoted_entries_eq [OF assms(1)] set_map in_set_enumerate_eq promoted_valid) auto
  moreover have "bt_wf (promoted_entries old)" by (simp add: promoted_entries_def bt_wf_collect)
  moreover have "length (promoted_entries old) = length old" by (simp add: promoted_entries_eq [OF assms(1)])
  ultimately show ?thesis using assms by (simp add: acl_list_ok_def)
qed

lemma ensure_acl_ok:
  assumes ok: "acl_ok d" and "ensure_acl name kind d = Inr (key, d')"
  shows "acl_ok d'"
  using assms
proof (cases rule: ensure_acl_cases)
  case (created entries)
  let ?list = "\<lparr>al_name = name, al_kind = kind, al_entries = entries\<rparr>"
  have old: "length old \<le> 4096" if "promotable d name kind = Some (old_id, old)" for old_id old
  proof -
    have "bt_get (numbered_lists d) old_id = Some old" using that by (auto simp: promotable_def split: if_splits option.splits)
    then show ?thesis using ok by (auto simp: acl_ok_def bt_get_def dest!: map_of_SomeD)
  qed
  have "acl_list_ok ?list"
    using created(7)
  proof (elim disjE exE conjE)
    assume "entries = []"
    then show ?thesis using created(2) by (simp add: acl_list_ok_def)
  next
    fix old_id old
    assume "promotable d name kind = Some (old_id, old)" "entries = promoted_entries old"
    then show ?thesis using promoted_list_ok [OF old created(2)] by simp
  qed
  moreover have "bt_wf (named_lists d')"
    using ok created(4) by (auto simp: created(5) acl_ok_def bt_wf_def sorted_wrt_append)
  moreover have "distinct (map (\<lambda>(key, list). al_name list) (named_lists d'))"
  proof -
    have "name \<notin> set (map (\<lambda>(key, list). al_name list) (named_lists d))" using created(1) by (auto simp: acl_id_None image_iff)
    moreover have "distinct (map (\<lambda>(key, list). al_name list) (named_lists d))" using ok by (simp add: acl_ok_def)
    ultimately show ?thesis by (simp add: created(5))
  qed
  moreover have "bt_wf (numbered_lists d') \<and> set (numbered_lists d') \<subseteq> set (numbered_lists d)"
    using ok created(7) by (auto simp: acl_ok_def bt_remove_def wf_filter)
  moreover have "group_ok d' c" if "group_ok d c" for c
    by (rule group_ok_mono [OF that]) (auto simp: created(5) bt_get_append_new)
  ultimately show ?thesis
    using ok created(3) by (auto simp: acl_ok_def created(5, 6))
qed (use ok in simp)

lemma with_config_ok:
  assumes ok: "acl_ok d" and "with_config port change d = Inr d'"
    and change: "\<And>c. group_ok d c \<Longrightarrow> group_ok d (change c)"
  shows "acl_ok d'"
proof -
  obtain c where c: "if_config d port = Some c"
    and d': "d' = d\<lparr>dv_running_config := (dv_running_config d)\<lparr>rc_interfaces := bt_insert port (change c) (if_configs d)\<rparr>\<rparr>"
    using assms(2) by (auto simp: with_config_def split: option.splits)
  have "group_ok d c" using ok if_config_in [OF c] by (auto simp: acl_ok_def)
  then have "group_ok d (change c)" by (rule change)
  moreover have "group_ok d' x" if "group_ok d x" for x using that by (simp add: group_ok_def d')
  ultimately show ?thesis using ok by (auto simp: acl_ok_def d' wf_bt_insert set_bt_insert)
qed

lemma direction_simps:
  "direction_named e (apply_named_group dir key c) = (if e = dir then Some key else direction_named e c)"
  "direction_numbered e (apply_named_group dir key c) = (if e = dir then None else direction_numbered e c)"
  "direction_named e (apply_numbered_group dir n c) = (if e = dir then None else direction_named e c)"
  "direction_numbered e (apply_numbered_group dir n c) = (if e = dir then Some n else direction_numbered e c)"
  by (cases e; cases dir; simp)+

lemma set_named_access_group_ok:
  assumes "acl_ok d" "set_named_access_group port name direction d = Inr d'"
  shows "acl_ok d'"
proof -
  obtain key where k: "acl_id d name = Some key" "with_config port (apply_named_group direction key) d = Inr d'"
    using assms(2) by (auto simp: set_named_access_group_def split: option.splits)
  then show ?thesis
    using acl_id_Some [OF assms(1)] by (intro with_config_ok [OF assms(1) k(2)]) (auto simp: group_ok_def direction_simps)
qed

lemma set_access_group_ok:
  assumes "acl_ok d" "AccessListId_new number = Some number" "set_access_group port number direction d = Inr d'"
  shows "acl_ok d'"
proof -
  consider "set_named_access_group port (number_name number) direction d = Inr d'"
    | "with_config port (apply_numbered_group direction number) d = Inr d'"
    using assms(3) by (auto simp: set_access_group_def split: if_splits)
  then show ?thesis
  proof cases
    case 1
    then show ?thesis by (rule set_named_access_group_ok [OF assms(1)])
  next
    case 2
    then show ?thesis using assms(2) by (intro with_config_ok [OF assms(1) 2]) (auto simp: group_ok_def direction_simps)
  qed
qed

lemma add_access_list_entry_ok:
  assumes ok: "acl_ok d" and number: "AccessListId_new number = Some number" and "add_access_list_entry number entry d = Inr d'"
  shows "acl_ok d'"
proof (cases "acl_id d (number_name number)")
  case (Some named)
  then show ?thesis using assms set_acl_entry_ok by (auto simp: add_access_list_entry_def split: if_splits)
next
  case None
  define entries where "entries = (case bt_get (numbered_lists d) number of None \<Rightarrow> [] | Some l \<Rightarrow> l)"
  have d': "d' = set_numbered_lists (bt_insert number (entries @ [entry]) (numbered_lists d)) d" and "length entries < 4096"
    using assms(3) None by (auto simp: add_access_list_entry_def entries_def Let_def split: if_splits)
  moreover have "group_ok d' c" if "group_ok d c" for c using that by (simp add: group_ok_def d' set_numbered_lists_def)
  ultimately show ?thesis
    using ok number by (auto simp: acl_ok_def set_numbered_lists_def wf_bt_insert set_bt_insert)
qed

lemma permits_config: "dv_running_config (snd (permits_ipv4 port direction packet d)) = dv_running_config d"
proof -
  have "dv_running_config (snd (evaluate_named_acl key packet d)) = dv_running_config d" for key
    by (simp add: evaluate_named_acl_def count_match_def log_match_def Let_def split: option.split prod.split)
  then show ?thesis by (simp add: permits_ipv4_def split: option.split prod.split)
qed

lemma log_bounded:
  assumes "length (dv_acl_log_records d) \<le> 256"
  shows "length (dv_acl_log_records (snd (permits_ipv4 port direction packet d))) \<le> 256"
proof -
  have "length (dv_acl_log_records (snd (evaluate_named_acl key packet d))) \<le> 256" for key
    using assms by (auto simp: evaluate_named_acl_def count_match_def log_match_def Let_def split: option.split prod.split)
  then show ?thesis using assms by (simp add: permits_ipv4_def split: option.split prod.split)
qed

inductive acl_step :: "Device \<Rightarrow> Device \<Rightarrow> bool" where
  ensure: "ensure_acl name kind d = Inr (key, d') \<Longrightarrow> acl_step d d'"
| set_entry: "set_acl_entry key sequence entry d = Inr d' \<Longrightarrow> acl_step d d'"
| remove_entry: "remove_acl_entry key sequence d = Inr d' \<Longrightarrow> acl_step d d'"
| named_group: "set_named_access_group port name direction d = Inr d' \<Longrightarrow> acl_step d d'"
| add_entry: "AccessListId_new number = Some number \<Longrightarrow> add_access_list_entry number rule d = Inr d' \<Longrightarrow> acl_step d d'"
| numbered_group: "AccessListId_new number = Some number \<Longrightarrow> set_access_group port number direction d = Inr d' \<Longrightarrow> acl_step d d'"
| packet: "acl_step d (snd (permits_ipv4 port direction packet d))"
| logs: "acl_step d (snd (take_acl_logs d))"

definition acl_inv :: "Device \<Rightarrow> bool" where
  "acl_inv d = (acl_ok d \<and> length (dv_acl_log_records d) \<le> 256)"

definition acl_init :: "Device \<Rightarrow> bool" where
  "acl_init d =
     (named_lists d = [] \<and> numbered_lists d = [] \<and> dv_acl_log_records d = [] \<and> bt_wf (if_configs d) \<and>
      list_all (\<lambda>(port, c). if_named_access_group_in c = None \<and> if_named_access_group_out c = None \<and>
         if_access_group_in c = None \<and> if_access_group_out c = None) (if_configs d))"

lemma acl_init_inv: "acl_init d \<Longrightarrow> acl_inv d"
proof -
  assume init: "acl_init d"
  have "group_ok d c" if "(port, c) \<in> set (if_configs d)" for port c
    unfolding group_ok_def
  proof
    fix direction
    show "(\<forall>key. direction_named direction c = Some key \<longrightarrow> bt_get (named_lists d) key \<noteq> None) \<and>
      (\<forall>number. direction_numbered direction c = Some number \<longrightarrow> AccessListId_new number = Some number)"
      using init that by (cases direction) (auto simp: acl_init_def list_all_iff)
  qed
  then show ?thesis using init by (auto simp: acl_inv_def acl_ok_def acl_init_def)
qed

lemma config_records:
  "with_config port change d = Inr d' \<Longrightarrow> dv_acl_log_records d' = dv_acl_log_records d"
  "set_acl_entry key sequence entry d = Inr d' \<Longrightarrow> dv_acl_log_records d' = dv_acl_log_records d"
  "remove_acl_entry key s d = Inr d' \<Longrightarrow> dv_acl_log_records d' = dv_acl_log_records d"
  by (auto simp: with_config_def set_acl_entry_def remove_acl_entry_def forget_matches_def set_named_lists_def Let_def
    split: option.splits if_splits)

lemma ensure_records: "ensure_acl name kind d = Inr (key, d') \<Longrightarrow> dv_acl_log_records d' = dv_acl_log_records d"
  by (auto simp: ensure_acl_def and_then_Inr_iff set_named_lists_def set_numbered_lists_def split: option.splits if_splits)

lemma group_records:
  "set_named_access_group port name direction d = Inr d' \<Longrightarrow> dv_acl_log_records d' = dv_acl_log_records d"
  "set_access_group port number direction d = Inr d' \<Longrightarrow> dv_acl_log_records d' = dv_acl_log_records d"
  "add_access_list_entry number rule d = Inr d' \<Longrightarrow> dv_acl_log_records d' = dv_acl_log_records d"
  by (auto simp: set_named_access_group_def set_access_group_def add_access_list_entry_def set_numbered_lists_def Let_def
    config_records split: option.splits if_splits)

lemma acl_step_inv: "acl_inv d \<Longrightarrow> acl_step d d' \<Longrightarrow> acl_inv d'"
proof -
  assume inv: "acl_inv d" and step: "acl_step d d'"
  have ok: "acl_ok d" using inv by (simp add: acl_inv_def)
  from step have "acl_ok d'"
  proof cases
    case (packet port direction packet)
    then show ?thesis using ok by (auto intro: acl_ok_cong simp: permits_config)
  next
    case logs
    then show ?thesis using ok by (auto intro: acl_ok_cong simp: take_acl_logs_def)
  next
    case ensure
    then show ?thesis by (rule ensure_acl_ok [OF ok])
  next
    case set_entry
    then show ?thesis by (rule set_acl_entry_ok [OF ok])
  next
    case remove_entry
    then show ?thesis by (rule remove_acl_entry_ok [OF ok])
  next
    case named_group
    then show ?thesis by (rule set_named_access_group_ok [OF ok])
  next
    case add_entry
    then show ?thesis by (rule add_access_list_entry_ok [OF ok])
  next
    case numbered_group
    then show ?thesis by (rule set_access_group_ok [OF ok])
  qed
  moreover from step have "length (dv_acl_log_records d') \<le> 256"
    using inv by cases (simp_all add: acl_inv_def ensure_records config_records group_records log_bounded take_acl_logs_def)
  ultimately show ?thesis by (simp add: acl_inv_def)
qed

interpretation acl_machine: invariant_system acl_init acl_step acl_inv
  by unfold_locales (auto intro: acl_init_inv acl_step_inv)

section \<open>Properties\<close>

text \<open>
  C7. Access lists are first-match with an implicit deny: in every configuration the operations can
  reach, a named list permits a packet exactly when it holds a permitting rule that matches the packet
  and no rule with a smaller sequence number matches it.
\<close>
theorem acl_first_match:
  assumes "acl_init d0" "acl_step\<^sup>*\<^sup>* d0 d"
  shows "fst (evaluate_named_acl key packet d) \<longleftrightarrow>
    (\<exists>list sequence entry. bt_get (named_lists d) key = Some list \<and> bt_get (al_entries list) sequence = Some entry \<and>
       AclEntry_evaluate entry packet = Some Permit \<and>
       (\<forall>s e. s < sequence \<longrightarrow> bt_get (al_entries list) s = Some e \<longrightarrow> AclEntry_evaluate e packet = None))"
proof -
  have ok: "acl_ok d" using acl_machine.reachable_inv [OF assms] by (simp add: acl_inv_def)
  have wf: "bt_wf (al_entries list)" if "bt_get (named_lists d) key = Some list" for list
    using acl_ok_list [OF ok that] by (simp add: acl_list_ok_def)
  show ?thesis
  proof (cases "bt_get (named_lists d) key")
    case (Some list)
    have "rule_verdict (find_rule packet (al_entries list)) \<longleftrightarrow> (\<exists>s l. find_rule packet (al_entries list) = Some (s, Permit, l))"
      by (auto simp: rule_verdict_def split: option.split)
    then show ?thesis using Some find_rule_first [OF wf [OF Some], of packet] by (auto simp: evaluate_verdict)
  qed (simp add: evaluate_verdict)
qed

text \<open>
  C8. Promotion is transparent: creating or selecting a list by name, including the promotion of a
  numbered standard list to a sequenced one, changes the verdict of no interface in no direction for
  no packet.
\<close>
theorem acl_promotion_transparent:
  assumes "acl_init d0" "acl_step\<^sup>*\<^sup>* d0 d" "ensure_acl name kind d = Inr (key, d')"
  shows "fst (permits_ipv4 port direction packet d') = fst (permits_ipv4 port direction packet d)"
proof -
  have ok: "acl_ok d" using acl_machine.reachable_inv [OF assms(1, 2)] by (simp add: acl_inv_def)
  from ok assms(3) show ?thesis
  proof (cases rule: ensure_acl_cases)
    case (created entries)
    have c: "if_config d' port = if_config d port" by (simp add: if_config_def created(6))
    have "group_ok d c" if "if_config d port = Some c" for c
      using ok if_config_in [OF that] by (auto simp: acl_ok_def)
    moreover have "fst (evaluate_named_acl k packet d') = fst (evaluate_named_acl k packet d)"
      if "bt_get (named_lists d) k \<noteq> None" for k
      using that by (auto simp: evaluate_verdict created(5) bt_get_append_new split: option.split)
    moreover have "numbered_verdict number packet d' = numbered_verdict number packet d"
      if "AccessListId_new number = Some number" for number
      by (rule numbered_verdict_created [OF ok that created(1, 2, 4, 5, 7)])
    ultimately show ?thesis
      by (auto simp: permits_verdict c group_ok_def split: option.split)
  qed simp
qed

definition sample_entry :: StandardAccessListEntry where
  "sample_entry = \<lparr>sa_action = Permit, sa_source = 0x0a000000, sa_wildcard = 0xff\<rparr>"

definition acl_device1 :: Device where
  "acl_device1 = result_of (add_access_list_entry 10 sample_entry standalone)"

definition acl_device2 :: Device where
  "acl_device2 = result_of (set_access_group (InterfaceId 1) 10 DirIn acl_device1)"

definition acl_device3 :: Device where
  "acl_device3 = snd (result_of (ensure_acl ''10'' Standard acl_device2))"

definition acl_packet :: Ipv4Packet where
  "acl_packet = \<lparr>ip_dscp_ecn = 0, ip_source = 0x0a000005, ip_destination = 1, ip_ttl = 64, ip_protocol = Icmp, ip_payload = []\<rparr>"

lemma acl_standalone: "acl_init standalone"
  by code_simp

lemma acl_run: "acl_step\<^sup>*\<^sup>* standalone acl_device2"
proof -
  have "\<not> isl (add_access_list_entry 10 sample_entry standalone)" by code_simp
  then have "acl_step standalone acl_device1"
    unfolding acl_device1_def by (intro add_entry [of 10 sample_entry] result_of_ok) (simp_all add: AccessListId_new_def)
  moreover have "\<not> isl (set_access_group (InterfaceId 1) 10 DirIn acl_device1)" by code_simp
  then have "acl_step acl_device1 acl_device2"
    unfolding acl_device2_def by (intro numbered_group [of 10 "InterfaceId 1" DirIn] result_of_ok) (simp_all add: AccessListId_new_def)
  ultimately show ?thesis by (meson rtranclp.rtrancl_into_rtrancl rtranclp.rtrancl_refl)
qed

lemma sample_name: "acl_name_valid ''10'' Standard" "parse_uint 255 ''10'' = Some 10" "decimal 10 = ''10''"
proof -
  have d: "decimal 10 = ''10''" by code_simp
  then show "decimal 10 = ''10''" .
  show "parse_uint 255 ''10'' = Some 10" by (simp add: parse_uint_def is_digit_def Let_def)
  have "parse_uint 65535 ''10'' = Some 10" by (simp add: parse_uint_def is_digit_def Let_def)
  then show "acl_name_valid ''10'' Standard"
    using d by (simp add: acl_name_valid_def acl_name_char_def is_digit_def Let_def acl_number_valid_def)
qed

lemma acl_device2_lists:
  "named_lists acl_device2 = []" "numbered_lists acl_device2 = [(10, [sample_entry])]" "supports_routing acl_device2"
  by code_simp+

lemma sample_promotable: "promotable acl_device2 ''10'' Standard = Some (10, [sample_entry])"
  by (simp add: promotable_def sample_name acl_device2_lists AccessListId_new_def bt_get_def)

lemma acl_promotes: "ensure_acl ''10'' Standard acl_device2 = Inr (1, acl_device3)"
  and acl_device3_lists: "named_lists acl_device3 = [(1, \<lparr>al_name = ''10'', al_kind = Standard, al_entries = [(10, promoted_rule sample_entry)]\<rparr>)]"
  by (simp_all add: acl_device3_def ensure_acl_def acl_device2_lists sample_name sample_promotable acl_id_def result_of_def
    promoted_entries_def bt_collect_def set_named_lists_def)

lemma acl_run3: "acl_step\<^sup>*\<^sup>* standalone acl_device3"
  using acl_run ensure [OF acl_promotes] by simp

theorem acl_first_match_witness:
  "\<exists>list sequence entry. bt_get (named_lists acl_device3) 1 = Some list \<and> bt_get (al_entries list) sequence = Some entry \<and>
     AclEntry_evaluate entry acl_packet = Some Permit \<and>
     \<not> (\<exists>s e. s < sequence \<and> bt_get (al_entries list) s = Some e \<and> AclEntry_evaluate e acl_packet \<noteq> None)"
proof -
  have "fst (evaluate_named_acl 1 acl_packet acl_device3)"
    by (simp add: evaluate_verdict acl_device3_lists bt_get_def matches_promoted rule_verdict_def)
      (simp add: acl_packet_def sample_entry_def StandardAccessListEntry_matches_def)
  then have "\<exists>list sequence entry. bt_get (named_lists acl_device3) 1 = Some list \<and> bt_get (al_entries list) sequence = Some entry \<and>
     AclEntry_evaluate entry acl_packet = Some Permit \<and>
     (\<forall>s e. s < sequence \<longrightarrow> bt_get (al_entries list) s = Some e \<longrightarrow> AclEntry_evaluate e acl_packet = None)"
    using acl_first_match [OF acl_standalone acl_run3, of 1 acl_packet] by simp
  then show ?thesis by simp
qed

theorem acl_promotion_transparent_witness:
  "fst (permits_ipv4 (InterfaceId 1) DirIn acl_packet acl_device3) = fst (permits_ipv4 (InterfaceId 1) DirIn acl_packet acl_device2) \<and>
   fst (permits_ipv4 (InterfaceId 1) DirIn acl_packet acl_device2)"
proof
  show "fst (permits_ipv4 (InterfaceId 1) DirIn acl_packet acl_device3) = fst (permits_ipv4 (InterfaceId 1) DirIn acl_packet acl_device2)"
    by (rule acl_promotion_transparent [OF acl_standalone acl_run acl_promotes])
  have "if_config acl_device2 (InterfaceId 1) \<noteq> None" "map_option if_named_access_group_in (if_config acl_device2 (InterfaceId 1)) = Some None"
    "map_option if_access_group_in (if_config acl_device2 (InterfaceId 1)) = Some (Some 10)" by code_simp+
  then show "fst (permits_ipv4 (InterfaceId 1) DirIn acl_packet acl_device2)"
    by (auto simp: permits_verdict numbered_verdict_def acl_id_def acl_device2_lists bt_get_def find_entry_def acl_packet_def
      sample_entry_def StandardAccessListEntry_matches_def)
qed

end
