(* ===== verification/Dev_Names.thy ===== *)
theory Dev_Names
  imports Device
begin

text \<open>
  Interface names of \<open>rios-device/src/lib.rs\<close>: the normalisation of abbreviated names with
  \<open>canonical_interface\<close> and the selection of ranges with \<open>interface_range\<close>. An accepted name is a fixed
  point of the normalisation, and the normalisation does not depend on the case of letters.
\<close>

section \<open>Normalisation\<close>

text \<open>The name of each family; a subinterface has the name of its parent.\<close>

fun family_name :: "InterfaceKind \<Rightarrow> string" where
  "family_name GigabitEthernet = ''GigabitEthernet''"
| "family_name TenGigabitEthernet = ''TenGigabitEthernet''"
| "family_name Serial = ''Serial''"
| "family_name Console = ''Console''"
| "family_name PortChannel = ''Port-channel''"
| "family_name Loopback = ''Loopback''"
| "family_name VlanInterface = ''Vlan''"
| "family_name EthernetSubinterface = []"

definition candidates :: "(string \<times> InterfaceKind) list" where
  "candidates = map (\<lambda>kind. (family_name kind, kind))
     [GigabitEthernet, TenGigabitEthernet, Serial, Console, PortChannel, Loopback, VlanInterface]"

definition family_candidates :: "string \<Rightarrow> (string \<times> InterfaceKind) list" where
  "family_candidates family =
     filter (\<lambda>(name, _). family \<noteq> [] \<and> take (length family) (map to_lower name) = map to_lower family) candidates"

fun numbers_valid :: "InterfaceKind \<Rightarrow> nat list \<Rightarrow> bool" where
  "numbers_valid GigabitEthernet ns = (2 \<le> length ns \<and> length ns \<le> 3)"
| "numbers_valid TenGigabitEthernet ns = (2 \<le> length ns \<and> length ns \<le> 3)"
| "numbers_valid Serial ns = (2 \<le> length ns \<and> length ns \<le> 3)"
| "numbers_valid EthernetSubinterface ns = False"
| "numbers_valid PortChannel ns = (length ns = 1 \<and> 1 \<le> hd ns \<and> hd ns \<le> 4096)"
| "numbers_valid Console ns = (length ns = 1)"
| "numbers_valid Loopback ns = (length ns = 1)"
| "numbers_valid VlanInterface ns = (length ns = 1 \<and> 1 \<le> hd ns \<and> hd ns \<le> 4094)"

definition suffix_numbers :: "string \<Rightarrow> nat list option" where
  "suffix_numbers suffix =
     (if \<not> list_all (\<lambda>c. is_digit c \<or> c = CHR ''/'') suffix then None
      else those (map (parse_uint 65535) (split_on (CHR ''/'') suffix)))"

definition family_of :: "string \<Rightarrow> string" where
  "family_of compact = takeWhile (\<lambda>c. \<not> is_digit c) compact"

definition suffix_of :: "string \<Rightarrow> string" where
  "suffix_of compact = dropWhile (\<lambda>c. \<not> is_digit c) compact"

definition canonical_plain :: "string \<Rightarrow> (string \<times> InterfaceKind) option" where
  "canonical_plain compact =
     (if suffix_of compact = [] then None
      else case family_candidates (family_of compact) of
          [(name, kind)] \<Rightarrow>
            (case suffix_numbers (suffix_of compact) of
               None \<Rightarrow> None
             | Some numbers \<Rightarrow>
                 if numbers_valid kind numbers then Some (name @ join (CHR ''/'') (map decimal numbers), kind) else None)
        | _ \<Rightarrow> None)"

definition compact_name :: "string \<Rightarrow> string option" where
  "compact_name input =
     (let parts = split_whitespace input
      in if 2 < length parts \<or> length parts = 2 \<and> \<not> list_all (\<lambda>c. is_ascii_alpha c \<or> c = CHR ''-'') (hd parts) then None
         else Some (concat parts))"

definition subinterface_number :: "string \<Rightarrow> string \<Rightarrow> nat option" where
  "subinterface_number parent number =
     (if parent = [] \<or> number = [] \<or> \<not> list_all is_digit number then None
      else case parse_uint (2 ^ 32 - 1) number of None \<Rightarrow> None | Some n \<Rightarrow> if n = 0 then None else Some n)"

lemma concat_filter_Nil: "concat (filter (\<lambda>w. w \<noteq> []) ws) = concat ws"
  by (induction ws) auto

lemma length_concat_split_on: "length (concat (split_on c s)) \<le> length s"
  by (induction c s rule: split_on.induct) (auto split: list.splits)

lemma compact_name_length: "compact_name input = Some compact \<Longrightarrow> length compact \<le> length input"
  using length_concat_split_on [of "CHR '' ''" "map (\<lambda>c. if is_white c then CHR '' '' else c) input"]
  by (auto simp: compact_name_def split_whitespace_def concat_filter_Nil Let_def split: if_splits)

lemma takeWhile_shorter: "x \<in> set s \<Longrightarrow> \<not> P x \<Longrightarrow> length (takeWhile P s) < length s"
  by (induction s) auto

lemma split_once_length: "split_once c s = Some (a, b) \<Longrightarrow> length a < length s"
  by (auto simp: split_once_def intro: takeWhile_shorter split: if_splits)

function canonical_interface :: "string \<Rightarrow> DeviceError + string \<times> InterfaceKind" where
  "canonical_interface input =
     (case compact_name input of
        None \<Rightarrow> Inl (InvalidInterface input)
      | Some compact \<Rightarrow>
          (case split_once (CHR ''.'') compact of
             Some (parent, number) \<Rightarrow>
               (case subinterface_number parent number of
                  None \<Rightarrow> Inl (InvalidInterface input)
                | Some n \<Rightarrow>
                    (case canonical_interface parent of
                       Inl e \<Rightarrow> Inl e
                     | Inr (p, kind) \<Rightarrow>
                         if \<not> is_ethernet kind then Inl (InvalidInterface input)
                         else Inr (p @ ''.'' @ decimal n, EthernetSubinterface)))
           | None \<Rightarrow>
               (case canonical_plain compact of
                  None \<Rightarrow> Inl (InvalidInterface input)
                | Some result \<Rightarrow> Inr result)))"
  by pat_completeness auto
termination
  by (relation "measure length") (auto dest!: compact_name_length split_once_length)

declare canonical_interface.simps [simp del]

section \<open>Ranges\<close>

text \<open>\<open>interface_sequence\<close>: the stem up to the last character that is no digit, and the number behind it.\<close>

definition interface_sequence :: "string \<Rightarrow> (string \<times> nat) option" where
  "interface_sequence name =
     (let digits = rev (takeWhile is_digit (rev name)); stem = take (length name - length digits) name
      in if stem = [] then None else map_option (Pair stem) (parse_uint 65535 digits))"

definition interface_range :: "InterfaceId \<Rightarrow> InterfaceId \<Rightarrow> Device \<Rightarrow> DeviceError + InterfaceId list" where
  "interface_range first until d =
     (case (if_config d first, if_config d until) of
        (Some f, Some l) \<Rightarrow>
          (case (interface_sequence (if_name f), interface_sequence (if_name l)) of
             (None, _) \<Rightarrow> Inl (InvalidInterface (if_name f))
           | (_, None) \<Rightarrow> Inl (InvalidInterface (if_name l))
           | (Some (first_stem, first_number), Some (last_stem, last_number)) \<Rightarrow>
               if first_stem \<noteq> last_stem \<or> last_number < first_number
               then Inl (InvalidInterface (if_name f @ ''-'' @ if_name l))
               else Inr (map fst (filter (\<lambda>(_, c).
                      (case interface_sequence (if_name c) of
                         None \<Rightarrow> False
                       | Some (stem, number) \<Rightarrow> stem = first_stem \<and> first_number \<le> number \<and> number \<le> last_number))
                      (if_configs d))))
      | _ \<Rightarrow> Inl MissingInterface)"

section \<open>Shape of canonical names\<close>

abbreviation name_of :: "InterfaceKind \<Rightarrow> nat list \<Rightarrow> string" where
  "name_of kind numbers \<equiv> family_name kind @ join (CHR ''/'') (map decimal numbers)"

lemma family_candidates_name: "family_candidates family = [(fam, k)] \<Longrightarrow> fam = family_name k"
proof -
  assume "family_candidates family = [(fam, k)]"
  then have "(fam, k) \<in> set candidates" unfolding family_candidates_def by (metis filter_is_subset in_mono list.set_intros(1))
  then show ?thesis unfolding candidates_def set_map by blast
qed

lemma parse_uint_bound: "parse_uint largest s = Some n \<Longrightarrow> n \<le> largest"
  by (simp add: parse_uint_def Let_def split: if_splits)

lemma suffix_numbers_bound: "suffix_numbers suffix = Some numbers \<Longrightarrow> n \<in> set numbers \<Longrightarrow> n \<le> 65535"
proof -
  assume "suffix_numbers suffix = Some numbers" "n \<in> set numbers"
  then have "map (parse_uint 65535) (split_on (CHR ''/'') suffix) = map Some numbers" "n \<in> set numbers"
    by (simp_all add: suffix_numbers_def those_eq_Some split: if_splits)
  then have "Some n \<in> set (map (parse_uint 65535) (split_on (CHR ''/'') suffix))" by simp
  then show ?thesis using parse_uint_bound by fastforce
qed

lemma canonical_plain_form:
  assumes "canonical_plain compact = Some (name, kind)"
  obtains numbers where "name = name_of kind numbers" "numbers_valid kind numbers" "\<forall>n\<in>set numbers. n \<le> 65535"
proof -
  obtain numbers where found: "family_candidates (family_of compact) = [(family_name kind, kind)]"
    and sn: "suffix_numbers (suffix_of compact) = Some numbers" and valid: "numbers_valid kind numbers" and "name = name_of kind numbers"
  proof -
    obtain fam k where f: "family_candidates (family_of compact) = [(fam, k)]"
      using assms by (auto simp: canonical_plain_def split: list.splits if_splits prod.splits)
    then have fam: "fam = family_name k" by (rule family_candidates_name)
    have "suffix_of compact \<noteq> []" using assms by (auto simp: canonical_plain_def)
    then show thesis
      using assms f that [of "the (suffix_numbers (suffix_of compact))"]
      by (auto simp: canonical_plain_def fam split: if_splits option.splits)
  qed
  moreover have "\<forall>n\<in>set numbers. n \<le> 65535" using suffix_numbers_bound [OF sn] by simp
  ultimately show thesis using that by blast
qed

section \<open>Canonical names are fixed points\<close>

lemma numbers_valid_nonempty: "numbers_valid kind numbers \<Longrightarrow> numbers \<noteq> [] \<and> kind \<noteq> EthernetSubinterface"
  by (cases kind) auto

lemma family_chars: "c \<in> set (family_name kind) \<Longrightarrow> is_ascii_alpha c \<or> c = CHR ''-''"
  by (cases kind) (auto simp: is_ascii_alpha_def)

lemma alpha_not: "is_ascii_alpha c \<or> c = CHR ''-'' \<Longrightarrow> \<not> is_digit c \<and> \<not> is_white c \<and> c \<noteq> CHR ''.'' \<and> c \<noteq> CHR ''/''"
  by (auto simp: is_ascii_alpha_def is_digit_def is_white_def Let_def)

lemma digit_not: "is_digit c \<Longrightarrow> \<not> is_white c \<and> c \<noteq> CHR ''.'' \<and> c \<noteq> CHR ''/''"
  by (auto simp: is_digit_def is_white_def)

lemma decimal_chars: "c \<in> set (decimal n) \<Longrightarrow> is_digit c"
  using decimal_digits [of n] by (simp add: list_all_iff)

lemma join_chars: "x \<in> set (join c ps) \<Longrightarrow> x = c \<or> (\<exists>p\<in>set ps. x \<in> set p)"
  by (induction c ps rule: join.induct) auto

lemma numbers_chars: "c \<in> set (join (CHR ''/'') (map decimal numbers)) \<Longrightarrow> is_digit c \<or> c = CHR ''/''"
  by (auto dest!: join_chars decimal_chars)

lemma name_of_chars: "c \<in> set (name_of kind numbers) \<Longrightarrow> \<not> is_white c \<and> c \<noteq> CHR ''.''"
  using family_chars [of c kind] alpha_not [of c] numbers_chars [of c numbers] digit_not [of c] by (auto simp: is_white_def)

lemma numbers_hd:
  assumes "numbers \<noteq> []"
  shows "join (CHR ''/'') (map decimal numbers) \<noteq> []" "is_digit (hd (join (CHR ''/'') (map decimal numbers)))"
proof -
  obtain n ns where ns: "numbers = n # ns" using assms by (cases numbers) auto
  have d: "decimal n \<noteq> []" "is_digit (hd (decimal n))" using decimal_digits [of n] by (cases "decimal n"; simp)+
  show "join (CHR ''/'') (map decimal numbers) \<noteq> []" "is_digit (hd (join (CHR ''/'') (map decimal numbers)))"
    using d by (cases ns; simp add: ns)+
qed

lemma name_of_parts:
  assumes "numbers \<noteq> []"
  shows "family_of (name_of kind numbers) = family_name kind"
    and "suffix_of (name_of kind numbers) = join (CHR ''/'') (map decimal numbers)"
proof -
  have f: "\<forall>c\<in>set (family_name kind). \<not> is_digit c" using family_chars alpha_not by blast
  obtain c cs where c: "join (CHR ''/'') (map decimal numbers) = c # cs" "is_digit c"
    using numbers_hd [OF assms] by (cases "join (CHR ''/'') (map decimal numbers)") auto
  show "family_of (name_of kind numbers) = family_name kind"
    "suffix_of (name_of kind numbers) = join (CHR ''/'') (map decimal numbers)"
    using f c(2) by (simp_all add: family_of_def suffix_of_def c(1))
qed

lemma suffix_numbers_join:
  assumes "numbers \<noteq> []" "\<forall>n\<in>set numbers. n \<le> 65535"
  shows "suffix_numbers (join (CHR ''/'') (map decimal numbers)) = Some numbers"
proof -
  have "split_on (CHR ''/'') (join (CHR ''/'') (map decimal numbers)) = map decimal numbers"
    using assms(1) decimal_chars digit_not by (intro split_on_join) auto
  moreover have "map (parse_uint 65535) (map decimal numbers) = map Some numbers"
    using assms(2) by (simp add: parse_decimal)
  ultimately show ?thesis
    using numbers_chars by (auto simp: suffix_numbers_def those_eq_Some list_all_iff)
qed

lemma family_candidates_name_of: "kind \<noteq> EthernetSubinterface \<Longrightarrow> family_candidates (family_name kind) = [(family_name kind, kind)]"
  by (cases kind) (simp, code_simp)+

lemma canonical_plain_name_of:
  assumes "numbers_valid kind numbers" "\<forall>n\<in>set numbers. n \<le> 65535"
  shows "canonical_plain (name_of kind numbers) = Some (name_of kind numbers, kind)"
  using assms numbers_valid_nonempty [OF assms(1)]
  by (simp add: canonical_plain_def name_of_parts family_candidates_name_of suffix_numbers_join numbers_hd)

lemma compact_no_white:
  assumes "\<forall>c\<in>set s. \<not> is_white c"
  shows "compact_name s = Some s"
proof -
  have "map (\<lambda>c. if is_white c then CHR '' '' else c) s = s" using assms by (intro map_idI) auto
  moreover have "CHR '' '' \<notin> set s" using assms by (auto simp: is_white_def)
  ultimately have "split_whitespace s = (if s = [] then [] else [s])"
    by (simp add: split_whitespace_def split_on_single)
  then show ?thesis by (simp add: compact_name_def)
qed

inductive canonical_name :: "string \<Rightarrow> InterfaceKind \<Rightarrow> bool" where
  plain: "numbers_valid kind numbers \<Longrightarrow> \<forall>n\<in>set numbers. n \<le> 65535 \<Longrightarrow> canonical_name (name_of kind numbers) kind"
| sub: "canonical_name parent kind \<Longrightarrow> is_ethernet kind \<Longrightarrow> 1 \<le> n \<Longrightarrow> n \<le> 2 ^ 32 - 1 \<Longrightarrow>
    canonical_name (parent @ ''.'' @ decimal n) EthernetSubinterface"

lemma subinterface_number_bound: "subinterface_number parent number = Some n \<Longrightarrow> 1 \<le> n \<and> n \<le> 2 ^ 32 - 1"
  using parse_uint_bound [of "2 ^ 32 - 1" number n]
  by (auto simp: subinterface_number_def split: if_splits option.splits)

lemma canonical_form: "canonical_interface input = Inr (name, kind) \<Longrightarrow> canonical_name name kind"
proof (induction input arbitrary: name kind rule: canonical_interface.induct)
  case (1 input)
  from "1.prems" obtain compact where c: "compact_name input = Some compact"
    by (subst (asm) canonical_interface.simps) (auto split: option.splits)
  show ?case
  proof (cases "split_once (CHR ''.'') compact")
    case None
    then have "canonical_plain compact = Some (name, kind)"
      using "1.prems" c by (subst (asm) canonical_interface.simps) (auto split: option.splits)
    then obtain numbers where n: "name = name_of kind numbers" "numbers_valid kind numbers" "\<forall>n\<in>set numbers. n \<le> 65535"
      by (rule canonical_plain_form)
    show ?thesis unfolding n(1) by (rule plain [OF n(2, 3)])
  next
    case (Some pn)
    obtain parent number where pn: "pn = (parent, number)" by (cases pn)
    obtain n p k where n: "subinterface_number parent number = Some n" and p: "canonical_interface parent = Inr (p, k)"
      and k: "is_ethernet k" "name = p @ ''.'' @ decimal n" "kind = EthernetSubinterface"
      using "1.prems" c Some
      by (subst (asm) canonical_interface.simps) (auto simp: pn split: option.splits sum.splits if_splits)
    have "canonical_name p k" using "1.IH" [OF c Some pn [symmetric] n p] .
    then show ?thesis using subinterface_number_bound [OF n] unfolding k(2, 3) by (intro sub [OF _ k(1)]) simp_all
  qed
qed

lemma canonical_chars: "canonical_name name kind \<Longrightarrow> is_ethernet kind \<Longrightarrow> c \<in> set name \<Longrightarrow> \<not> is_white c \<and> c \<noteq> CHR ''.''"
  by (erule canonical_name.cases) (use name_of_chars in auto)

lemma canonical_nonempty: "canonical_name name kind \<Longrightarrow> name \<noteq> []"
  by (erule canonical_name.cases) (auto dest!: numbers_valid_nonempty simp: numbers_hd)

lemma split_once_dot: "CHR ''.'' \<notin> set p \<Longrightarrow> split_once (CHR ''.'') (p @ ''.'' @ n) = Some (p, n)"
proof -
  assume "CHR ''.'' \<notin> set p"
  then have "\<forall>x\<in>set p. x \<noteq> CHR ''.''" by metis
  then show ?thesis by (simp add: split_once_def)
qed

lemma canonical_fixed: "canonical_name name kind \<Longrightarrow> canonical_interface name = Inr (name, kind)"
proof (induction rule: canonical_name.induct)
  case (plain kind numbers)
  have "\<forall>c\<in>set (name_of kind numbers). \<not> is_white c" and dot: "CHR ''.'' \<notin> set (name_of kind numbers)"
    using name_of_chars [of _ kind numbers] by blast+
  then have compact: "compact_name (name_of kind numbers) = Some (name_of kind numbers)" by (intro compact_no_white)
  have once: "split_once (CHR ''.'') (name_of kind numbers) = None" using dot unfolding split_once_def by (rule if_not_P)
  show ?case
    unfolding canonical_interface.simps [of "name_of kind numbers"] compact once option.case canonical_plain_name_of [OF plain] ..
next
  case (sub parent kind n)
  have c: "\<forall>c\<in>set parent. \<not> is_white c \<and> c \<noteq> CHR ''.''" using canonical_chars [OF sub(1, 2)] by blast
  have d: "decimal n \<noteq> []" "list_all is_digit (decimal n)" using decimal_digits [of n] by simp_all
  have "\<forall>c\<in>set (parent @ ''.'' @ decimal n). \<not> is_white c"
    using c decimal_chars digit_not by (auto simp: is_white_def)
  then have compact: "compact_name (parent @ ''.'' @ decimal n) = Some (parent @ ''.'' @ decimal n)" by (rule compact_no_white)
  have once: "split_once (CHR ''.'') (parent @ ''.'' @ decimal n) = Some (parent, decimal n)"
    using c by (intro split_once_dot) blast
  have "subinterface_number parent (decimal n) = Some n"
    using d canonical_nonempty [OF sub(1)] sub(3, 4) parse_decimal [of n "2 ^ 32 - 1"] by (simp add: subinterface_number_def)
  then show ?case
    unfolding canonical_interface.simps [of "parent @ ''.'' @ decimal n"] compact once option.case prod.case
    by (simp add: sub.IH sub(2))
qed

section \<open>Letter case\<close>

lemma is_white_code: "is_white c = (9 \<le> (of_char c :: nat) \<and> (of_char c :: nat) \<le> 13 \<or> (of_char c :: nat) = 32)"
proof -
  have "char_of (32 :: nat) = CHR '' ''" by code_simp
  then have "c = CHR '' ''" if "(of_char c :: nat) = 32" using char_of_char [of c, where 'a = nat] that by simp
  then show ?thesis by (auto simp: is_white_def)
qed

lemma to_lower_class [simp]:
  "is_digit (to_lower c) = is_digit c" "is_white (to_lower c) = is_white c" "is_ascii_alpha (to_lower c) = is_ascii_alpha c"
  "to_lower (to_lower c) = to_lower c"
  by (auto simp: to_lower_def is_digit_def is_white_code is_ascii_alpha_def Let_def)

lemma to_lower_other:
  assumes "\<not> is_ascii_alpha c"
  shows "to_lower c = c" "to_lower x = c \<longleftrightarrow> x = c"
proof -
  show c: "to_lower c = c" using assms by (auto simp: to_lower_def is_ascii_alpha_def Let_def)
  show "to_lower x = c \<longleftrightarrow> x = c"
  proof
    assume x: "to_lower x = c"
    then have "\<not> is_ascii_alpha x" using assms to_lower_class(3) [of x] by simp
    then show "x = c" using x by (auto simp: to_lower_def is_ascii_alpha_def Let_def)
  qed (simp add: c)
qed

abbreviation lower :: "string \<Rightarrow> string" where
  "lower \<equiv> map to_lower"

lemma punctuation [simp]: "\<not> is_ascii_alpha (CHR '' '')" "\<not> is_ascii_alpha (CHR ''.'')" "\<not> is_ascii_alpha (CHR ''/'')" "\<not> is_ascii_alpha (CHR ''-'')"
  by (simp_all add: is_ascii_alpha_def)

lemma lower_digits: "list_all (\<lambda>c. is_digit c \<or> c = CHR ''/'') s \<Longrightarrow> lower s = s"
  by (induction s) (auto simp: to_lower_other digit_not is_digit_def is_ascii_alpha_def to_lower_def Let_def)

lemma split_whitespace_lower: "split_whitespace (lower s) = map lower (split_whitespace s)"
proof -
  have "map (\<lambda>c. if is_white c then CHR '' '' else c) (lower s) = lower (map (\<lambda>c. if is_white c then CHR '' '' else c) s)"
    by (simp add: to_lower_other)
  then show ?thesis
    by (simp only: split_whitespace_def split_on_map [OF to_lower_other(2) [OF punctuation(1)]] filter_map o_def map_is_Nil_conv)
qed

lemma compact_name_lower: "compact_name (lower s) = map_option lower (compact_name s)"
proof -
  have "list_all (\<lambda>c. is_ascii_alpha c \<or> c = CHR ''-'') (lower w) = list_all (\<lambda>c. is_ascii_alpha c \<or> c = CHR ''-'') w" for w
    by (simp add: list.pred_map o_def to_lower_other)
  then show ?thesis
    by (cases "split_whitespace s") (auto simp: compact_name_def split_whitespace_lower map_concat Let_def)
qed

lemma split_once_lower: "split_once (CHR ''.'') (lower s) = map_option (map_prod lower lower) (split_once (CHR ''.'') s)"
proof -
  have "(CHR ''.'' \<in> set (lower s)) = (CHR ''.'' \<in> set s)"
    by (simp only: set_map image_iff eq_commute [of "CHR ''.''"] to_lower_other(2) [OF punctuation(2)]) blast
  then show ?thesis
    by (simp add: split_once_def takeWhile_map dropWhile_map o_def to_lower_other map_tl)
qed

lemma suffix_numbers_lower: "suffix_numbers (lower s) = suffix_numbers s"
proof (cases "list_all (\<lambda>c. is_digit c \<or> c = CHR ''/'') s")
  case True
  then show ?thesis by (simp add: lower_digits)
next
  case False
  then show ?thesis by (simp add: suffix_numbers_def list.pred_map o_def to_lower_other)
qed

lemma subinterface_number_lower: "subinterface_number (lower p) (lower n) = subinterface_number p n"
proof (cases "list_all is_digit n")
  case True
  then have "lower n = n" by (intro lower_digits) (simp add: list_all_iff)
  then show ?thesis by (simp add: subinterface_number_def)
next
  case False
  then show ?thesis by (simp add: subinterface_number_def list.pred_map o_def)
qed

lemma canonical_plain_lower: "canonical_plain (lower s) = canonical_plain s"
proof -
  have "suffix_of (lower s) = lower (suffix_of s)" "family_of (lower s) = lower (family_of s)"
    by (simp_all add: suffix_of_def family_of_def dropWhile_map takeWhile_map o_def)
  moreover have "family_candidates (lower f) = family_candidates f" for f by (simp add: family_candidates_def o_def)
  ultimately show ?thesis by (simp only: canonical_plain_def suffix_numbers_lower map_is_Nil_conv)
qed

definition accepted :: "'e + 'a \<Rightarrow> 'a option" where
  "accepted r = (case r of Inl _ \<Rightarrow> None | Inr x \<Rightarrow> Some x)"

lemma accepted_simps [simp]: "accepted (Inl e) = None" "accepted (Inr x) = Some x" "accepted r = Some x \<longleftrightarrow> r = Inr x"
  by (simp_all add: accepted_def split: sum.split)

lemma canonical_lower: "accepted (canonical_interface (lower s)) = accepted (canonical_interface s)"
proof (induction s rule: canonical_interface.induct)
  case (1 input)
  show ?case
  proof (cases "compact_name input")
    case None
    then show ?thesis by (simp add: canonical_interface.simps [of "lower input"] canonical_interface.simps [of input] compact_name_lower)
  next
    case (Some compact)
    note c = Some
    show ?thesis
    proof (cases "split_once (CHR ''.'') compact")
      case None
      then show ?thesis
        by (simp add: canonical_interface.simps [of "lower input"] canonical_interface.simps [of input] compact_name_lower c
          split_once_lower canonical_plain_lower split: option.split)
    next
      case (Some pn)
      obtain parent number where pn: "pn = (parent, number)" by (cases pn)
      show ?thesis
      proof (cases "subinterface_number parent number")
        case None
        then show ?thesis
          by (simp add: canonical_interface.simps [of "lower input"] canonical_interface.simps [of input] compact_name_lower c
            Some pn split_once_lower subinterface_number_lower)
      next
        case n: (Some n)
        have "accepted (canonical_interface (lower parent)) = accepted (canonical_interface parent)"
          using "1.IH" [OF c Some pn [symmetric] n] .
        then show ?thesis
          by (auto simp: canonical_interface.simps [of "lower input"] canonical_interface.simps [of input] compact_name_lower c
            Some pn split_once_lower subinterface_number_lower n split: sum.splits)
      qed
    qed
  qed
qed

section \<open>Properties\<close>

text \<open>
  Interface names have one normal form: whatever spelling is accepted, the name it is normalised to is a
  fixed point of the normalisation with the same kind, and every spelling that differs only in the case of
  its letters is accepted with the same result.
\<close>
theorem canonical_names:
  assumes "canonical_interface input = Inr (name, kind)" "lower other = lower input"
  shows "canonical_interface name = Inr (name, kind) \<and> canonical_interface other = Inr (name, kind)"
proof
  show "canonical_interface name = Inr (name, kind)" by (rule canonical_fixed [OF canonical_form [OF assms(1)]])
  have "accepted (canonical_interface other) = accepted (canonical_interface input)"
    using canonical_lower [of other] canonical_lower [of input] assms(2) by simp
  then show "canonical_interface other = Inr (name, kind)" using assms(1) by simp
qed

lemma abbreviated_name: "canonical_interface ''po 7'' = Inr (''Port-channel7'', PortChannel)"
proof -
  have d: "decimal 7 = ''7''" and c: "compact_name ''po 7'' = Some ''po7''" and o: "split_once (CHR ''.'') ''po7'' = None"
    and f: "family_candidates (family_of ''po7'') = [(''Port-channel'', PortChannel)]" and s: "suffix_of ''po7'' = ''7''"
    by code_simp+
  have "suffix_numbers ''7'' = Some [7]" by (simp add: suffix_numbers_def is_digit_def parse_uint_def)
  then show ?thesis
    unfolding canonical_interface.simps [of "''po 7''"] c option.case o canonical_plain_def s f by (simp add: d)
qed

theorem canonical_names_witness:
  "canonical_interface ''Port-channel7'' = Inr (''Port-channel7'', PortChannel) \<and>
   canonical_interface ''PO 7'' = Inr (''Port-channel7'', PortChannel)"
  using abbreviated_name by (rule canonical_names) code_simp

end
