(* ===== verification/Dev_Ports.thy ===== *)
theory Dev_Ports
  imports Dev_Names
begin

text \<open>
  Interfaces of a device: creation of physical and logical interfaces, addresses, VLANs and switchports
  (\<open>lib.rs\<close>), bundles (\<open>channel.rs\<close>), LACP (\<open>lacp.rs\<close>) and routed subinterfaces (\<open>subinterface.rs\<close>). An
  index into the configuration that would panic when the interface is missing is an error value here;
  the invariant of this theory shows that inventory and configuration hold the same interfaces. The
  \<open>expect\<close> of \<open>refresh_svi_states\<close> is the value None. Resetting the IPv6 runtime of a port is not modelled,
  the device record has no IPv6 runtime.
\<close>

definition map_result :: "('a \<Rightarrow> 'b) \<Rightarrow> 'e + 'a \<Rightarrow> 'e + 'b" where
  "map_result f r = and_then r (\<lambda>v. Inr (f v))"

lemma map_result_Inr_iff: "map_result f r = Inr y \<longleftrightarrow> (\<exists>v. r = Inr v \<and> y = f v)"
  by (auto simp: map_result_def and_then_Inr_iff)

section \<open>Inventory\<close>

definition set_hostname :: "string \<Rightarrow> Device \<Rightarrow> DeviceError + Device" where
  "set_hostname name d =
     (if \<not> hostname_valid name then Inl InvalidHostname
      else Inr (d\<lparr>dv_running_config := (dv_running_config d)\<lparr>rc_hostname := name\<rparr>\<rparr>))"

fun default_media :: "InterfaceKind \<Rightarrow> InterfaceMedia" where
  "default_media GigabitEthernet = Rj45"
| "default_media TenGigabitEthernet = SfpPlus"
| "default_media Serial = SerialMedia"
| "default_media Console = ConsoleMedia"
| "default_media _ = VirtualMedia"

definition add_physical_interface :: "string \<Rightarrow> Device \<Rightarrow> DeviceError + InterfaceId \<times> Device" where
  "add_physical_interface name d =
     and_then (canonical_interface name) (\<lambda>(canonical, kind).
       if \<not> is_physical kind then Inl (InvalidInterface name)
       else insert_interface canonical kind (default_media kind) d)"

definition media_valid :: "InterfaceKind \<Rightarrow> InterfaceMedia \<Rightarrow> bool" where
  "media_valid kind media =
     ((kind, media) \<in> {(GigabitEthernet, Rj45), (GigabitEthernet, Sfp), (TenGigabitEthernet, SfpPlus), (Serial, SerialMedia),
        (Console, ConsoleMedia)})"

definition add_port :: "string \<Rightarrow> InterfaceMedia \<Rightarrow> Device \<Rightarrow> DeviceError + InterfaceId \<times> Device" where
  "add_port name media d =
     and_then (canonical_interface name) (\<lambda>(canonical, kind).
       if \<not> media_valid kind media then Inl (InvalidInterface name) else insert_interface canonical kind media d)"

definition channel_config :: "bool \<Rightarrow> nat \<Rightarrow> InterfaceConfig \<Rightarrow> InterfaceConfig" where
  "channel_config switching number c =
     c\<lparr>if_port_channel := Some (of_nat number), if_admin_state := AdminUp, if_switchport_capable := switching,
       if_switchport := if switching then Some SwitchportConfig_default else None\<rparr>"

definition create_port_channel :: "string \<Rightarrow> Device \<Rightarrow> DeviceError + InterfaceId \<times> Device" where
  "create_port_channel canonical d =
     (if \<not> supports_routing d \<and> \<not> supports_switching d then Inl InvalidChannel
      else case Option.bind (strip_prefix ''Port-channel'' canonical) (parse_uint 65535) of
          None \<Rightarrow> Inl InvalidChannel
        | Some number \<Rightarrow>
            and_then (insert_interface canonical PortChannel VirtualMedia d) (\<lambda>(port, d1).
              and_then (with_config port (channel_config (supports_switching d1) number) d1)
                (\<lambda>d2. Inr (port, d2))))"

definition set_interface_mac :: "InterfaceId \<Rightarrow> MacAddress \<Rightarrow> Device \<Rightarrow> DeviceError + Device" where
  "set_interface_mac port mac d =
     (case bt_get (dv_interfaces d) port of
        None \<Rightarrow> Inl MissingInterface
      | Some i \<Rightarrow> Inr (d\<lparr>dv_interfaces := bt_insert port (i\<lparr>it_mac_address := mac\<rparr>) (dv_interfaces d)\<rparr>))"

definition child_config :: "InterfaceId \<Rightarrow> InterfaceConfig \<Rightarrow> InterfaceConfig" where
  "child_config parent c = c\<lparr>if_parent := Some parent, if_admin_state := AdminUp\<rparr>"

definition create_subinterface :: "string \<Rightarrow> Device \<Rightarrow> DeviceError + InterfaceId \<times> Device" where
  "create_subinterface canonical d =
     (if \<not> supports_routing d then Inl NotRoutedPort
      else case split_once (CHR ''.'') canonical of
          None \<Rightarrow> Inl (InvalidInterface canonical)
        | Some (parent_name, _) \<Rightarrow>
            (case find_interface d parent_name of
               None \<Rightarrow> Inl (InvalidInterface parent_name)
             | Some parent \<Rightarrow>
                 if is_switchport d parent then Inl NotRoutedPort
                 else case bt_get (dv_interfaces d) parent of
                     None \<Rightarrow> Inl MissingInterface
                   | Some p \<Rightarrow>
                       and_then (insert_interface canonical EthernetSubinterface VirtualMedia d) (\<lambda>(port, d1).
                         and_then (with_config port (child_config parent) d1) (\<lambda>d2.
                           and_then (set_interface_mac port (it_mac_address p) d2) (\<lambda>d3. Inr (port, d3))))))"

definition ensure_interface :: "string \<Rightarrow> Device \<Rightarrow> DeviceError + InterfaceId \<times> Device" where
  "ensure_interface name d =
     and_then (canonical_interface name) (\<lambda>(canonical, kind).
       case find_interface d canonical of
         Some port \<Rightarrow> Inr (port, d)
       | None \<Rightarrow>
           if is_physical kind then Inl (InvalidInterface name)
           else if kind = EthernetSubinterface then create_subinterface canonical d
           else if kind = PortChannel then create_port_channel canonical d
           else insert_interface canonical kind VirtualMedia d)"

section \<open>Interface configuration\<close>

definition channel_interface :: "Device \<Rightarrow> InterfaceId \<Rightarrow> InterfaceId option" where
  "channel_interface d port =
     (case if_config d port of
        None \<Rightarrow> None
      | Some c \<Rightarrow>
          (case if_channel_group c of
             None \<Rightarrow> None
           | Some g \<Rightarrow> map_option fst (find (\<lambda>(_, other). if_port_channel other = Some (cm_number g)) (if_configs d))))"

definition set_description :: "InterfaceId \<Rightarrow> string \<Rightarrow> Device \<Rightarrow> DeviceError + Device" where
  "set_description port text d =
     (if 240 < length text \<or> list_ex is_control text then Inl InvalidDescription
      else with_config port (\<lambda>c. c\<lparr>if_description := trim text\<rparr>) d)"

definition clear_description :: "InterfaceId \<Rightarrow> Device \<Rightarrow> DeviceError + Device" where
  "clear_description port d = with_config port (\<lambda>c. c\<lparr>if_description := []\<rparr>) d"

definition serial_or_console :: "Device \<Rightarrow> InterfaceId \<Rightarrow> bool" where
  "serial_or_console d port = (case bt_get (dv_interfaces d) port of None \<Rightarrow> False | Some i \<Rightarrow> it_kind i \<in> {Serial, Console})"

definition forget_lease :: "InterfaceId \<Rightarrow> Device \<Rightarrow> Device" where
  "forget_lease port d = d\<lparr>dv_dhcp_leases := bt_remove port (dv_dhcp_leases d)\<rparr>"

definition set_ipv4 :: "InterfaceId \<Rightarrow> Ipv4InterfaceConfig \<Rightarrow> Device \<Rightarrow> DeviceError + Device" where
  "set_ipv4 port ip d =
     (if serial_or_console d port then Inl UnsupportedIpv4Interface
      else if channel_interface d port \<noteq> None then Inl InvalidChannel
      else if is_switchport d port then Inl NotRoutedPort
      else map_result (forget_lease port) (with_config port (\<lambda>c. c\<lparr>if_ipv4 := Some ip, if_dhcp_client := False\<rparr>) d))"

definition clear_ipv4 :: "InterfaceId \<Rightarrow> Device \<Rightarrow> DeviceError + Device" where
  "clear_ipv4 port d = map_result (forget_lease port) (with_config port (\<lambda>c. c\<lparr>if_ipv4 := None, if_dhcp_client := False\<rparr>) d)"

definition set_dhcp_client :: "InterfaceId \<Rightarrow> Device \<Rightarrow> DeviceError + Device" where
  "set_dhcp_client port d =
     (if dv_device_type d \<notin> {RouterDevice, Host, Layer3Switch} then Inl DhcpNotSupported
      else if serial_or_console d port then Inl UnsupportedIpv4Interface
      else map_result (if (case if_config d port of None \<Rightarrow> False | Some c \<Rightarrow> if_dhcp_client c) then (\<lambda>d. d) else forget_lease port)
             (with_config port (\<lambda>c. c\<lparr>if_ipv4 := None, if_dhcp_client := True\<rparr>) d))"

definition forget_stp_port :: "InterfaceId \<Rightarrow> StpInstance \<Rightarrow> StpInstance" where
  "forget_stp_port port s = s\<lparr>si_received := bt_remove port (si_received s), si_ports := bt_remove port (si_ports s)\<rparr>"

definition set_admin_state :: "InterfaceId \<Rightarrow> AdminState \<Rightarrow> Device \<Rightarrow> DeviceError + Device" where
  "set_admin_state port state d =
     map_result (\<lambda>d1.
       if state = AdminDown
       then d1\<lparr>dv_stp_errdisabled := dv_stp_errdisabled d1 - {port}, dv_lacp_neighbors := bt_remove port (dv_lacp_neighbors d1),
               dv_stp_runtime := map (\<lambda>(v, s). (v, forget_stp_port port s)) (dv_stp_runtime d1)\<rparr>
       else d1) (with_config port (\<lambda>c. c\<lparr>if_admin_state := state\<rparr>) d)"

section \<open>VLANs and switchports\<close>

abbreviation vlans :: "Device \<Rightarrow> (VlanId, VlanConfig) btree" where
  "vlans d \<equiv> rc_vlans (dv_running_config d)"

definition set_vlans :: "(VlanId, VlanConfig) btree \<Rightarrow> Device \<Rightarrow> Device" where
  "set_vlans m d = d\<lparr>dv_running_config := (dv_running_config d)\<lparr>rc_vlans := m\<rparr>\<rparr>"

definition create_vlan :: "VlanId \<Rightarrow> Device \<Rightarrow> DeviceError + Device" where
  "create_vlan vlan d =
     (if \<not> supports_switching d then Inl NotSwitchport
      else Inr (if bt_get (vlans d) vlan = None then set_vlans (bt_insert vlan \<lparr>vc_name = []\<rparr> (vlans d)) d else d))"

definition remove_vlan :: "VlanId \<Rightarrow> Device \<Rightarrow> DeviceError + Device" where
  "remove_vlan vlan d =
     (if \<not> supports_switching d then Inl NotSwitchport
      else if vlan = VlanId_DEFAULT then Inl DefaultVlan
      else Inr (set_vlans (bt_remove vlan (vlans d)) d
             \<lparr>dv_mac_table := filter (\<lambda>((v, _), _). v \<noteq> vlan) (dv_mac_table d), dv_stp_runtime := bt_remove vlan (dv_stp_runtime d)\<rparr>))"

definition is_graphic :: "char \<Rightarrow> bool" where
  "is_graphic c = (33 \<le> (of_char c :: nat) \<and> (of_char c :: nat) \<le> 126)"

definition set_vlan_name :: "VlanId \<Rightarrow> string \<Rightarrow> Device \<Rightarrow> DeviceError + Device" where
  "set_vlan_name vlan name d =
     (if name = [] \<or> 32 < length name \<or> \<not> list_all is_graphic name then Inl InvalidVlanName
      else case bt_get (vlans d) vlan of
          None \<Rightarrow> Inl NotSwitchport
        | Some v \<Rightarrow> Inr (set_vlans (bt_insert vlan (v\<lparr>vc_name := name\<rparr>) (vlans d)) d))"

text \<open>\<open>switchport_mut\<close>: apply a change to the switchport of an interface.\<close>

definition with_switchport :: "InterfaceId \<Rightarrow> (SwitchportConfig \<Rightarrow> SwitchportConfig) \<Rightarrow> Device \<Rightarrow> DeviceError + Device" where
  "with_switchport port change d =
     (case if_config d port of
        None \<Rightarrow> Inl MissingInterface
      | Some c \<Rightarrow>
          (case if_switchport c of
             None \<Rightarrow> Inl NotSwitchport
           | Some sp \<Rightarrow> with_config port (\<lambda>c. c\<lparr>if_switchport := Some (change sp)\<rparr>) d))"

definition in_channel :: "u16 \<Rightarrow> InterfaceConfig \<Rightarrow> bool" where
  "in_channel number c = (case if_channel_group c of None \<Rightarrow> False | Some g \<Rightarrow> cm_number g = number)"

definition sync_channel_switchports :: "InterfaceId \<Rightarrow> Device \<Rightarrow> Device" where
  "sync_channel_switchports port d =
     (case if_config d port of
        None \<Rightarrow> d
      | Some policy \<Rightarrow>
          (case if_port_channel policy of
             None \<Rightarrow> d
           | Some number \<Rightarrow>
               d\<lparr>dv_running_config := (dv_running_config d)\<lparr>rc_interfaces :=
                   map (\<lambda>(p, c). (p, if in_channel number c then c\<lparr>if_switchport := if_switchport policy\<rparr> else c)) (if_configs d)\<rparr>\<rparr>))"

definition forget_macs :: "InterfaceId \<Rightarrow> Device \<Rightarrow> Device" where
  "forget_macs port d = d\<lparr>dv_mac_table := filter (\<lambda>(_, e). me_interface e \<noteq> port) (dv_mac_table d)\<rparr>"

definition channel_or_ethernet :: "Device \<Rightarrow> InterfaceId \<Rightarrow> bool" where
  "channel_or_ethernet d port =
     (case bt_get (dv_interfaces d) port of None \<Rightarrow> False | Some i \<Rightarrow> is_ethernet (it_kind i) \<or> it_kind i = PortChannel)"

definition enable_switchport :: "InterfaceId \<Rightarrow> Device \<Rightarrow> DeviceError + Device" where
  "enable_switchport port d =
     (if \<not> supports_switching d \<or> \<not> channel_or_ethernet d port then Inl NotSwitchport
      else map_result (sync_channel_switchports port)
        (with_config port (\<lambda>c. c\<lparr>if_ipv4 := None, if_ipv6 := Ipv6InterfacePolicy_default, if_dhcp_client := False,
           if_switchport := (case if_switchport c of None \<Rightarrow> Some SwitchportConfig_default | Some sp \<Rightarrow> Some sp)\<rparr>) d))"

definition disable_switchport :: "InterfaceId \<Rightarrow> Device \<Rightarrow> DeviceError + Device" where
  "disable_switchport port d =
     (if dv_device_type d \<noteq> Layer3Switch \<or> \<not> channel_or_ethernet d port then Inl NotRoutedPort
      else map_result (\<lambda>d1. forget_macs port (sync_channel_switchports port d1)) (with_config port (\<lambda>c. c\<lparr>if_switchport := None\<rparr>) d))"

definition change_switchport :: "InterfaceId \<Rightarrow> (SwitchportConfig \<Rightarrow> SwitchportConfig) \<Rightarrow> Device \<Rightarrow> DeviceError + Device" where
  "change_switchport port change d =
     map_result (\<lambda>d1. forget_macs port (sync_channel_switchports port d1)) (with_switchport port change d)"

definition set_switchport_mode :: "InterfaceId \<Rightarrow> SwitchportMode \<Rightarrow> Device \<Rightarrow> DeviceError + Device" where
  "set_switchport_mode port mode d =
     and_then (if dv_device_type d = Layer3Switch \<and> \<not> is_switchport d port then enable_switchport port d else Inr d)
       (change_switchport port (\<lambda>sp. sp\<lparr>sp_mode := mode\<rparr>))"

definition set_access_vlan :: "InterfaceId \<Rightarrow> VlanId \<Rightarrow> Device \<Rightarrow> DeviceError + Device" where
  "set_access_vlan port vlan d = change_switchport port (\<lambda>sp. sp\<lparr>sp_access_vlan := vlan\<rparr>) d"

definition set_trunk_allowed_vlans :: "InterfaceId \<Rightarrow> VlanId set \<Rightarrow> Device \<Rightarrow> DeviceError + Device" where
  "set_trunk_allowed_vlans port allowed d = change_switchport port (\<lambda>sp. sp\<lparr>sp_trunk_allowed_vlans := Some allowed\<rparr>) d"

definition set_native_vlan :: "InterfaceId \<Rightarrow> VlanId \<Rightarrow> Device \<Rightarrow> DeviceError + Device" where
  "set_native_vlan port vlan d = change_switchport port (\<lambda>sp. sp\<lparr>sp_native_vlan := vlan\<rparr>) d"

section \<open>Bundles\<close>

definition is_port_channel :: "Device \<Rightarrow> InterfaceId \<Rightarrow> bool" where
  "is_port_channel d port = (case if_config d port of None \<Rightarrow> False | Some c \<Rightarrow> if_port_channel c \<noteq> None)"

definition kind_of :: "Device \<Rightarrow> InterfaceId \<Rightarrow> InterfaceKind option" where
  "kind_of d port = map_option it_kind (bt_get (dv_interfaces d) port)"

definition other_members :: "Device \<Rightarrow> InterfaceId \<Rightarrow> u16 \<Rightarrow> (InterfaceId \<times> InterfaceConfig) list" where
  "other_members d port number = filter (\<lambda>(p, c). p \<noteq> port \<and> in_channel number c) (if_configs d)"

text \<open>The checks of a new member that need no logical interface.\<close>

definition member_refused :: "Device \<Rightarrow> InterfaceId \<Rightarrow> u16 \<Rightarrow> ChannelMode \<Rightarrow> InterfaceConfig \<Rightarrow> bool" where
  "member_refused d port number mode config =
     (if_ipv4 config \<noteq> None \<or> Ipv6InterfacePolicy_active (if_ipv6 config) \<or> if_dhcp_client config \<or>
      (case if_channel_group config of None \<Rightarrow> False | Some g \<Rightarrow> cm_number g \<noteq> number) \<or>
      list_ex (\<lambda>(_, other). if_parent other = Some port) (if_configs d) \<or>
      8 \<le> length (other_members d port number) \<or>
      list_ex (\<lambda>(p, other). kind_of d p \<noteq> kind_of d port \<or>
        (case if_channel_group other of None \<Rightarrow> False | Some g \<Rightarrow> (cm_mode g = ChannelOn) \<noteq> (mode = ChannelOn)))
        (other_members d port number))"

definition channel_label :: "u16 \<Rightarrow> string" where
  "channel_label number = ''Port-channel'' @ decimal (unat number)"

definition channel_for :: "string \<Rightarrow> InterfaceConfig \<Rightarrow> Device \<Rightarrow> DeviceError + InterfaceId \<times> Device" where
  "channel_for name config d =
     (case find_interface d name of
        Some logical \<Rightarrow>
          (case if_config d logical of
             None \<Rightarrow> Inl MissingInterface
           | Some c \<Rightarrow> if if_switchport c \<noteq> if_switchport config then Inl InvalidChannel else Inr (logical, d))
      | None \<Rightarrow>
          and_then (create_port_channel name d) (\<lambda>(logical, d1).
            and_then (with_config logical (\<lambda>c. c\<lparr>if_switchport := if_switchport config, if_mtu := if_mtu config\<rparr>) d1)
              (\<lambda>d2. Inr (logical, d2))))"

definition set_channel_group :: "InterfaceId \<Rightarrow> u16 \<Rightarrow> ChannelMode \<Rightarrow> Device \<Rightarrow> DeviceError + Device" where
  "set_channel_group port number mode d =
     (if number < 1 \<or> 4096 < number \<or> \<not> ethernet_port d port \<or> \<not> supports_routing d \<and> \<not> supports_switching d then Inl InvalidChannel
      else case if_config d port of
          None \<Rightarrow> Inl MissingInterface
        | Some config \<Rightarrow>
            if member_refused d port number mode config then Inl InvalidChannel
            else and_then (channel_for (channel_label number) config d) (\<lambda>(logical, d1).
              case if_config d1 logical of
                None \<Rightarrow> Inl MissingInterface
              | Some c \<Rightarrow>
                  if if_mtu c \<noteq> if_mtu config then Inl InvalidChannel
                  else map_result (forget_macs port)
                    (with_config port (\<lambda>c. c\<lparr>if_channel_group := Some \<lparr>cm_number = number, cm_mode = mode\<rparr>\<rparr>) d1)))"

definition clear_channel_group :: "InterfaceId \<Rightarrow> Device \<Rightarrow> DeviceError + Device" where
  "clear_channel_group port d =
     map_result (\<lambda>d1. d1\<lparr>dv_lacp_neighbors := bt_remove port (dv_lacp_neighbors d1)\<rparr>)
       (with_config port (\<lambda>c. c\<lparr>if_channel_group := None\<rparr>) d)"

definition mac_bytes :: "MacAddress \<Rightarrow> u8 list" where
  "mac_bytes m = (case m of MacAddress a b c d e f \<Rightarrow> [a, b, c, d, e, f])"

definition flow_hash :: "EthernetFrame \<Rightarrow> u64" where
  "flow_hash frame =
     foldl (\<lambda>hash byte. hash * 31 + ucast byte) 0 (mac_bytes (ef_source frame) @ mac_bytes (ef_destination frame))"

definition channel_egress :: "Device \<Rightarrow> InterfaceId \<Rightarrow> EthernetFrame \<Rightarrow> InterfaceId option" where
  "channel_egress d logical frame =
     (if \<not> protocol_up d logical then None
      else let members = channel_members d logical
           in if members = [] then None else Some (members ! (unat (flow_hash frame) mod length members)))"

definition channel_ingress :: "Device \<Rightarrow> InterfaceId \<Rightarrow> DropReason + InterfaceId" where
  "channel_ingress d member =
     (case channel_interface d member of
        None \<Rightarrow> Inr member
      | Some logical \<Rightarrow>
          if protocol_up d logical \<and> member \<in> set (channel_members d logical) then Inr logical else Inl ChannelInactive)"

section \<open>VLAN interfaces\<close>

definition svi_vlan :: "Device \<Rightarrow> InterfaceId \<Rightarrow> VlanId option" where
  "svi_vlan d port =
     (case bt_get (dv_interfaces d) port of
        None \<Rightarrow> None
      | Some i \<Rightarrow>
          if it_kind i \<noteq> VlanInterface then None
          else case if_config d port of
              None \<Rightarrow> None
            | Some c \<Rightarrow>
                (case Option.bind (strip_prefix ''Vlan'' (if_name c)) (parse_uint 65535) of
                   None \<Rightarrow> None
                 | Some n \<Rightarrow> (case VlanId_new (of_nat n) of Inl _ \<Rightarrow> None | Inr vlan \<Rightarrow> Some vlan)))"

definition active_svi :: "Device \<Rightarrow> VlanId \<Rightarrow> InterfaceId option" where
  "active_svi d vlan = find (\<lambda>port. svi_vlan d port = Some vlan \<and> protocol_up d port) (map fst (dv_interfaces d))"

definition trunk_allows :: "SwitchportConfig \<Rightarrow> VlanId \<Rightarrow> bool" where
  "trunk_allows sp vlan = (case sp_trunk_allowed_vlans sp of None \<Rightarrow> True | Some allowed \<Rightarrow> vlan \<in> allowed)"

definition svi_up :: "Device \<Rightarrow> VlanId \<Rightarrow> bool" where
  "svi_up d vlan =
     (bt_get (vlans d) vlan \<noteq> None \<and>
      list_ex (\<lambda>(port, c).
        (case if_switchport c of
           None \<Rightarrow> False
         | Some sp \<Rightarrow>
             if_channel_group c = None \<and> protocol_up d port \<and>
             (case sp_mode sp of Access \<Rightarrow> sp_access_vlan sp = vlan | Trunk \<Rightarrow> trunk_allows sp vlan))) (if_configs d))"

definition refresh_svi_states :: "Device \<Rightarrow> Device option" where
  "refresh_svi_states d =
     (if list_ex (\<lambda>(port, i). it_kind i = VlanInterface \<and> svi_vlan d port = None) (dv_interfaces d) then None
      else Some (d\<lparr>dv_interfaces := map (\<lambda>(port, i).
        (port, if it_kind i = VlanInterface
               then i\<lparr>it_link_state := if svi_up d (the (svi_vlan d port)) then Up else Down\<rparr> else i)) (dv_interfaces d)\<rparr>))"

definition cut_stp_port :: "InterfaceId \<Rightarrow> StpInstance \<Rightarrow> StpInstance" where
  "cut_stp_port port s =
     s\<lparr>si_received := bt_remove port (si_received s), si_agreed := si_agreed s - {port}, si_transitions := bt_remove port (si_transitions s)\<rparr>"

definition set_link_state :: "InterfaceId \<Rightarrow> LinkState \<Rightarrow> Device \<Rightarrow> DeviceError + Device" where
  "set_link_state port state d =
     (case bt_get (dv_interfaces d) port of
        None \<Rightarrow> Inl MissingInterface
      | Some i \<Rightarrow>
          let d1 = d\<lparr>dv_interfaces := bt_insert port (i\<lparr>it_link_state := state\<rparr>) (dv_interfaces d)\<rparr>
          in Inr (if state = Down
                  then forget_macs port (d1\<lparr>dv_lacp_neighbors := bt_remove port (dv_lacp_neighbors d1),
                         dv_stp_runtime := map (\<lambda>(v, s). (v, cut_stp_port port s)) (dv_stp_runtime d1)\<rparr>)
                  else d1))"

section \<open>LACP\<close>

definition lacp_refused :: "LacpPortInfo \<Rightarrow> Lacpdu \<Rightarrow> bool" where
  "lacp_refused actor pdu =
     (let peer = la_actor pdu
      in lp_system peer = lp_system actor \<or> lp_system peer = MacAddress 0 0 0 0 0 0 \<or> hd (mac_bytes (lp_system peer)) AND 1 \<noteq> 0 \<or>
         lp_port peer = 0 \<or> lp_state peer AND LACP_AGGREGATION = 0)"

definition receive_lacp :: "InterfaceId \<Rightarrow> Lacpdu \<Rightarrow> SimTime \<Rightarrow> Device \<Rightarrow> (Lacpdu option \<times> Device) option" where
  "receive_lacp port pdu now d =
     (case lacp_actor d port of
        None \<Rightarrow> Some (None, d)
      | Some actor \<Rightarrow>
          if lacp_refused actor pdu then Some (None, d)
          else let before = lacp_advertisement d port;
                   neighbor = \<lparr>ln_pdu = pdu, ln_expires_at = saturating_add now 3000000\<rparr>
               in map_option (\<lambda>d1. let after = lacp_advertisement d1 port in (if before \<noteq> after then after else None, d1))
                    (refresh_svi_states (d\<lparr>dv_lacp_neighbors := bt_insert port neighbor (dv_lacp_neighbors d)\<rparr>)))"

definition lacp_tick :: "SimTime \<Rightarrow> Device \<Rightarrow> ((InterfaceId \<times> Lacpdu) list \<times> Device) option" where
  "lacp_tick now d =
     map_option (\<lambda>d1. (List.map_filter (\<lambda>port. map_option (Pair port) (lacp_advertisement d1 port)) (map fst (if_configs d1)), d1))
       (refresh_svi_states (d\<lparr>dv_lacp_neighbors := filter (\<lambda>(_, n). now < ln_expires_at n) (dv_lacp_neighbors d)\<rparr>))"

definition has_lacp :: "Device \<Rightarrow> bool" where
  "has_lacp d = list_ex (\<lambda>(_, c). (case if_channel_group c of None \<Rightarrow> False | Some g \<Rightarrow> cm_mode g \<noteq> ChannelOn)) (if_configs d)"

section \<open>Subinterfaces\<close>

definition set_dot1q :: "InterfaceId \<Rightarrow> VlanId \<Rightarrow> bool \<Rightarrow> Device \<Rightarrow> DeviceError + Device" where
  "set_dot1q port vlan native d =
     (case Option.bind (if_config d port) if_parent of
        None \<Rightarrow> Inl NotSubinterface
      | Some parent \<Rightarrow>
          if list_ex (\<lambda>(other, c). other \<noteq> port \<and> if_parent c = Some parent \<and>
               (case if_dot1q c of None \<Rightarrow> False | Some tag \<Rightarrow> dq_vlan tag = vlan \<or> dq_native tag \<and> native)) (if_configs d)
          then Inl DuplicateEncapsulation
          else map_result (\<lambda>d1. d1\<lparr>dv_arp_cache := filter (\<lambda>(_, e). ae_interface e \<noteq> port) (dv_arp_cache d1)\<rparr>)
                 (with_config port (\<lambda>c. c\<lparr>if_dot1q := Some \<lparr>dq_vlan = vlan, dq_native = native\<rparr>\<rparr>) d))"

definition subinterface_egress :: "Device \<Rightarrow> InterfaceId \<Rightarrow> EthernetFrame \<Rightarrow> (InterfaceId \<times> EthernetFrame) option" where
  "subinterface_egress d port frame =
     (case if_config d port of
        None \<Rightarrow> None
      | Some c \<Rightarrow>
          (case (if_dot1q c, if_parent c) of
             (Some tag, Some parent) \<Rightarrow>
               if protocol_up d port
               then Some (parent, if dq_native tag then frame else EthernetFrame_tagged frame (dq_vlan tag)) else None
           | _ \<Rightarrow> None))"

definition selects :: "InterfaceId \<Rightarrow> VlanId option \<Rightarrow> InterfaceConfig \<Rightarrow> bool" where
  "selects parent vlan c =
     (if_parent c = Some parent \<and>
      (case if_dot1q c of
         None \<Rightarrow> False
       | Some tag \<Rightarrow> (case vlan of None \<Rightarrow> dq_native tag | Some v \<Rightarrow> dq_vlan tag = v)))"

definition routed_ingress :: "Device \<Rightarrow> InterfaceId \<Rightarrow> EthernetFrame \<Rightarrow> (InterfaceId \<times> EthernetFrame) option" where
  "routed_ingress d parent frame =
     (let tagged = (ef_ethertype frame = Dot1Q)
      in case (if tagged then (case EthernetFrame_untagged frame of Inl _ \<Rightarrow> None | Inr (vlan, inner) \<Rightarrow> Some (Some vlan, inner))
               else Some (None, frame)) of
           None \<Rightarrow> None
         | Some (vlan, inner) \<Rightarrow>
             (case find (\<lambda>(_, c). selects parent vlan c) (if_configs d) of
                Some (port, _) \<Rightarrow> if protocol_up d port then Some (port, inner) else None
              | None \<Rightarrow> if tagged then None else Some (parent, inner)))"

section \<open>Switching\<close>

definition classify_switch_ingress :: "Device \<Rightarrow> InterfaceId \<Rightarrow> EthernetFrame \<Rightarrow> (VlanId \<times> EthernetFrame) option" where
  "classify_switch_ingress d port frame =
     (case Option.bind (if_config d port) if_switchport of
        None \<Rightarrow> None
      | Some sp \<Rightarrow>
          (case (case sp_mode sp of
                   Access \<Rightarrow> if ef_ethertype frame \<noteq> Dot1Q then Some (sp_access_vlan sp, frame) else None
                 | Trunk \<Rightarrow>
                     if ef_ethertype frame = Dot1Q
                     then (case EthernetFrame_untagged frame of Inl _ \<Rightarrow> None | Inr r \<Rightarrow> Some r)
                     else Some (sp_native_vlan sp, frame)) of
             None \<Rightarrow> None
           | Some (vlan, inner) \<Rightarrow>
               if (sp_mode sp = Access \<or> trunk_allows sp vlan) \<and> bt_get (vlans d) vlan \<noteq> None then Some (vlan, inner) else None))"

definition prepare_switch_egress :: "Device \<Rightarrow> InterfaceId \<Rightarrow> VlanId \<Rightarrow> EthernetFrame \<Rightarrow> EthernetFrame option" where
  "prepare_switch_egress d port vlan frame =
     (case Option.bind (if_config d port) if_switchport of
        None \<Rightarrow> None
      | Some sp \<Rightarrow>
          (case sp_mode sp of
             Access \<Rightarrow> if sp_access_vlan sp = vlan then Some frame else None
           | Trunk \<Rightarrow>
               if trunk_allows sp vlan
               then Some (if sp_native_vlan sp = vlan then frame else EthernetFrame_tagged frame vlan) else None))"

end
