(* ===== verification/Dev_Layers.thy ===== *)
theory Dev_Layers
  imports Dev_Ports Machine
begin

text \<open>
  The invariant of the interfaces of a device. It is stated over three views of the device: the kind and
  the configuration of each interface and the ports with an LACP neighbour. Inventory and configuration
  hold the same interfaces, names are canonical and unique, only Ethernet ports are members of bundles or
  parents of subinterfaces, encapsulations are unique below a parent, bundles are homogeneous and have at
  most eight members, and an address is configured on no switchport and no member. Every operation of
  \<open>Dev_Ports\<close> keeps it.
\<close>

section \<open>The invariant\<close>

type_synonym kind_view = "InterfaceId \<Rightarrow> InterfaceKind option"
type_synonym config_view = "InterfaceId \<Rightarrow> InterfaceConfig option"

definition ether :: "kind_view \<Rightarrow> InterfaceId \<Rightarrow> bool" where
  "ether K port = (case K port of None \<Rightarrow> False | Some k \<Rightarrow> is_ethernet k)"

definition routed :: "InterfaceConfig \<Rightarrow> bool" where
  "routed c = (if_switchport c \<noteq> None \<or> if_channel_group c \<noteq> None \<longrightarrow> if_ipv4 c = None)"

definition port_ok :: "kind_view \<Rightarrow> config_view \<Rightarrow> InterfaceKind \<Rightarrow> InterfaceConfig \<Rightarrow> bool" where
  "port_ok K C k c =
     (canonical_interface (if_name c) = Inr (if_name c, k) \<and> routed c \<and>
      (\<forall>g. if_channel_group c = Some g \<longrightarrow>
         is_ethernet k \<and> (\<exists>p' c'. C p' = Some c' \<and> if_port_channel c' = Some (cm_number g))) \<and>
      (\<forall>parent. if_parent c = Some parent \<longrightarrow> k = EthernetSubinterface \<and> ether K parent) \<and>
      (if_dot1q c \<noteq> None \<longrightarrow> if_parent c \<noteq> None) \<and> (if_port_channel c \<noteq> None \<longrightarrow> k = PortChannel) \<and>
      (k = PortChannel \<longrightarrow> (\<exists>n. if_port_channel c = Some n \<and> if_name c = channel_label n)))"

definition members :: "config_view \<Rightarrow> u16 \<Rightarrow> InterfaceId set" where
  "members C number = {p. \<exists>c. C p = Some c \<and> in_channel number c}"

definition fixed_mode :: "InterfaceConfig \<Rightarrow> bool" where
  "fixed_mode c = (case if_channel_group c of None \<Rightarrow> False | Some g \<Rightarrow> cm_mode g = ChannelOn)"

definition names_unique :: "config_view \<Rightarrow> bool" where
  "names_unique C = (\<forall>p p' c c'. C p = Some c \<longrightarrow> C p' = Some c' \<longrightarrow> lower (if_name c) = lower (if_name c') \<longrightarrow> p = p')"

definition tags_differ :: "InterfaceConfig \<Rightarrow> InterfaceConfig \<Rightarrow> bool" where
  "tags_differ c c' =
     (\<forall>t t'. if_parent c = if_parent c' \<longrightarrow> if_dot1q c = Some t \<longrightarrow> if_dot1q c' = Some t' \<longrightarrow>
        dq_vlan t \<noteq> dq_vlan t' \<and> \<not> (dq_native t \<and> dq_native t'))"

definition tags_unique :: "config_view \<Rightarrow> bool" where
  "tags_unique C = (\<forall>p p' c c'. C p = Some c \<longrightarrow> C p' = Some c' \<longrightarrow> p \<noteq> p' \<longrightarrow> tags_differ c c')"

definition bundles_ok :: "kind_view \<Rightarrow> config_view \<Rightarrow> bool" where
  "bundles_ok K C =
     (\<forall>number. card (members C number) \<le> 8 \<and>
        (\<forall>p p' c c'. C p = Some c \<longrightarrow> C p' = Some c' \<longrightarrow> in_channel number c \<longrightarrow> in_channel number c' \<longrightarrow>
           K p = K p' \<and> fixed_mode c = fixed_mode c'))"

definition layers :: "kind_view \<Rightarrow> config_view \<Rightarrow> InterfaceId set \<Rightarrow> bool" where
  "layers K C L =
     ((\<forall>p. (K p = None) = (C p = None)) \<and> (\<forall>p. K p \<noteq> None \<longrightarrow> InterfaceId_value p \<le> 65535) \<and>
      (\<forall>p c k. C p = Some c \<longrightarrow> K p = Some k \<longrightarrow> port_ok K C k c) \<and> names_unique C \<and> tags_unique C \<and>
      bundles_ok K C \<and> (\<forall>p\<in>L. ether K p))"

definition neighbors :: "Device \<Rightarrow> InterfaceId set" where
  "neighbors d = fst ` set (dv_lacp_neighbors d)"

definition ports_inv :: "Device \<Rightarrow> bool" where
  "ports_inv d = (bt_wf (dv_interfaces d) \<and> bt_wf (if_configs d) \<and> layers (kind_of d) (if_config d) (neighbors d))"

lemma layers_kind:
  assumes "layers K C L" "K p = Some k"
  obtains c where "C p = Some c" "port_ok K C k c"
proof -
  have "C p \<noteq> None" using assms unfolding layers_def by (metis option.distinct(1))
  then show thesis using assms that unfolding layers_def by blast
qed

lemma layers_config:
  assumes "layers K C L" "C p = Some c"
  obtains k where "K p = Some k" "port_ok K C k c"
proof -
  have "K p \<noteq> None" using assms unfolding layers_def by (metis option.distinct(1))
  then show thesis using assms that unfolding layers_def by blast
qed

section \<open>Changes that keep the layering\<close>

text \<open>The part of a configuration that the layering depends on, apart from addresses.\<close>

definition shape :: "InterfaceConfig \<Rightarrow> string \<times> ChannelMembership option \<times> InterfaceId option \<times> Dot1qEncapsulation option \<times> u16 option" where
  "shape c = (if_name c, if_channel_group c, if_parent c, if_dot1q c, if_port_channel c)"

lemma shape_eqD:
  assumes "shape c' = shape c"
  shows "if_name c' = if_name c" "if_channel_group c' = if_channel_group c" "if_parent c' = if_parent c" "if_dot1q c' = if_dot1q c"
    "if_port_channel c' = if_port_channel c" "in_channel n c' = in_channel n c" "fixed_mode c' = fixed_mode c"
  using assms by (simp_all add: shape_def in_channel_def fixed_mode_def)

definition same_shape :: "config_view \<Rightarrow> config_view \<Rightarrow> bool" where
  "same_shape C C' = (\<forall>p. rel_option (\<lambda>c c'. shape c' = shape c \<and> (routed c \<longrightarrow> routed c')) (C p) (C' p))"

lemma same_shapeD:
  assumes "same_shape C C'"
  shows "(C' p = None) = (C p = None)" and "C' p = Some c' \<Longrightarrow> \<exists>c. C p = Some c \<and> shape c' = shape c \<and> (routed c \<longrightarrow> routed c')"
    and "C p = Some c \<Longrightarrow> \<exists>c'. C' p = Some c' \<and> shape c' = shape c \<and> (routed c \<longrightarrow> routed c')"
proof -
  have r: "rel_option (\<lambda>c c'. shape c' = shape c \<and> (routed c \<longrightarrow> routed c')) (C p) (C' p)" using assms by (simp add: same_shape_def)
  show "(C' p = None) = (C p = None)" using r by (cases "C p"; cases "C' p") auto
  show "C' p = Some c' \<Longrightarrow> \<exists>c. C p = Some c \<and> shape c' = shape c \<and> (routed c \<longrightarrow> routed c')" using r by (cases "C p") auto
  show "C p = Some c \<Longrightarrow> \<exists>c'. C' p = Some c' \<and> shape c' = shape c \<and> (routed c \<longrightarrow> routed c')" using r by (cases "C' p") auto
qed

lemma members_same_shape: "same_shape C C' \<Longrightarrow> members C' n = members C n"
proof -
  assume s: "same_shape C C'"
  have "(\<exists>c. C' p = Some c \<and> in_channel n c) \<longleftrightarrow> (\<exists>c. C p = Some c \<and> in_channel n c)" for p
  proof (cases "C p")
    case None
    then show ?thesis using same_shapeD(1) [OF s, of p] by simp
  next
    case (Some c)
    then obtain c' where c': "C' p = Some c'" "shape c' = shape c" using same_shapeD(3) [OF s] by blast
    then show ?thesis using Some shape_eqD(6) [OF c'(2)] by simp
  qed
  then show ?thesis by (simp add: members_def)
qed

lemma tags_differ_shape: "shape c' = shape c \<Longrightarrow> shape e' = shape e \<Longrightarrow> tags_differ c' e' = tags_differ c e"
  by (simp add: tags_differ_def shape_def)

lemma layers_same_shape:
  assumes "layers K C L" "same_shape C C'" "L' \<subseteq> L"
  shows "layers K C' L'"
  unfolding layers_def
proof (intro conjI)
  note l = assms(1) [unfolded layers_def] and s = same_shapeD [OF assms(2)]
  show "\<forall>p. (K p = None) = (C' p = None)" "\<forall>p\<in>L'. ether K p" using l s(1) assms(3) by auto
  show "\<forall>p. K p \<noteq> None \<longrightarrow> InterfaceId_value p \<le> 65535" using l by blast
  show "\<forall>p c k. C' p = Some c \<longrightarrow> K p = Some k \<longrightarrow> port_ok K C' k c"
  proof (intro allI impI)
    fix p c' k assume "C' p = Some c'" "K p = Some k"
    then obtain c where c: "C p = Some c" "shape c' = shape c" "routed c \<longrightarrow> routed c'" using s(2) by blast
    then have "port_ok K C k c" using l \<open>K p = Some k\<close> by blast
    moreover have "\<exists>q e. C' q = Some e \<and> if_port_channel e = Some n" if "C q = Some e" "if_port_channel e = Some n" for q e n
      using s(3) [OF that(1)] that(2) shape_eqD(5) by metis
    ultimately show "port_ok K C' k c'" using c(3) unfolding port_ok_def shape_eqD [OF c(2)] by blast
  qed
  show "names_unique C'"
    unfolding names_unique_def
  proof (intro allI impI)
    fix p p' c c' assume "C' p = Some c" "C' p' = Some c'" and n: "lower (if_name c) = lower (if_name c')"
    then obtain e e' where "C p = Some e" "shape c = shape e" "C p' = Some e'" "shape c' = shape e'" using s(2) by metis
    then show "p = p'" using l n unfolding names_unique_def by (metis shape_eqD(1))
  qed
  show "tags_unique C'"
    unfolding tags_unique_def
  proof (intro allI impI)
    fix p p' c c' assume "C' p = Some c" "C' p' = Some c'" "p \<noteq> p'"
    moreover then obtain e e' where e: "C p = Some e" "shape c = shape e" "C p' = Some e'" "shape c' = shape e'" using s(2) by metis
    ultimately have "tags_differ e e'" using l unfolding tags_unique_def by blast
    then show "tags_differ c c'" using tags_differ_shape [OF e(2, 4)] by simp
  qed
  show "bundles_ok K C'"
    unfolding bundles_ok_def members_same_shape [OF assms(2)]
  proof (intro allI conjI impI)
    fix n p p' c c' assume "C' p = Some c" "C' p' = Some c'" and i: "in_channel n c" "in_channel n c'"
    then obtain e e' where e: "C p = Some e" "shape c = shape e" "C p' = Some e'" "shape c' = shape e'" using s(2) by metis
    have "in_channel n e" "in_channel n e'" using i shape_eqD(6) [OF e(2)] shape_eqD(6) [OF e(4)] by simp_all
    then have "K p = K p' \<and> fixed_mode e = fixed_mode e'"
      using l e(1, 3) unfolding bundles_ok_def by blast
    then show "K p = K p'" "fixed_mode c = fixed_mode c'" using shape_eqD(7) [OF e(2)] shape_eqD(7) [OF e(4)] by simp_all
  qed (use l in \<open>simp add: bundles_ok_def\<close>)
qed

lemma members_fresh: "C p = None \<Longrightarrow> if_channel_group c = None \<Longrightarrow> members (C(p \<mapsto> c)) n = members C n"
  by (auto simp: members_def in_channel_def)

lemma ether_mono: "K p = None \<Longrightarrow> ether K q \<Longrightarrow> ether (K(p \<mapsto> k)) q"
  by (auto simp: ether_def)

text \<open>A new interface that belongs to no bundle.\<close>

lemma layers_fresh:
  assumes l: "layers K C L" and fresh: "K p = None" "InterfaceId_value p \<le> 65535"
    and name: "\<forall>q e. C q = Some e \<longrightarrow> lower (if_name e) \<noteq> lower (if_name c)"
    and plain: "if_channel_group c = None" "if_dot1q c = None" and ok: "port_ok K C k c"
  shows "layers (K(p \<mapsto> k)) (C(p \<mapsto> c)) L"
  unfolding layers_def
proof (intro conjI)
  note l' = l [unfolded layers_def]
  have Cp: "C p = None" using l' fresh(1) by auto
  have mono: "ether K q \<Longrightarrow> ether (K(p \<mapsto> k)) q" for q by (rule ether_mono [where K = K and p = p, OF fresh(1)])
  show "\<forall>q. ((K(p \<mapsto> k)) q = None) = ((C(p \<mapsto> c)) q = None)"
    "\<forall>q. (K(p \<mapsto> k)) q \<noteq> None \<longrightarrow> InterfaceId_value q \<le> 65535" "\<forall>q\<in>L. ether (K(p \<mapsto> k)) q"
    using l' fresh mono by (simp_all split: if_split_asm)
  show "\<forall>q e k'. (C(p \<mapsto> c)) q = Some e \<longrightarrow> (K(p \<mapsto> k)) q = Some k' \<longrightarrow> port_ok (K(p \<mapsto> k)) (C(p \<mapsto> c)) k' e"
  proof (intro allI impI)
    fix q e k' assume q: "(C(p \<mapsto> c)) q = Some e" "(K(p \<mapsto> k)) q = Some k'"
    have "port_ok K C k' e" using q l' ok by (cases "q = p") auto
    moreover have "\<exists>r f. (C(p \<mapsto> c)) r = Some f \<and> if_port_channel f = Some n" if "C r = Some f" "if_port_channel f = Some n" for r f n
      using that Cp by (intro exI [of _ r] exI [of _ f]) auto
    ultimately show "port_ok (K(p \<mapsto> k)) (C(p \<mapsto> c)) k' e"
      unfolding port_ok_def using mono by blast
  qed
  show "names_unique (C(p \<mapsto> c))"
    unfolding names_unique_def
  proof (intro allI impI)
    fix q q' e e' assume q: "(C(p \<mapsto> c)) q = Some e" "(C(p \<mapsto> c)) q' = Some e'" and n: "lower (if_name e) = lower (if_name e')"
    have old: "C r = Some f \<Longrightarrow> lower (if_name f) \<noteq> lower (if_name c)" for r f using name by blast
    have "q = p \<longleftrightarrow> q' = p" using q n old [of q e] old [of q' e'] by (cases "q = p"; cases "q' = p") auto
    moreover have "q = q'" if "q \<noteq> p" "q' \<noteq> p"
    proof -
      have "C q = Some e" "C q' = Some e'" using q that by simp_all
      moreover have "names_unique C" using l' by blast
      ultimately show ?thesis using n by (metis names_unique_def)
    qed
    ultimately show "q = q'" by blast
  qed
  show "tags_unique (C(p \<mapsto> c))"
    unfolding tags_unique_def
  proof (intro allI impI)
    fix q q' e e' assume q: "(C(p \<mapsto> c)) q = Some e" "(C(p \<mapsto> c)) q' = Some e'" "q \<noteq> q'"
    show "tags_differ e e'"
    proof (cases "q = p \<or> q' = p")
      case True
      then have "if_dot1q e = None \<or> if_dot1q e' = None" using q plain(2) by auto
      then show ?thesis by (auto simp: tags_differ_def)
    next
      case False
      then have "C q = Some e" "C q' = Some e'" using q by simp_all
      moreover have "tags_unique C" using l' by blast
      ultimately show ?thesis using q(3) by (simp add: tags_unique_def)
    qed
  qed
  have b: "bundles_ok K C" using l' by blast
  show "bundles_ok (K(p \<mapsto> k)) (C(p \<mapsto> c))"
    unfolding bundles_ok_def members_fresh [where C = C and p = p and c = c, OF Cp plain(1)]
  proof (intro allI conjI impI)
    fix n q q' e e' assume q: "(C(p \<mapsto> c)) q = Some e" "(C(p \<mapsto> c)) q' = Some e'" "in_channel n e" "in_channel n e'"
    have "\<not> in_channel n c" by (simp add: in_channel_def plain(1))
    then have "q \<noteq> p" "q' \<noteq> p" using q by auto
    moreover then have "K q = K q' \<and> fixed_mode e = fixed_mode e'" using b q unfolding bundles_ok_def by (metis fun_upd_other)
    ultimately show "(K(p \<mapsto> k)) q = (K(p \<mapsto> k)) q'" "fixed_mode e = fixed_mode e'" by simp_all
  qed (use b in \<open>simp add: bundles_ok_def\<close>)
qed

section \<open>Views of the operations\<close>

lemma with_config_views:
  assumes "with_config p f d = Inr d'"
  obtains c where "if_config d p = Some c" "if_config d' = (if_config d)(p \<mapsto> f c)" "kind_of d' = kind_of d"
    "neighbors d' = neighbors d" "dv_interfaces d' = dv_interfaces d" "bt_wf (if_configs d) \<longrightarrow> bt_wf (if_configs d')"
proof -
  obtain c where c: "if_config d p = Some c"
    and d': "d' = d\<lparr>dv_running_config := (dv_running_config d)\<lparr>rc_interfaces := bt_insert p (f c) (if_configs d)\<rparr>\<rparr>"
    using assms by (auto simp: with_config_def split: option.splits)
  have "if_config d' = (if_config d)(p \<mapsto> f c)" by (rule ext) (simp add: if_config_def d' bt_get_insert)
  moreover have "kind_of d' = kind_of d" by (rule ext) (simp add: kind_of_def d')
  ultimately show thesis using that c by (simp add: d' neighbors_def bt.wf_insert)
qed

lemma ports_inv_cong:
  assumes "ports_inv d" "dv_interfaces d' = dv_interfaces d" "if_configs d' = if_configs d" "neighbors d' \<subseteq> neighbors d"
  shows "ports_inv d'"
proof -
  have "kind_of d' = kind_of d" "if_config d' = if_config d"
    using assms(2, 3) by (auto simp: kind_of_def if_config_def fun_eq_iff)
  moreover have "same_shape (if_config d) (if_config d)" by (simp add: same_shape_def option.rel_refl)
  ultimately show ?thesis
    using assms layers_same_shape [of "kind_of d" "if_config d" "neighbors d" "if_config d" "neighbors d'"] by (simp add: ports_inv_def)
qed

lemma ports_inv_config:
  assumes "ports_inv d" "with_config p f d = Inr d'"
    and "\<And>c. if_config d p = Some c \<Longrightarrow> shape (f c) = shape c" "\<And>c. if_config d p = Some c \<Longrightarrow> routed c \<Longrightarrow> routed (f c)"
  shows "ports_inv d'"
proof -
  obtain c where c: "if_config d p = Some c" "if_config d' = (if_config d)(p \<mapsto> f c)" and v: "kind_of d' = kind_of d"
    "neighbors d' = neighbors d" "dv_interfaces d' = dv_interfaces d" "bt_wf (if_configs d) \<longrightarrow> bt_wf (if_configs d')"
    using with_config_views [OF assms(2)] .
  have "same_shape (if_config d) (if_config d')"
    unfolding same_shape_def using assms(3, 4) [OF c(1)] c by (auto simp: option.rel_refl)
  then show ?thesis using assms(1) v layers_same_shape by (auto simp: ports_inv_def)
qed

lemma find_interface_Some:
  assumes "ports_inv d" "find_interface d name = Some p"
  shows "\<exists>c. if_config d p = Some c \<and> lower (if_name c) = lower name"
proof -
  obtain c where "(p, c) \<in> set (if_configs d)" "lower (if_name c) = lower name"
    using assms(2) by (fastforce simp: find_interface_def find_Some_iff in_set_conv_nth)
  then show ?thesis
    using assms(1) bt.entries_get [of "if_configs d" p c] by (auto simp: if_config_def ports_inv_def)
qed

lemma find_interface_None: "find_interface d name = None \<Longrightarrow> if_config d p = Some c \<Longrightarrow> lower (if_name c) \<noteq> lower name"
  using if_config_in [of d p c] by (auto simp: find_interface_def find_None_iff)

text \<open>The names that the operations look up are canonical, so a match in lower case is the same name of the same kind.\<close>

lemma same_name:
  assumes "canonical_interface a = Inr (a, k)" "canonical_interface b = Inr (b, k')" "lower a = lower b"
  shows "a = b \<and> k = k'"
proof -
  have "accepted (canonical_interface a) = accepted (canonical_interface b)"
    using canonical_lower [of a] canonical_lower [of b] assms(3) by simp
  then show ?thesis using assms(1, 2) by simp
qed

lemma find_interface_canonical:
  assumes "ports_inv d" "find_interface d name = Some p" "canonical_interface name = Inr (name, k)"
  obtains c where "if_config d p = Some c" "if_name c = name" "kind_of d p = Some k" "port_ok (kind_of d) (if_config d) k c"
proof -
  obtain c where c: "if_config d p = Some c" "lower (if_name c) = lower name" using find_interface_Some [OF assms(1, 2)] by blast
  have l: "layers (kind_of d) (if_config d) (neighbors d)" using assms(1) by (simp add: ports_inv_def)
  then obtain k' where k': "kind_of d p = Some k'" using c(1) by (fastforce simp: layers_def)
  then have ok: "port_ok (kind_of d) (if_config d) k' c" using l c(1) by (auto simp: layers_def)
  then have "if_name c = name \<and> k' = k" using assms(3) c(2) by (intro same_name) (auto simp: port_ok_def)
  then show thesis using that c(1) k' ok by simp
qed

lemma ports_inv_interface:
  assumes "ports_inv d" "bt_get (dv_interfaces d) p = Some i"
    and "d' = d\<lparr>dv_interfaces := bt_insert p (i\<lparr>it_mac_address := mac\<rparr>) (dv_interfaces d)\<rparr> \<or>
      d' = d\<lparr>dv_interfaces := bt_insert p (i\<lparr>it_link_state := state\<rparr>) (dv_interfaces d)\<rparr>"
  shows "ports_inv d'"
proof -
  have "kind_of d' = kind_of d" using assms(2, 3) by (auto simp: kind_of_def bt_get_insert fun_eq_iff)
  moreover have "if_config d' = if_config d" "neighbors d' = neighbors d" "if_configs d' = if_configs d"
    using assms(3) by (auto simp: if_config_def neighbors_def fun_eq_iff)
  moreover have "bt_wf (dv_interfaces d')" using assms(1, 3) by (auto simp: ports_inv_def bt.wf_insert)
  ultimately show ?thesis using assms(1) by (simp add: ports_inv_def)
qed

section \<open>Configuration operations\<close>

lemma forget_keep:
  "dv_interfaces (forget_macs p d) = dv_interfaces d" "if_configs (forget_macs p d) = if_configs d" "neighbors (forget_macs p d) = neighbors d"
  "dv_interfaces (forget_lease p d) = dv_interfaces d" "if_configs (forget_lease p d) = if_configs d" "neighbors (forget_lease p d) = neighbors d"
  by (simp_all add: forget_macs_def forget_lease_def neighbors_def)

lemma ports_inv_forget: "ports_inv d \<Longrightarrow> ports_inv (forget_macs p d)" "ports_inv d \<Longrightarrow> ports_inv (forget_lease p d)"
  by (auto intro: ports_inv_cong simp: forget_keep)

lemma set_description_inv: "ports_inv d \<Longrightarrow> set_description p text d = Inr d' \<Longrightarrow> ports_inv d'"
  by (auto simp: set_description_def shape_def routed_def elim: ports_inv_config split: if_splits)

lemma clear_description_inv: "ports_inv d \<Longrightarrow> clear_description p d = Inr d' \<Longrightarrow> ports_inv d'"
  by (auto simp: clear_description_def shape_def routed_def elim: ports_inv_config)

lemma channel_interface_member:
  assumes "ports_inv d" "if_config d p = Some c" "if_channel_group c = Some g"
  shows "channel_interface d p \<noteq> None"
proof -
  have l: "layers (kind_of d) (if_config d) (neighbors d)" using assms(1) by (simp add: ports_inv_def)
  then obtain k where "kind_of d p = Some k" using assms(2) by (fastforce simp: layers_def)
  then have "port_ok (kind_of d) (if_config d) k c" using l assms(2) by (auto simp: layers_def)
  then obtain q e where "if_config d q = Some e" "if_port_channel e = Some (cm_number g)"
    using assms(3) by (auto simp: port_ok_def)
  then show ?thesis
    using assms(2, 3) if_config_in [of d q e] by (auto simp: channel_interface_def find_None_iff)
qed

lemma set_ipv4_inv: "ports_inv d \<Longrightarrow> set_ipv4 p ip d = Inr d' \<Longrightarrow> ports_inv d'"
proof -
  assume inv: "ports_inv d" and op: "set_ipv4 p ip d = Inr d'"
  then obtain d1 where d1: "with_config p (\<lambda>c. c\<lparr>if_ipv4 := Some ip, if_dhcp_client := False\<rparr>) d = Inr d1" and "d' = forget_lease p d1"
    and n: "channel_interface d p = None" "\<not> is_switchport d p"
    by (auto simp: set_ipv4_def map_result_Inr_iff split: if_splits)
  moreover have "ports_inv d1"
    using inv d1
  proof (rule ports_inv_config)
    fix c assume c: "if_config d p = Some c"
    show "shape (c\<lparr>if_ipv4 := Some ip, if_dhcp_client := False\<rparr>) = shape c" by (simp add: shape_def)
    have "if_switchport c = None" using n(2) c by (simp add: is_switchport_def)
    moreover have "if_channel_group c = None"
      using channel_interface_member [OF inv c] n(1) by (cases "if_channel_group c") auto
    ultimately show "routed (c\<lparr>if_ipv4 := Some ip, if_dhcp_client := False\<rparr>)" by (simp add: routed_def)
  qed
  ultimately show "ports_inv d'" by (simp add: ports_inv_forget)
qed

lemma clear_ipv4_inv: "ports_inv d \<Longrightarrow> clear_ipv4 p d = Inr d' \<Longrightarrow> ports_inv d'"
  by (auto simp: clear_ipv4_def map_result_Inr_iff shape_def routed_def intro!: ports_inv_forget elim: ports_inv_config)

lemma set_dhcp_client_inv: "ports_inv d \<Longrightarrow> set_dhcp_client p d = Inr d' \<Longrightarrow> ports_inv d'"
  by (auto simp: set_dhcp_client_def map_result_Inr_iff shape_def routed_def intro!: ports_inv_forget elim: ports_inv_config split: if_splits)

lemma neighbors_remove [simp]: "fst ` set (bt_remove p m) \<subseteq> fst ` set m"
  by (auto simp: bt_remove_def)

lemma set_admin_state_inv: "ports_inv d \<Longrightarrow> set_admin_state p s d = Inr d' \<Longrightarrow> ports_inv d'"
proof -
  assume inv: "ports_inv d" and op: "set_admin_state p s d = Inr d'"
  then obtain d1 where d1: "with_config p (\<lambda>c. c\<lparr>if_admin_state := s\<rparr>) d = Inr d1"
    and d': "dv_interfaces d' = dv_interfaces d1" "if_configs d' = if_configs d1" "neighbors d' \<subseteq> neighbors d1"
    by (auto simp: set_admin_state_def map_result_Inr_iff neighbors_def split: if_splits)
  have "ports_inv d1" using inv d1 by (rule ports_inv_config) (simp_all add: shape_def routed_def)
  then show "ports_inv d'" using d' by (rule ports_inv_cong)
qed

lemma vlan_inv:
  "ports_inv d \<Longrightarrow> create_vlan v d = Inr d' \<Longrightarrow> ports_inv d'" "ports_inv d \<Longrightarrow> remove_vlan v d = Inr d' \<Longrightarrow> ports_inv d'"
  "ports_inv d \<Longrightarrow> set_vlan_name v n d = Inr d' \<Longrightarrow> ports_inv d'" "ports_inv d \<Longrightarrow> set_hostname h d = Inr d' \<Longrightarrow> ports_inv d'"
  by (auto elim!: ports_inv_cong simp: create_vlan_def remove_vlan_def set_vlan_name_def set_hostname_def set_vlans_def neighbors_def
    split: if_splits option.splits)

lemma sync_inv: "ports_inv d \<Longrightarrow> ports_inv (sync_channel_switchports p d)"
proof -
  assume inv: "ports_inv d"
  show ?thesis
  proof (cases "Option.bind (if_config d p) if_port_channel")
    case None
    then show ?thesis using inv by (auto simp: sync_channel_switchports_def Option.bind_eq_None_conv split: option.splits)
  next
    case (Some n)
    then obtain policy where policy: "if_config d p = Some policy" "if_port_channel policy = Some n" by (auto simp: bind_eq_Some_conv)
    let ?f = "\<lambda>c. if in_channel n c then c\<lparr>if_switchport := if_switchport policy\<rparr> else c"
    let ?d = "d\<lparr>dv_running_config := (dv_running_config d)\<lparr>rc_interfaces := map (\<lambda>(p, c). (p, ?f c)) (if_configs d)\<rparr>\<rparr>"
    have s: "sync_channel_switchports p d = ?d" by (simp add: sync_channel_switchports_def policy)
    have "if_config ?d q = map_option ?f (if_config d q)" for q
      by (simp add: if_config_def bt_get_def map_of_map)
    moreover have "shape (?f c) = shape c \<and> (routed c \<longrightarrow> routed (?f c))" for c
      by (auto simp: shape_def routed_def in_channel_def split: option.splits)
    ultimately have "same_shape (if_config d) (if_config ?d)"
      unfolding same_shape_def by (simp add: option.rel_map option.rel_refl)
    moreover have "kind_of ?d = kind_of d" "neighbors ?d = neighbors d" by (auto simp: kind_of_def neighbors_def)
    moreover have "bt_wf (if_configs ?d) = bt_wf (if_configs d)" using bt_wf_map [of "\<lambda>_. ?f" "if_configs d"] by simp
    ultimately show ?thesis unfolding s using inv layers_same_shape by (auto simp: ports_inv_def)
  qed
qed

lemma enable_switchport_inv: "ports_inv d \<Longrightarrow> enable_switchport p d = Inr d' \<Longrightarrow> ports_inv d'"
  by (auto simp: enable_switchport_def map_result_Inr_iff shape_def routed_def intro!: sync_inv elim: ports_inv_config split: if_splits)

lemma disable_switchport_inv: "ports_inv d \<Longrightarrow> disable_switchport p d = Inr d' \<Longrightarrow> ports_inv d'"
  by (auto simp: disable_switchport_def map_result_Inr_iff shape_def routed_def intro!: sync_inv ports_inv_forget elim: ports_inv_config
    split: if_splits)

lemma change_switchport_inv: "ports_inv d \<Longrightarrow> change_switchport p f d = Inr d' \<Longrightarrow> ports_inv d'"
proof -
  assume inv: "ports_inv d" and op: "change_switchport p f d = Inr d'"
  then obtain d1 where d1: "with_switchport p f d = Inr d1" and d': "d' = forget_macs p (sync_channel_switchports p d1)"
    by (auto simp: change_switchport_def map_result_Inr_iff)
  then obtain c sp where c: "if_config d p = Some c" "if_switchport c = Some sp"
    and w: "with_config p (\<lambda>c. c\<lparr>if_switchport := Some (f sp)\<rparr>) d = Inr d1"
    by (auto simp: with_switchport_def split: option.splits)
  have "ports_inv d1" using inv w by (rule ports_inv_config) (use c in \<open>simp_all add: shape_def routed_def\<close>)
  then show "ports_inv d'" by (simp add: d' sync_inv ports_inv_forget)
qed

lemma set_switchport_mode_inv: "ports_inv d \<Longrightarrow> set_switchport_mode p m d = Inr d' \<Longrightarrow> ports_inv d'"
  by (auto simp: set_switchport_mode_def and_then_Inr_iff split: if_splits intro: change_switchport_inv enable_switchport_inv)

section \<open>New interfaces\<close>

lemma bt_wf_last_max: "bt_wf m \<Longrightarrow> (q, j) \<in> set m \<Longrightarrow> q \<le> fst (last m)"
proof (induction m)
  case (Cons x m)
  then have "bt_wf m" "\<forall>y\<in>set (map fst m). fst x < y" by (auto simp: bt_wf_def)
  then show ?case using Cons by (cases "m = []") (auto intro: less_imp_le)
qed simp

lemma insert_interface_views:
  assumes inv: "ports_inv d" and op: "insert_interface name kind media d = Inr (port, d')" and new: "find_interface d name = None"
  shows "kind_of d port = None" "InterfaceId_value port \<le> 65535" "kind_of d' = (kind_of d)(port \<mapsto> kind)"
    "if_config d' = (if_config d)(port \<mapsto> new_interface_config d name kind)" "neighbors d' = neighbors d"
    "bt_wf (dv_interfaces d')" "bt_wf (if_configs d')" "dv_device_type d' = dv_device_type d"
proof -
  let ?number = "if dv_interfaces d = [] then 1 else InterfaceId_value (fst (last (dv_interfaces d))) + 1"
  let ?i = "\<lparr>it_id = InterfaceId ?number, it_kind = kind, it_media = media, it_mac_address = interface_mac (dv_id d) ?number,
    it_link_state = Down, it_counters = new_counters\<rparr>"
  have small: "\<not> 65535 < ?number" and port: "port = InterfaceId ?number"
    and d': "d' = d\<lparr>dv_interfaces := bt_insert port ?i (dv_interfaces d),
      dv_running_config := (dv_running_config d)\<lparr>rc_interfaces := bt_insert port (new_interface_config d name kind) (if_configs d)\<rparr>\<rparr>"
    using op by (auto simp: insert_interface_def new Let_def split: if_splits)
  have wf: "bt_wf (dv_interfaces d)" and l: "layers (kind_of d) (if_config d) (neighbors d)" using inv by (simp_all add: ports_inv_def)
  show "InterfaceId_value port \<le> 65535" using small by (simp add: port)
  have "q < port" if "(q, j) \<in> set (dv_interfaces d)" for q j
  proof -
    have ne: "dv_interfaces d \<noteq> []" using that by auto
    have "kind_of d (fst (last (dv_interfaces d))) \<noteq> None"
      using bt.entries_get [OF wf, of "fst (last (dv_interfaces d))" "snd (last (dv_interfaces d))"] ne by (simp add: kind_of_def)
    then have "InterfaceId_value (fst (last (dv_interfaces d))) \<le> 65535" using l by (auto simp: layers_def)
    then have "fst (last (dv_interfaces d)) < port" using ne by (simp add: port less_InterfaceId_def word_less_nat_alt word_le_nat_alt unat_word_ariths)
    moreover have "q \<le> fst (last (dv_interfaces d))" using bt_wf_last_max [OF wf that] .
    ultimately show ?thesis by simp
  qed
  then have "bt_get (dv_interfaces d) port = None"
    using bt.entries_get [OF wf, of port] by (metis less_irrefl not_None_eq)
  then show "kind_of d port = None" by (simp add: kind_of_def)
  show "kind_of d' = (kind_of d)(port \<mapsto> kind)" by (rule ext) (simp add: kind_of_def d' bt_get_insert)
  show "if_config d' = (if_config d)(port \<mapsto> new_interface_config d name kind)" by (rule ext) (simp add: if_config_def d' bt_get_insert)
  show "neighbors d' = neighbors d" "dv_device_type d' = dv_device_type d" by (simp_all add: neighbors_def d')
  show "bt_wf (dv_interfaces d')" "bt_wf (if_configs d')" using inv by (simp_all add: d' ports_inv_def bt.wf_insert)
qed

lemma insert_found: "find_interface d name = Some p \<Longrightarrow> insert_interface name kind media d = Inr (port, d') \<Longrightarrow> d' = d"
  by (simp add: insert_interface_def)

lemma new_config_shape: "shape (new_interface_config d name kind) = (name, None, None, None, None)"
  "if_ipv4 (new_interface_config d name kind) = None" "if_name (new_interface_config d name kind) = name"
  by (simp_all add: shape_def new_interface_config_def)

text \<open>A new interface whose configuration is completed before anything else happens.\<close>

lemma ports_inv_new:
  assumes inv: "ports_inv d" and op: "insert_interface name kind media d = Inr (port, d1)" and new: "find_interface d name = None"
    and canonical: "canonical_interface name = Inr (name, kind)" and d': "dv_interfaces d' = dv_interfaces d1"
    "if_config d' = (if_config d1)(port \<mapsto> c)" "bt_wf (if_configs d')" "neighbors d' = neighbors d1"
    and c: "if_name c = name" "if_channel_group c = None" "if_dot1q c = None" "if_ipv4 c = None"
      "if_parent c \<noteq> None \<longrightarrow> kind = EthernetSubinterface \<and> ether (kind_of d) (the (if_parent c))"
      "if_port_channel c \<noteq> None \<longrightarrow> kind = PortChannel"
      "kind = PortChannel \<longrightarrow> (\<exists>n. if_port_channel c = Some n \<and> name = channel_label n)"
  shows "ports_inv d'"
proof -
  note v = insert_interface_views [OF inv op new]
  have "layers ((kind_of d)(port \<mapsto> kind)) ((if_config d)(port \<mapsto> c)) (neighbors d)"
  proof (rule layers_fresh)
    show "layers (kind_of d) (if_config d) (neighbors d)" using inv by (simp add: ports_inv_def)
    show "\<forall>q e. if_config d q = Some e \<longrightarrow> lower (if_name e) \<noteq> lower (if_name c)" using find_interface_None [OF new] by (simp add: c(1))
    show "port_ok (kind_of d) (if_config d) kind c" using canonical c by (auto simp: port_ok_def routed_def)
  qed (use v c in simp_all)
  moreover have "kind_of d' = kind_of d1" by (rule ext) (simp add: kind_of_def d'(1))
  ultimately show ?thesis using v d' by (simp add: ports_inv_def)
qed

lemma insert_interface_inv:
  assumes "ports_inv d" "insert_interface name kind media d = Inr (port, d')" "canonical_interface name = Inr (name, kind)" "kind \<noteq> PortChannel"
  shows "ports_inv d'"
proof (cases "find_interface d name")
  case None
  note v = insert_interface_views [OF assms(1, 2) None]
  show ?thesis
    by (rule ports_inv_new [OF assms(1, 2) None assms(3), where c = "new_interface_config d name kind"])
      (use v new_config_shape [of d name kind] assms(4) in \<open>auto simp: shape_def\<close>)
next
  case (Some p)
  then show ?thesis using insert_found [OF Some assms(2)] assms(1) by simp
qed

lemma create_port_channel_inv:
  assumes "ports_inv d" "create_port_channel name d = Inr (port, d')" "find_interface d name = None"
    "canonical_interface name = Inr (name, PortChannel)"
  shows "ports_inv d'" "\<exists>n c. if_config d' port = Some c \<and> if_port_channel c = Some n \<and> name = channel_label n"
    "if_config d port = None" "\<exists>c. if_config d' = (if_config d)(port \<mapsto> c) \<and> if_channel_group c = None \<and> if_ipv4 c = None"
    "kind_of d' = (kind_of d)(port \<mapsto> PortChannel)" "neighbors d' = neighbors d"
proof -
  obtain number d1 where number: "Option.bind (strip_prefix ''Port-channel'' name) (parse_uint 65535) = Some number"
    and op: "insert_interface name PortChannel VirtualMedia d = Inr (port, d1)"
    and w: "with_config port (channel_config (supports_switching d1) number) d1 = Inr d'"
    using assms(2) by (auto simp: create_port_channel_def and_then_Inr_iff split: if_splits option.splits)
  let ?f = "channel_config (supports_switching d1) number"
  have name: "number \<le> 65535 \<and> name = ''Port-channel'' @ decimal number"
  proof -
    obtain numbers where n: "name = name_of PortChannel numbers" "numbers_valid PortChannel numbers"
      using canonical_form [OF assms(4)] by (cases rule: canonical_name.cases) auto
    then obtain m where m: "name = ''Port-channel'' @ decimal m" "m \<le> 4096" by (cases numbers) auto
    then have "strip_prefix ''Port-channel'' name = Some (decimal m)" by (simp add: strip_prefix_def)
    then have "number = m" using number parse_decimal [of m 65535] m(2) by simp
    then show ?thesis using m by simp
  qed
  note v = insert_interface_views [OF assms(1) op assms(3)]
  let ?c = "?f (new_interface_config d name PortChannel)"
  obtain c1 where "if_config d1 port = Some c1" and w': "if_config d' = (if_config d1)(port \<mapsto> ?f c1)" "kind_of d' = kind_of d1"
    "neighbors d' = neighbors d1" "dv_interfaces d' = dv_interfaces d1" "bt_wf (if_configs d')"
    using with_config_views [OF w] v(7) by metis
  then have c1: "c1 = new_interface_config d name PortChannel" using v(4) by simp
  have un: "unat (of_nat number :: u16) = number" using name by (simp add: unat_of_nat take_bit_nat_eq_self)
  have c: "if_name ?c = name" "if_channel_group ?c = None" "if_dot1q ?c = None" "if_ipv4 ?c = None" "if_parent ?c = None"
    "if_port_channel ?c = Some (of_nat number)" using new_config_shape [of d name PortChannel] by (auto simp: channel_config_def shape_def)
  show "ports_inv d'"
    by (rule ports_inv_new [OF assms(1) op assms(3, 4), where c = ?c])
      (use w' c1 c name un in \<open>auto simp: channel_label_def\<close>)
  show "\<exists>n c. if_config d' port = Some c \<and> if_port_channel c = Some n \<and> name = channel_label n"
    using w'(1) c1 c name un by (simp add: channel_label_def)
  show "if_config d port = None" using v(1) assms(1) by (auto simp: ports_inv_def layers_def)
  show "\<exists>c. if_config d' = (if_config d)(port \<mapsto> c) \<and> if_channel_group c = None \<and> if_ipv4 c = None"
    using w'(1) v(4) c1 c by (intro exI [of _ ?c]) simp
  show "kind_of d' = (kind_of d)(port \<mapsto> PortChannel)" "neighbors d' = neighbors d" using w' v by simp_all
qed

lemma create_subinterface_inv:
  assumes inv: "ports_inv d" and op: "create_subinterface name d = Inr (port, d')" and new: "find_interface d name = None"
    and canonical: "canonical_interface name = Inr (name, EthernetSubinterface)"
  shows "ports_inv d'"
proof -
  obtain parent_name rest where once: "split_once (CHR ''.'') name = Some (parent_name, rest)"
    using op by (auto simp: create_subinterface_def split: if_splits option.splits)
  obtain parent where found: "find_interface d parent_name = Some parent"
    using op once by (auto simp: create_subinterface_def split: if_splits option.splits)
  obtain p where p: "bt_get (dv_interfaces d) parent = Some p"
    using op once found by (auto simp: create_subinterface_def split: if_splits option.splits)
  obtain d1 d2 where ins: "insert_interface name EthernetSubinterface VirtualMedia d = Inr (port, d1)"
    and w: "with_config port (child_config parent) d1 = Inr d2" and m: "set_interface_mac port (it_mac_address p) d2 = Inr d'"
    using op by (auto simp: create_subinterface_def once found p and_then_Inr_iff split: if_splits)
  obtain q k n where q: "canonical_name q k" "is_ethernet k" "name = q @ ''.'' @ decimal n"
    using canonical_form [OF canonical] numbers_valid_nonempty [of EthernetSubinterface] by (cases rule: canonical_name.cases) auto
  have "CHR ''.'' \<notin> set q" using canonical_chars [OF q(1, 2)] by blast
  then have "parent_name = q" using once split_once_dot [of q "decimal n"] q(3) by simp
  then have "kind_of d parent = Some k"
    using find_interface_canonical [OF inv found] canonical_fixed [OF q(1)] by blast
  then have e: "ether (kind_of d) parent" using q(2) by (simp add: ether_def)
  note v = insert_interface_views [OF inv ins new]
  let ?c = "child_config parent (new_interface_config d name EthernetSubinterface)"
  obtain c1 where c1: "if_config d1 port = Some c1" and w': "if_config d2 = (if_config d1)(port \<mapsto> child_config parent c1)"
    "neighbors d2 = neighbors d1" "dv_interfaces d2 = dv_interfaces d1" "bt_wf (if_configs d2)"
    using with_config_views [OF w] v(7) by metis
  have "c1 = new_interface_config d name EthernetSubinterface" using v(4) c1 by simp
  then have "ports_inv d2"
    by (intro ports_inv_new [OF inv ins new canonical w'(3) _ w'(4, 2), of ?c])
      (use w'(1) e new_config_shape [of d name EthernetSubinterface] in \<open>simp_all add: shape_def child_config_def\<close>)
  moreover obtain i where "bt_get (dv_interfaces d2) port = Some i"
    and d': "d' = d2\<lparr>dv_interfaces := bt_insert port (i\<lparr>it_mac_address := it_mac_address p\<rparr>) (dv_interfaces d2)\<rparr>"
    using m by (auto simp: set_interface_mac_def split: option.splits)
  ultimately show ?thesis using ports_inv_interface by blast
qed

lemma channel_name: "1 \<le> n \<Longrightarrow> n \<le> 4096 \<Longrightarrow> canonical_interface (''Port-channel'' @ decimal n) = Inr (''Port-channel'' @ decimal n, PortChannel)"
  using plain [of PortChannel "[n]"] by (intro canonical_fixed) simp

lemma ensure_interface_inv: "ports_inv d \<Longrightarrow> ensure_interface name d = Inr (port, d') \<Longrightarrow> ports_inv d'"
proof -
  assume inv: "ports_inv d" and op: "ensure_interface name d = Inr (port, d')"
  then obtain canonical kind where c: "canonical_interface name = Inr (canonical, kind)"
    by (auto simp: ensure_interface_def and_then_Inr_iff)
  have fixed: "canonical_interface canonical = Inr (canonical, kind)" by (rule canonical_fixed [OF canonical_form [OF c]])
  show "ports_inv d'"
  proof (cases "find_interface d canonical")
    case None
    then consider "kind = EthernetSubinterface" "create_subinterface canonical d = Inr (port, d')"
      | "kind = PortChannel" "create_port_channel canonical d = Inr (port, d')"
      | "kind \<noteq> PortChannel" "insert_interface canonical kind VirtualMedia d = Inr (port, d')"
      using op c by (auto simp: ensure_interface_def split: if_splits)
    then show ?thesis
    proof cases
      case 1
      then show ?thesis using create_subinterface_inv [OF inv _ None] fixed by simp
    next
      case 2
      then show ?thesis using create_port_channel_inv(1) [OF inv _ None] fixed by simp
    next
      case 3
      then show ?thesis using insert_interface_inv [OF inv _ fixed] by simp
    qed
  next
    case (Some p)
    then show ?thesis using op c inv by (simp add: ensure_interface_def)
  qed
qed

lemma add_interface_inv:
  "ports_inv d \<Longrightarrow> add_physical_interface name d = Inr (port, d') \<Longrightarrow> ports_inv d'"
  "ports_inv d \<Longrightarrow> add_port name media d = Inr (port, d') \<Longrightarrow> ports_inv d'"
proof -
  have "ports_inv d'" if "ports_inv d" "canonical_interface name = Inr (canonical, kind)" "insert_interface canonical kind m d = Inr (port, d')" "kind \<noteq> PortChannel"
    for canonical kind m
    using that(1, 3) canonical_fixed [OF canonical_form [OF that(2)]] that(4) by (rule insert_interface_inv)
  moreover have "kind \<noteq> PortChannel" if "is_physical kind" for kind using that by auto
  ultimately show "ports_inv d \<Longrightarrow> add_physical_interface name d = Inr (port, d') \<Longrightarrow> ports_inv d'"
    "ports_inv d \<Longrightarrow> add_port name media d = Inr (port, d') \<Longrightarrow> ports_inv d'"
    by (fastforce simp: add_physical_interface_def add_port_def media_valid_def and_then_Inr_iff split: if_splits)+
qed

section \<open>Bundles\<close>

lemma other_members_card:
  assumes "bt_wf (if_configs d)"
  shows "card (members (if_config d) n - {p}) = length (other_members d p n)"
proof -
  have "set (map fst (other_members d p n)) = members (if_config d) n - {p}"
    using bt.entries_get [OF assms] by (force simp: other_members_def members_def if_config_def image_iff)
  moreover have "distinct (map fst (other_members d p n))"
    using wf_distinct [OF wf_filter [OF assms]] by (simp add: other_members_def)
  ultimately show ?thesis by (metis distinct_card length_map)
qed

lemma member_accepted:
  assumes "bt_wf (if_configs d)" "\<not> member_refused d p n mode config"
  shows "card (members (if_config d) n - {p}) < 8" "if_ipv4 config = None"
    "\<forall>g. if_channel_group config = Some g \<longrightarrow> cm_number g = n"
    "\<forall>q e. if_config d q = Some e \<longrightarrow> q \<noteq> p \<longrightarrow> in_channel n e \<longrightarrow> kind_of d q = kind_of d p \<and> fixed_mode e = (mode = ChannelOn)"
proof -
  show "card (members (if_config d) n - {p}) < 8" "if_ipv4 config = None" "\<forall>g. if_channel_group config = Some g \<longrightarrow> cm_number g = n"
    using assms(2) by (auto simp: other_members_card [OF assms(1)] member_refused_def)
  show "\<forall>q e. if_config d q = Some e \<longrightarrow> q \<noteq> p \<longrightarrow> in_channel n e \<longrightarrow> kind_of d q = kind_of d p \<and> fixed_mode e = (mode = ChannelOn)"
  proof (intro allI impI)
    fix q e assume q: "if_config d q = Some e" "q \<noteq> p" "in_channel n e"
    then have "(q, e) \<in> set (other_members d p n)" using if_config_in [OF q(1)] by (simp add: other_members_def)
    then show "kind_of d q = kind_of d p \<and> fixed_mode e = (mode = ChannelOn)"
      using assms(2) q(3) by (fastforce simp: member_refused_def list_ex_iff fixed_mode_def in_channel_def split: option.splits)
  qed
qed

text \<open>A port joins a bundle whose other members agree with it.\<close>

lemma layers_join:
  assumes l: "layers K C L" and p: "C p = Some c" "ether K p" "if_ipv4 c = None" "\<forall>g. if_channel_group c = Some g \<longrightarrow> cm_number g = n"
    and logical: "C q = Some e" "if_port_channel e = Some n" and room: "card (members C n - {p}) < 8"
    and agree: "\<forall>q e. C q = Some e \<longrightarrow> q \<noteq> p \<longrightarrow> in_channel n e \<longrightarrow> K q = K p \<and> fixed_mode e = (mode = ChannelOn)"
  shows "layers K (C(p \<mapsto> c\<lparr>if_channel_group := Some \<lparr>cm_number = n, cm_mode = mode\<rparr>\<rparr>)) L"
proof -
  let ?c = "c\<lparr>if_channel_group := Some \<lparr>cm_number = n, cm_mode = mode\<rparr>\<rparr>" and ?C = "C(p \<mapsto> c\<lparr>if_channel_group := Some \<lparr>cm_number = n, cm_mode = mode\<rparr>\<rparr>)"
  note l' = l [unfolded layers_def]
  have pc: "\<exists>f. ?C r = Some f \<and> if_port_channel f = Some m" if "C r = Some f" "if_port_channel f = Some m" for r f m
    using that p(1) by (cases "r = p") auto
  have in_p: "in_channel m ?c \<longleftrightarrow> m = n" for m by (auto simp: in_channel_def)
  have old_p: "in_channel m c \<Longrightarrow> m = n" for m using p(4) by (auto simp: in_channel_def split: option.splits)
  have mem: "members ?C m = (if m = n then insert p (members C m - {p}) else members C m)" for m
    using in_p old_p p(1) by (auto simp: members_def)
  have dom: "\<forall>r. (K r = None) = (?C r = None)" using l' p(1) by auto
  have ok: "port_ok K ?C k f" if f: "?C r = Some f" "K r = Some k" for r f k
  proof (cases "r = p")
    case False
    then have "port_ok K C k f" using f l' by simp
    then show ?thesis using pc unfolding port_ok_def by blast
  next
    case True
    then have "port_ok K C k c" "is_ethernet k" "f = ?c" using f p l' by (auto simp: ether_def)
    moreover obtain e' where "?C q = Some e'" "if_port_channel e' = Some n" using pc logical by blast
    ultimately show ?thesis using p(3) unfolding port_ok_def routed_def by (auto simp del: fun_upd_apply)
  qed
  have shape: "if_name f = if_name g \<and> if_parent f = if_parent g \<and> if_dot1q f = if_dot1q g" if "?C r = Some f" "C r = Some g" for r f g
    using that p(1) by (cases "r = p") auto
  have C_of: "\<exists>g. C r = Some g" if "?C r = Some f" for r f using that p(1) by (cases "r = p") auto
  have "names_unique ?C" using l' shape C_of unfolding names_unique_def by metis
  moreover have "tags_unique ?C"
    unfolding tags_unique_def
  proof (intro allI impI)
    fix r r' f f' assume f: "?C r = Some f" "?C r' = Some f'" "r \<noteq> r'"
    then obtain g g' where g: "C r = Some g" "C r' = Some g'" using C_of by blast
    then have "tags_differ g g'" using l' f(3) unfolding tags_unique_def by blast
    then show "tags_differ f f'" by (simp only: tags_differ_def shape [OF f(1) g(1)] shape [OF f(2) g(2)] not_False_eq_True)
  qed
  moreover have "bundles_ok K ?C"
    unfolding bundles_ok_def
  proof (intro allI conjI impI)
    fix m
    have "card (insert p (members C n - {p})) \<le> 8" using room by (intro card_insert_le_m1) simp_all
    moreover have "bundles_ok K C" using l' by blast
    ultimately show "card (members ?C m) \<le> 8" unfolding mem bundles_ok_def by (cases "m = n") simp_all
  next
    fix m r r' f f' assume f: "?C r = Some f" "?C r' = Some f'" "in_channel m f" "in_channel m f'"
    have new: "K s = K p \<and> fixed_mode g = (mode = ChannelOn)" if "?C s = Some g" "in_channel n g" for s g
      using that agree by (cases "s = p") (auto simp: fixed_mode_def)
    have "K r = K r' \<and> fixed_mode f = fixed_mode f'"
    proof (cases "m = n")
      case True
      then show ?thesis using new [OF f(1)] new [OF f(2)] f(3, 4) by simp
    next
      case False
      then have "C r = Some f" "C r' = Some f'" using f in_p by (auto split: if_splits)
      moreover have "bundles_ok K C" using l' by blast
      ultimately show ?thesis using f(3, 4) unfolding bundles_ok_def by blast
    qed
    then show "K r = K r'" "fixed_mode f = fixed_mode f'" by simp_all
  qed
  ultimately show ?thesis using l' dom ok unfolding layers_def by blast
qed

lemma channel_for_inv:
  assumes inv: "ports_inv d" and op: "channel_for (channel_label n) config d = Inr (logical, d1)"
    and n: "1 \<le> n" "n \<le> 4096"
  shows "ports_inv d1" "\<exists>e. if_config d1 logical = Some e \<and> if_port_channel e = Some n"
    "d1 = d \<or> if_config d logical = None \<and> kind_of d1 = (kind_of d)(logical \<mapsto> PortChannel) \<and> neighbors d1 = neighbors d \<and>
       (\<exists>e. if_config d1 = (if_config d)(logical \<mapsto> e) \<and> if_channel_group e = None)"
proof -
  let ?name = "channel_label n"
  have "1 \<le> unat n" "unat n \<le> 4096" using n by (simp_all add: word_le_nat_alt)
  then have canonical: "canonical_interface ?name = Inr (?name, PortChannel)" unfolding channel_label_def by (rule channel_name)
  have inj: "m = n" if "?name = channel_label m" for m using that by (simp add: channel_label_def decimal_inj word_unat_eq_iff)
  have all: "ports_inv d1 \<and> (\<exists>e. if_config d1 logical = Some e \<and> if_port_channel e = Some n) \<and>
      (d1 = d \<or> if_config d logical = None \<and> kind_of d1 = (kind_of d)(logical \<mapsto> PortChannel) \<and> neighbors d1 = neighbors d \<and>
         (\<exists>e. if_config d1 = (if_config d)(logical \<mapsto> e) \<and> if_channel_group e = None))"
  proof (cases "find_interface d ?name")
    case (Some p)
    obtain c where c: "if_config d p = Some c" "if_name c = ?name" "port_ok (kind_of d) (if_config d) PortChannel c"
      using find_interface_canonical [OF inv Some canonical] by blast
    then have "if_port_channel c = Some n" using inj unfolding port_ok_def by metis
    moreover have "d1 = d" "logical = p" using op Some c(1) by (auto simp: channel_for_def split: if_splits)
    ultimately show ?thesis using inv c(1) by simp
  next
    case None
    obtain d0 where d0: "create_port_channel ?name d = Inr (logical, d0)"
      and w: "with_config logical (\<lambda>c. c\<lparr>if_switchport := if_switchport config, if_mtu := if_mtu config\<rparr>) d0 = Inr d1"
      using op None by (auto simp: channel_for_def and_then_Inr_iff)
    note cr = create_port_channel_inv [OF inv d0 None canonical]
    obtain c where c: "if_config d0 logical = Some c" "if_port_channel c = Some n" using cr(2) inj by blast
    obtain e where e: "if_config d0 = (if_config d)(logical \<mapsto> e)" "if_channel_group e = None" "if_ipv4 e = None" using cr(4) by blast
    then have "e = c" using c by simp
    obtain c' where c': "if_config d0 logical = Some c'"
      and d1: "if_config d1 = (if_config d0)(logical \<mapsto> c'\<lparr>if_switchport := if_switchport config, if_mtu := if_mtu config\<rparr>)"
        "kind_of d1 = kind_of d0" "neighbors d1 = neighbors d0"
      using with_config_views [OF w] by metis
    have "ports_inv d1" using cr(1) w
      by (rule ports_inv_config) (use c e \<open>e = c\<close> in \<open>simp_all add: shape_def routed_def\<close>)
    moreover have "\<exists>e. if_config d1 = (if_config d)(logical \<mapsto> e) \<and> if_channel_group e = None"
      using c c' d1 e \<open>e = c\<close> by (intro exI [of _ "c\<lparr>if_switchport := if_switchport config, if_mtu := if_mtu config\<rparr>"]) simp
    ultimately show ?thesis using cr(3, 5, 6) c c' d1 e \<open>e = c\<close> by simp
  qed
  then show "ports_inv d1" "\<exists>e. if_config d1 logical = Some e \<and> if_port_channel e = Some n"
    "d1 = d \<or> if_config d logical = None \<and> kind_of d1 = (kind_of d)(logical \<mapsto> PortChannel) \<and> neighbors d1 = neighbors d \<and>
       (\<exists>e. if_config d1 = (if_config d)(logical \<mapsto> e) \<and> if_channel_group e = None)" by blast+
qed

lemma set_channel_group_inv: "ports_inv d \<Longrightarrow> set_channel_group p n mode d = Inr d' \<Longrightarrow> ports_inv d'"
proof -
  assume inv: "ports_inv d" and op: "set_channel_group p n mode d = Inr d'"
  obtain config where "\<not> n < 1" and n2: "n \<le> 4096" and eth: "ethernet_port d p" and c: "if_config d p = Some config"
    and acc: "\<not> member_refused d p n mode config"
    using op by (auto simp: set_channel_group_def not_less [of 4096] split: if_splits option.splits)
  then have n1: "1 \<le> n" by (simp only: not_less)
  obtain logical d1 where ch: "channel_for (channel_label n) config d = Inr (logical, d1)"
    using op by (auto simp: set_channel_group_def c and_then_Inr_iff split: if_splits)
  note cf = channel_for_inv [OF inv ch n1 n2]
  obtain d2 where w: "with_config p (\<lambda>c. c\<lparr>if_channel_group := Some \<lparr>cm_number = n, cm_mode = mode\<rparr>\<rparr>) d1 = Inr d2" and d': "d' = forget_macs p d2"
    using op by (auto simp: set_channel_group_def c ch and_then_Inr_iff map_result_Inr_iff split: if_splits option.splits)
  have wf: "bt_wf (if_configs d)" using inv by (simp add: ports_inv_def)
  note m = member_accepted [OF wf acc]
  have eth': "ether (kind_of d) p" using eth by (auto simp: ethernet_port_def ether_def kind_of_def split: option.splits)
  have views: "if_config d1 p = Some config \<and> ether (kind_of d1) p \<and> members (if_config d1) n = members (if_config d) n \<and>
      (\<forall>q e. if_config d1 q = Some e \<longrightarrow> q \<noteq> p \<longrightarrow> in_channel n e \<longrightarrow> kind_of d1 q = kind_of d1 p \<and> fixed_mode e = (mode = ChannelOn))"
    using cf(3)
  proof (elim disjE conjE exE)
    fix e assume new: "if_config d logical = None" "kind_of d1 = (kind_of d)(logical \<mapsto> PortChannel)"
      "if_config d1 = (if_config d)(logical \<mapsto> e)" "if_channel_group e = None"
    have ne: "p \<noteq> logical" using new(1) c by auto
    have "members (if_config d1) n = members (if_config d) n" unfolding new(3) by (rule members_fresh [where C = "if_config d" and p = logical, OF new(1, 4)])
    moreover have "\<not> in_channel n e" using new(4) by (simp add: in_channel_def)
    ultimately show ?thesis using ne c eth' m(4) by (auto simp: new(2, 3) ether_def)
  qed (use c eth' m(4) in simp)
  obtain e where e: "if_config d1 logical = Some e" "if_port_channel e = Some n" using cf(2) by blast
  have "layers (kind_of d1) ((if_config d1)(p \<mapsto> config\<lparr>if_channel_group := Some \<lparr>cm_number = n, cm_mode = mode\<rparr>\<rparr>)) (neighbors d1)"
    by (rule layers_join [where C = "if_config d1" and p = p and q = logical, OF _ _ _ m(2, 3) e]) (use cf(1) views m(1) in \<open>simp_all add: ports_inv_def\<close>)
  moreover obtain c' where "if_config d1 p = Some c'" and d2: "if_config d2 = (if_config d1)(p \<mapsto> c'\<lparr>if_channel_group := Some \<lparr>cm_number = n, cm_mode = mode\<rparr>\<rparr>)"
    "kind_of d2 = kind_of d1" "neighbors d2 = neighbors d1" "dv_interfaces d2 = dv_interfaces d1" "bt_wf (if_configs d2)"
    using with_config_views [OF w] cf(1) unfolding ports_inv_def by metis
  ultimately have "ports_inv d2" using cf(1) views by (simp add: ports_inv_def)
  then show "ports_inv d'" by (simp add: d' ports_inv_forget)
qed

lemma finite_ids: "finite {p :: InterfaceId. InterfaceId_value p \<le> 65535}"
proof -
  have "{p :: InterfaceId. InterfaceId_value p \<le> 65535} \<subseteq> range InterfaceId"
  proof
    fix p :: InterfaceId show "p \<in> range InterfaceId" by (cases p) simp
  qed
  moreover have "finite (range InterfaceId)" by (rule finite_imageI) simp
  ultimately show ?thesis by (rule finite_subset)
qed

text \<open>A change of one configuration that leaves its bundle or changes its tag.\<close>

lemma layers_leave:
  assumes l: "layers K C L" and p: "C p = Some c"
  shows "layers K (C(p \<mapsto> c\<lparr>if_channel_group := None\<rparr>)) L"
proof -
  let ?c = "c\<lparr>if_channel_group := None\<rparr>" and ?C = "C(p \<mapsto> c\<lparr>if_channel_group := None\<rparr>)"
  note l' = l [unfolded layers_def]
  have old: "\<exists>g. C r = Some g \<and> if_name f = if_name g \<and> if_parent f = if_parent g \<and> if_dot1q f = if_dot1q g \<and> if_port_channel f = if_port_channel g \<and>
      (if_channel_group f = None \<or> f = g) \<and> (routed g \<longrightarrow> routed f)" if "?C r = Some f" for r f
    using that p by (cases "r = p") (auto simp: routed_def)
  have pc: "\<exists>f. ?C r = Some f \<and> if_port_channel f = Some m" if "C r = Some f" "if_port_channel f = Some m" for r f m
    using that p by (cases "r = p") auto
  have in_old: "C r = Some f" if "?C r = Some f" "in_channel m f" for r f m
    using that by (cases "r = p") (auto simp: in_channel_def)
  have "members C m \<subseteq> {p. InterfaceId_value p \<le> 65535}" for m
  proof
    fix x assume "x \<in> members C m"
    then have "C x \<noteq> None" by (auto simp: members_def)
    then have "K x \<noteq> None" using l' by simp
    then show "x \<in> {p. InterfaceId_value p \<le> 65535}" using l' by blast
  qed
  then have fin: "finite (members C m)" for m by (rule finite_subset) (rule finite_ids)
  have "\<forall>r. (K r = None) = (?C r = None)" using l' p by auto
  moreover have "\<forall>r f k. ?C r = Some f \<longrightarrow> K r = Some k \<longrightarrow> port_ok K ?C k f"
  proof (intro allI impI)
    fix r f k assume "?C r = Some f" "K r = Some k"
    moreover then obtain g where g: "C r = Some g" "if_name f = if_name g" "if_parent f = if_parent g" "if_dot1q f = if_dot1q g"
      "if_port_channel f = if_port_channel g" "if_channel_group f = None \<or> f = g" "routed g \<longrightarrow> routed f" using old by blast
    ultimately have ok: "port_ok K C k g" using l' by blast
    have grown: "port_ok K C k g \<Longrightarrow> port_ok K ?C k g" unfolding port_ok_def using pc by blast
    show "port_ok K ?C k f"
    proof (cases "f = g")
      case False
      then have "if_channel_group f = None" using g(6) by simp
      then show ?thesis using ok g(7) unfolding port_ok_def g(2, 3, 4, 5) by simp
    qed (use grown ok in simp)
  qed
  moreover have "names_unique ?C" using l' old unfolding names_unique_def by metis
  moreover have "tags_unique ?C"
    unfolding tags_unique_def
  proof (intro allI impI)
    fix r r' f f' assume f: "?C r = Some f" "?C r' = Some f'" "r \<noteq> r'"
    then obtain g g' where g: "C r = Some g" "if_parent f = if_parent g" "if_dot1q f = if_dot1q g"
      "C r' = Some g'" "if_parent f' = if_parent g'" "if_dot1q f' = if_dot1q g'" using old by metis
    then have "tags_differ g g'" using l' f(3) unfolding tags_unique_def by blast
    then show "tags_differ f f'" by (simp only: tags_differ_def g(2, 3, 5, 6))
  qed
  moreover have "bundles_ok K ?C"
    unfolding bundles_ok_def
  proof (intro allI conjI impI)
    fix m
    have b: "bundles_ok K C" using l' by blast
    have "members ?C m \<subseteq> members C m" using in_old by (auto simp: members_def simp del: fun_upd_apply)
    then show "card (members ?C m) \<le> 8" using card_mono [OF fin] b unfolding bundles_ok_def by (meson order.trans)
    fix r r' f f' assume f: "?C r = Some f" "?C r' = Some f'" "in_channel m f" "in_channel m f'"
    then show "K r = K r'" "fixed_mode f = fixed_mode f'" using b in_old unfolding bundles_ok_def by blast+
  qed
  ultimately show ?thesis using l' unfolding layers_def by blast
qed

lemma layers_tag:
  assumes l: "layers K C L" and p: "C p = Some c" "if_parent c = Some parent"
    and free: "\<forall>q e t. C q = Some e \<longrightarrow> q \<noteq> p \<longrightarrow> if_parent e = Some parent \<longrightarrow> if_dot1q e = Some t \<longrightarrow> dq_vlan t \<noteq> vlan \<and> \<not> (dq_native t \<and> native)"
  shows "layers K (C(p \<mapsto> c\<lparr>if_dot1q := Some \<lparr>dq_vlan = vlan, dq_native = native\<rparr>\<rparr>)) L"
proof -
  let ?c = "c\<lparr>if_dot1q := Some \<lparr>dq_vlan = vlan, dq_native = native\<rparr>\<rparr>"
  let ?C = "C(p \<mapsto> c\<lparr>if_dot1q := Some \<lparr>dq_vlan = vlan, dq_native = native\<rparr>\<rparr>)"
  note l' = l [unfolded layers_def]
  have old: "\<exists>g. C r = Some g \<and> if_name f = if_name g \<and> if_channel_group f = if_channel_group g \<and> if_parent f = if_parent g \<and>
      if_port_channel f = if_port_channel g \<and> (routed g \<longrightarrow> routed f) \<and> (if_dot1q f \<noteq> None \<longrightarrow> if_parent g \<noteq> None \<or> f = g)" if "?C r = Some f" for r f
    using that p by (cases "r = p") (auto simp: routed_def)
  have pc: "\<exists>f. ?C r = Some f \<and> if_port_channel f = Some m" if "C r = Some f" "if_port_channel f = Some m" for r f m
    using that p by (cases "r = p") auto
  have "\<forall>r. (K r = None) = (?C r = None)" using l' p by auto
  moreover have "\<forall>r f k. ?C r = Some f \<longrightarrow> K r = Some k \<longrightarrow> port_ok K ?C k f"
  proof (intro allI impI)
    fix r f k assume "?C r = Some f" "K r = Some k"
    moreover then obtain g where g: "C r = Some g" "if_name f = if_name g" "if_channel_group f = if_channel_group g" "if_parent f = if_parent g"
      "if_port_channel f = if_port_channel g" "routed g \<longrightarrow> routed f" "if_dot1q f \<noteq> None \<longrightarrow> if_parent g \<noteq> None \<or> f = g" using old by blast
    ultimately have "port_ok K C k g" using l' by blast
    then show "port_ok K ?C k f" using g(6, 7) pc unfolding port_ok_def g(2, 3, 4, 5) by blast
  qed
  moreover have "names_unique ?C" using l' old unfolding names_unique_def by metis
  moreover have "tags_unique ?C"
    unfolding tags_unique_def
  proof (intro allI impI)
    fix r r' f f' assume f: "?C r = Some f" "?C r' = Some f'" "r \<noteq> r'"
    show "tags_differ f f'"
    proof (cases "r = p \<or> r' = p")
      case True
      then show ?thesis using f p(2) free by (auto simp: tags_differ_def) metis+
    next
      case False
      then have "C r = Some f" "C r' = Some f'" using f by simp_all
      then show ?thesis using l' f(3) unfolding tags_unique_def by blast
    qed
  qed
  moreover have "bundles_ok K ?C"
  proof -
    have same: "in_channel m f = in_channel m g" "fixed_mode f = fixed_mode g" if "if_channel_group f = if_channel_group g" for f g m
      using that by (simp_all add: in_channel_def fixed_mode_def)
    have mem: "members ?C m = members C m" for m using p by (auto simp: members_def in_channel_def)
    have b: "bundles_ok K C" using l' by blast
    have agree: "K r = K r' \<and> fixed_mode f = fixed_mode f'"
      if f: "?C r = Some f" "?C r' = Some f'" "in_channel m f" "in_channel m f'" for m r r' f f'
    proof -
      obtain g g' where g: "C r = Some g" "if_channel_group f = if_channel_group g" "C r' = Some g'" "if_channel_group f' = if_channel_group g'"
        using old f(1, 2) by metis
      then have "K r = K r' \<and> fixed_mode g = fixed_mode g'"
        using b f(3, 4) same(1) [OF g(2)] same(1) [OF g(4)] unfolding bundles_ok_def by blast
      then show ?thesis using same(2) [OF g(2)] same(2) [OF g(4)] by simp
    qed
    show ?thesis
      unfolding bundles_ok_def mem
    proof (intro allI conjI impI)
      fix m r r' f f' assume "?C r = Some f" "?C r' = Some f'" "in_channel m f" "in_channel m f'"
      then show "K r = K r'" "fixed_mode f = fixed_mode f'" using agree by blast+
    qed (use b in \<open>simp add: bundles_ok_def\<close>)
  qed
  ultimately show ?thesis using l' unfolding layers_def by blast
qed

lemma clear_channel_group_inv: "ports_inv d \<Longrightarrow> clear_channel_group p d = Inr d' \<Longrightarrow> ports_inv d'"
proof -
  assume inv: "ports_inv d" and op: "clear_channel_group p d = Inr d'"
  then obtain d1 where w: "with_config p (\<lambda>c. c\<lparr>if_channel_group := None\<rparr>) d = Inr d1"
    and d': "d' = d1\<lparr>dv_lacp_neighbors := bt_remove p (dv_lacp_neighbors d1)\<rparr>"
    by (auto simp: clear_channel_group_def map_result_Inr_iff)
  obtain c where "if_config d p = Some c" "if_config d1 = (if_config d)(p \<mapsto> c\<lparr>if_channel_group := None\<rparr>)" "kind_of d1 = kind_of d"
    "neighbors d1 = neighbors d" "dv_interfaces d1 = dv_interfaces d" "bt_wf (if_configs d) \<longrightarrow> bt_wf (if_configs d1)"
    using with_config_views [OF w] .
  then have "ports_inv d1" using inv layers_leave [of "kind_of d" "if_config d" "neighbors d" p c] by (simp add: ports_inv_def)
  then show ?thesis by (rule ports_inv_cong) (simp_all add: d' neighbors_def)
qed

lemma set_dot1q_inv: "ports_inv d \<Longrightarrow> set_dot1q p vlan native d = Inr d' \<Longrightarrow> ports_inv d'"
proof -
  assume inv: "ports_inv d" and op: "set_dot1q p vlan native d = Inr d'"
  obtain c parent where c: "if_config d p = Some c" "if_parent c = Some parent"
    using op by (cases "if_config d p") (auto simp: set_dot1q_def split: option.splits)
  obtain d1 where w: "with_config p (\<lambda>c. c\<lparr>if_dot1q := Some \<lparr>dq_vlan = vlan, dq_native = native\<rparr>\<rparr>) d = Inr d1"
    and d': "d' = d1\<lparr>dv_arp_cache := filter (\<lambda>(_, e). ae_interface e \<noteq> p) (dv_arp_cache d1)\<rparr>"
    using op c by (auto simp: set_dot1q_def map_result_Inr_iff split: if_splits)
  have free: "\<forall>q e t. if_config d q = Some e \<longrightarrow> q \<noteq> p \<longrightarrow> if_parent e = Some parent \<longrightarrow> if_dot1q e = Some t \<longrightarrow>
      dq_vlan t \<noteq> vlan \<and> \<not> (dq_native t \<and> native)"
    using op c if_config_in [of d] by (fastforce simp: set_dot1q_def list_ex_iff split: if_splits)
  obtain c' where "if_config d p = Some c'"
    "if_config d1 = (if_config d)(p \<mapsto> c'\<lparr>if_dot1q := Some \<lparr>dq_vlan = vlan, dq_native = native\<rparr>\<rparr>)" "kind_of d1 = kind_of d"
    "neighbors d1 = neighbors d" "dv_interfaces d1 = dv_interfaces d" "bt_wf (if_configs d) \<longrightarrow> bt_wf (if_configs d1)"
    using with_config_views [OF w] .
  then have "ports_inv d1"
    using inv layers_tag [of "kind_of d" "if_config d" "neighbors d" p c parent vlan native, OF _ c free] c(1) by (simp add: ports_inv_def)
  then show ?thesis by (rule ports_inv_cong) (simp_all add: d' neighbors_def)
qed

section \<open>Operational state\<close>

lemma set_link_state_inv: "ports_inv d \<Longrightarrow> set_link_state p s d = Inr d' \<Longrightarrow> ports_inv d'"
proof -
  assume inv: "ports_inv d" and op: "set_link_state p s d = Inr d'"
  then obtain i where i: "bt_get (dv_interfaces d) p = Some i" by (auto simp: set_link_state_def split: option.splits)
  let ?d1 = "d\<lparr>dv_interfaces := bt_insert p (i\<lparr>it_link_state := s\<rparr>) (dv_interfaces d)\<rparr>"
  have "ports_inv ?d1" using inv i by (rule ports_inv_interface) (rule disjI2, rule refl)
  then show ?thesis
    by (rule ports_inv_cong) (use op i in \<open>auto simp: set_link_state_def Let_def neighbors_def forget_macs_def bt_remove_def split: if_splits\<close>)
qed

lemma bt_get_map: "bt_get (map (\<lambda>(k, v). (k, f k v)) m) k = map_option (f k) (bt_get m k)"
  by (induction m) (auto simp: bt_get_def)

lemma refresh_svi_states_inv: "ports_inv d \<Longrightarrow> refresh_svi_states d = Some d' \<Longrightarrow> ports_inv d'"
proof -
  assume inv: "ports_inv d" and op: "refresh_svi_states d = Some d'"
  define f where "f port i = (if it_kind i = VlanInterface
               then i\<lparr>it_link_state := if svi_up d (the (svi_vlan d port)) then Up else Down\<rparr> else i)" for port and i :: Interface
  have d': "d' = d\<lparr>dv_interfaces := map (\<lambda>(port, i). (port, f port i)) (dv_interfaces d)\<rparr>"
    using op by (auto simp: refresh_svi_states_def f_def split: if_splits)
  have kind: "it_kind (f port i) = it_kind i" for port i by (simp add: f_def)
  have "kind_of d' p = kind_of d p" for p
    by (cases "bt_get (dv_interfaces d) p") (simp_all add: kind_of_def d' bt_get_map kind)
  then have "kind_of d' = kind_of d" by blast
  moreover have "if_config d' = if_config d" by (rule ext) (simp add: d' if_config_def)
  ultimately show ?thesis using inv by (simp add: ports_inv_def d' neighbors_def bt_wf_map)
qed

lemma svi_vlan_known:
  assumes "ports_inv d" "bt_get (dv_interfaces d) p = Some i" "it_kind i = VlanInterface"
  shows "svi_vlan d p \<noteq> None"
proof -
  have l: "layers (kind_of d) (if_config d) (neighbors d)" using assms(1) by (simp add: ports_inv_def)
  have k: "kind_of d p = Some VlanInterface" using assms(2, 3) by (simp add: kind_of_def)
  obtain c where c: "if_config d p = Some c" "port_ok (kind_of d) (if_config d) VlanInterface c" using layers_kind [OF l k] .
  then have "canonical_name (if_name c) VlanInterface" by (intro canonical_form [of "if_name c"]) (simp only: port_ok_def)
  then obtain numbers where "if_name c = name_of VlanInterface numbers" "numbers_valid VlanInterface numbers"
    by (cases rule: canonical_name.cases) auto
  then obtain n where n: "if_name c = ''Vlan'' @ decimal n" "1 \<le> n" "n \<le> 4094" by (cases numbers) auto
  then have "strip_prefix ''Vlan'' (if_name c) = Some (decimal n)" by (simp add: strip_prefix_def)
  moreover have "unat (of_nat n :: u16) = n" using n(3) by (simp add: unat_of_nat take_bit_nat_eq_self)
  then have "VlanId_new (of_nat n) = Inr (VlanId (of_nat n))" using n(2, 3) by (simp add: VlanId_new_def word_le_nat_alt)
  ultimately show ?thesis using assms(2, 3) c(1) n(3) parse_decimal [of n 65535] by (simp add: svi_vlan_def)
qed

lemma refresh_svi_states_total: "ports_inv d \<Longrightarrow> refresh_svi_states d \<noteq> None"
proof -
  assume inv: "ports_inv d"
  then have wf: "bt_wf (dv_interfaces d)" by (simp add: ports_inv_def)
  have "bt_get (dv_interfaces d) port = Some i" if "(port, i) \<in> set (dv_interfaces d)" for port i
    using that bt.entries_get [OF wf] by simp
  then have "svi_vlan d port \<noteq> None" if "(port, i) \<in> set (dv_interfaces d)" "it_kind i = VlanInterface" for port i
    using svi_vlan_known [OF inv] that by simp
  then have "\<not> list_ex (\<lambda>(port, i). it_kind i = VlanInterface \<and> svi_vlan d port = None) (dv_interfaces d)"
    unfolding list_ex_iff by blast
  then show ?thesis unfolding refresh_svi_states_def by (simp only: if_False option.distinct not_False_eq_True)
qed

lemma ethernet_port_ether: "ethernet_port d p = ether (kind_of d) p"
  by (simp add: ethernet_port_def ether_def kind_of_def split: option.split)

lemma lacp_actor_ether:
  assumes "ports_inv d" "lacp_actor d p = Some actor"
  shows "ether (kind_of d) p"
proof -
  have l: "layers (kind_of d) (if_config d) (neighbors d)" using assms(1) by (simp add: ports_inv_def)
  obtain c g where c: "if_config d p = Some c" "if_channel_group c = Some g"
    using assms(2) by (auto simp: lacp_actor_def lacp_actor_with_def split: option.splits)
  moreover obtain k where "kind_of d p = Some k" "port_ok (kind_of d) (if_config d) k c" using layers_config [OF l c(1)] .
  ultimately show ?thesis by (auto simp: port_ok_def ether_def)
qed

lemma neighbor_inv:
  assumes "ports_inv d" "ether (kind_of d) p"
  shows "ports_inv (d\<lparr>dv_lacp_neighbors := bt_insert p n (dv_lacp_neighbors d)\<rparr>)"
proof -
  let ?d = "d\<lparr>dv_lacp_neighbors := bt_insert p n (dv_lacp_neighbors d)\<rparr>"
  have "neighbors ?d = insert p (neighbors d)" using keys_insert [of p n "dv_lacp_neighbors d"] by (simp add: neighbors_def)
  moreover have "kind_of ?d = kind_of d" "if_config ?d = if_config d" by (auto simp: kind_of_def if_config_def fun_eq_iff)
  moreover have "layers (kind_of d) (if_config d) (insert p (neighbors d))"
    using assms unfolding ports_inv_def layers_def by blast
  ultimately show ?thesis using assms(1) by (simp add: ports_inv_def)
qed

lemma receive_lacp_inv: "ports_inv d \<Longrightarrow> receive_lacp p pdu now d = Some (r, d') \<Longrightarrow> ports_inv d'"
  using neighbor_inv [OF _ lacp_actor_ether]
  by (fastforce simp: receive_lacp_def Let_def intro: refresh_svi_states_inv split: option.splits if_splits)

lemma expire_neighbors_inv: "ports_inv d \<Longrightarrow> ports_inv (d\<lparr>dv_lacp_neighbors := filter P (dv_lacp_neighbors d)\<rparr>)"
  by (erule ports_inv_cong) (auto simp: neighbors_def)

lemma lacp_tick_inv: "ports_inv d \<Longrightarrow> lacp_tick now d = Some (r, d') \<Longrightarrow> ports_inv d'"
  by (auto simp: lacp_tick_def intro: refresh_svi_states_inv expire_neighbors_inv)

lemma ports_inv_layering: "ports_inv d \<Longrightarrow> wf_layering d"
proof -
  assume inv: "ports_inv d"
  then have l: "layers (kind_of d) (if_config d) (neighbors d)" and wf: "bt_wf (if_configs d)" by (simp_all add: ports_inv_def)
  have "(if_channel_group c \<noteq> None \<longrightarrow> ethernet_port d p) \<and> (\<forall>parent. if_parent c = Some parent \<longrightarrow> ethernet_port d parent)"
    if "(p, c) \<in> set (if_configs d)" for p c
  proof -
    have c: "if_config d p = Some c" using that bt.entries_get [OF wf] by (simp add: if_config_def)
    obtain k where "kind_of d p = Some k" "port_ok (kind_of d) (if_config d) k c" using layers_config [OF l c] .
    then show ?thesis by (auto simp: port_ok_def ether_def ethernet_port_ether)
  qed
  moreover have "ethernet_port d p" if "(p, n) \<in> set (dv_lacp_neighbors d)" for p n
    using that l unfolding layers_def neighbors_def ethernet_port_ether by force
  ultimately show ?thesis unfolding wf_layering_def by blast
qed

section \<open>The machine\<close>

definition ports_init :: "Device \<Rightarrow> bool" where
  "ports_init d = (\<exists>number hostname device_type. Device_new number hostname device_type = Inr d)"

inductive ports_step :: "Device \<Rightarrow> Device \<Rightarrow> bool" where
  hostname: "set_hostname name d = Inr d' \<Longrightarrow> ports_step d d'"
| routing: "set_ip_routing enabled d = Inr d' \<Longrightarrow> ports_step d d'"
| physical: "add_physical_interface name d = Inr (port, d') \<Longrightarrow> ports_step d d'"
| port: "add_port name media d = Inr (port, d') \<Longrightarrow> ports_step d d'"
| logical: "ensure_interface name d = Inr (port, d') \<Longrightarrow> ports_step d d'"
| describe: "set_description port text d = Inr d' \<Longrightarrow> ports_step d d'"
| undescribe: "clear_description port d = Inr d' \<Longrightarrow> ports_step d d'"
| address: "set_ipv4 port ip d = Inr d' \<Longrightarrow> ports_step d d'"
| no_address: "clear_ipv4 port d = Inr d' \<Longrightarrow> ports_step d d'"
| client: "set_dhcp_client port d = Inr d' \<Longrightarrow> ports_step d d'"
| admin: "set_admin_state port state d = Inr d' \<Longrightarrow> ports_step d d'"
| vlan: "create_vlan vlan d = Inr d' \<Longrightarrow> ports_step d d'"
| no_vlan: "remove_vlan vlan d = Inr d' \<Longrightarrow> ports_step d d'"
| vlan_name: "set_vlan_name vlan name d = Inr d' \<Longrightarrow> ports_step d d'"
| switchport: "enable_switchport port d = Inr d' \<Longrightarrow> ports_step d d'"
| no_switchport: "disable_switchport port d = Inr d' \<Longrightarrow> ports_step d d'"
| mode: "set_switchport_mode port m d = Inr d' \<Longrightarrow> ports_step d d'"
| access_vlan: "set_access_vlan port vlan d = Inr d' \<Longrightarrow> ports_step d d'"
| trunk: "set_trunk_allowed_vlans port allowed d = Inr d' \<Longrightarrow> ports_step d d'"
| native: "set_native_vlan port vlan d = Inr d' \<Longrightarrow> ports_step d d'"
| join_channel: "set_channel_group port number m d = Inr d' \<Longrightarrow> ports_step d d'"
| leave_channel: "clear_channel_group port d = Inr d' \<Longrightarrow> ports_step d d'"
| encapsulate: "set_dot1q port vlan is_native d = Inr d' \<Longrightarrow> ports_step d d'"
| carrier: "set_link_state port link d = Inr d' \<Longrightarrow> ports_step d d'"
| autostate: "refresh_svi_states d = Some d' \<Longrightarrow> ports_step d d'"
| lacp: "receive_lacp port pdu now d = Some (reply, d') \<Longrightarrow> ports_step d d'"
| tick: "lacp_tick now d = Some (sent, d') \<Longrightarrow> ports_step d d'"

lemma ports_init_inv: "ports_init d \<Longrightarrow> ports_inv d"
proof -
  assume "ports_init d"
  then have d: "dv_interfaces d = []" "if_configs d = []" "dv_lacp_neighbors d = []"
    by (auto simp: ports_init_def Device_new_def RunningConfig_new_def split: if_splits)
  then have "kind_of d = Map.empty" "if_config d = Map.empty" "neighbors d = {}"
    by (auto simp: kind_of_def if_config_def neighbors_def fun_eq_iff)
  then show ?thesis using d
    by (simp add: ports_inv_def layers_def names_unique_def tags_unique_def bundles_ok_def members_def)
qed

lemma ports_step_inv: "ports_inv d \<Longrightarrow> ports_step d d' \<Longrightarrow> ports_inv d'"
proof -
  assume inv: "ports_inv d" and "ports_step d d'"
  from this(2) show ?thesis
  proof cases
    case (routing enabled)
    then show ?thesis using inv by (auto elim!: ports_inv_cong simp: set_ip_routing_def neighbors_def split: if_splits)
  next
    case (access_vlan port vlan)
    then show ?thesis unfolding set_access_vlan_def by (rule change_switchport_inv [OF inv])
  next
    case (trunk port allowed)
    then show ?thesis unfolding set_trunk_allowed_vlans_def by (rule change_switchport_inv [OF inv])
  next
    case (native port vlan)
    then show ?thesis unfolding set_native_vlan_def by (rule change_switchport_inv [OF inv])
  qed (fact vlan_inv [OF inv] add_interface_inv [OF inv] ensure_interface_inv [OF inv] set_description_inv [OF inv]
      clear_description_inv [OF inv] set_ipv4_inv [OF inv] clear_ipv4_inv [OF inv] set_dhcp_client_inv [OF inv]
      set_admin_state_inv [OF inv] enable_switchport_inv [OF inv] disable_switchport_inv [OF inv] set_switchport_mode_inv [OF inv]
      set_channel_group_inv [OF inv] clear_channel_group_inv [OF inv] set_dot1q_inv [OF inv] set_link_state_inv [OF inv]
      refresh_svi_states_inv [OF inv] receive_lacp_inv [OF inv] lacp_tick_inv [OF inv])+
qed

interpretation ports_machine: invariant_system ports_init ports_step ports_inv
  by unfold_locales (auto intro: ports_init_inv ports_step_inv)

section \<open>Properties\<close>

text \<open>
  C9. In every device that the configuration and link operations can reach, inventory and configuration
  hold the same interfaces, every name is canonical for the kind of its interface and unique without regard
  to case, only Ethernet ports are bundle members, LACP neighbours or parents of subinterfaces, members
  agree in kind and mode and are at most eight, encapsulations below one parent differ, and no switchport
  or member has a configured IPv4 address.
\<close>
theorem interface_layering:
  assumes "ports_init d0" "ports_step\<^sup>*\<^sup>* d0 d"
  shows "ports_inv d"
  using assms by (rule ports_machine.reachable_inv)

text \<open>
  C10. The mutual recursion of the operational state ends: in every reachable device the question whether an
  interface is up, the members of a channel and the LACP advertisement of a port return after two levels of
  calls, where a call that does not return is \<open>None\<close>. The answer satisfies the recursive equation of the
  source, in which a port channel asks its members, a member asks LACP, and a subinterface asks its parent.
\<close>
theorem protocol_up_terminates:
  assumes "ports_init d0" "ports_step\<^sup>*\<^sup>* d0 d"
  shows "protocol_up_fuel (2 + n) d port = Some (protocol_up d port) \<and>
    channel_members_calls (protocol_up_fuel (2 + n) d) d port = Some (channel_members d port) \<and>
    lacp_advertisement_calls (protocol_up_fuel (2 + n) d) d port = Some (lacp_advertisement d port) \<and>
    protocol_up d port = protocol_up_with (protocol_up d) d port"
proof -
  have wf: "wf_layering d" using ports_inv_layering [OF ports_machine.reachable_inv [OF assms]] .
  have up: "protocol_up_fuel (2 + n) d = (\<lambda>port. Some (protocol_up d port))" by (rule protocol_up_fuel_total [OF wf])
  have "channel_members_calls (\<lambda>port. Some (protocol_up d port)) d port = Some (channel_members d port)"
    unfolding channel_members_def by (rule members_return [OF wf]) simp
  moreover have "lacp_advertisement_calls (\<lambda>port. Some (protocol_up d port)) d port = Some (lacp_advertisement d port)"
    unfolding lacp_advertisement_def by (rule advertisement_returns [OF wf]) simp_all
  ultimately show ?thesis unfolding up using protocol_up_unfold [OF wf, of port] by blast
qed

text \<open>
  C11. Refreshing the VLAN interfaces never panics on an interface name: in every reachable device the
  refresh, the reception of an LACPDU and the LACP timer return a device.
\<close>
theorem svi_refresh_total:
  assumes "ports_init d0" "ports_step\<^sup>*\<^sup>* d0 d"
  shows "refresh_svi_states d \<noteq> None \<and> receive_lacp port pdu now d \<noteq> None \<and> lacp_tick now d \<noteq> None"
proof -
  have inv: "ports_inv d" using assms by (rule ports_machine.reachable_inv)
  have "receive_lacp port pdu now d \<noteq> None"
    using refresh_svi_states_total [OF neighbor_inv [OF inv lacp_actor_ether [OF inv]]]
    by (auto simp: receive_lacp_def Let_def split: option.split)
  moreover have "lacp_tick now d \<noteq> None"
    using refresh_svi_states_total [OF expire_neighbors_inv [OF inv]] by (auto simp: lacp_tick_def)
  ultimately show ?thesis using refresh_svi_states_total [OF inv] by simp
qed

text \<open>A router with a subinterface, used as the concrete device of the witnesses.\<close>

definition layer_device0 :: Device where
  "layer_device0 = result_of (Device_new 7 ''R7'' RouterDevice)"

definition layer_device1 :: Device where
  "layer_device1 = snd (result_of (insert_interface ''GigabitEthernet0/1'' GigabitEthernet Rj45 layer_device0))"

definition layer_device2 :: Device where
  "layer_device2 = snd (result_of (create_subinterface ''GigabitEthernet0/1.10'' layer_device1))"

lemma layer_names:
  "canonical_interface ''GigabitEthernet0/1'' = Inr (''GigabitEthernet0/1'', GigabitEthernet)"
  "canonical_interface ''GigabitEthernet0/1.10'' = Inr (''GigabitEthernet0/1.10'', EthernetSubinterface)"
proof -
  have d: "decimal 0 = ''0''" "decimal 1 = ''1''" "decimal 10 = ''10''" by code_simp+
  have p: "canonical_name ''GigabitEthernet0/1'' GigabitEthernet" using plain [of GigabitEthernet "[0, 1]"] by (simp add: d d(2) [unfolded One_nat_def])
  then show "canonical_interface ''GigabitEthernet0/1'' = Inr (''GigabitEthernet0/1'', GigabitEthernet)" by (rule canonical_fixed)
  have "canonical_name ''GigabitEthernet0/1.10'' EthernetSubinterface" using sub [OF p, of 10] by (simp add: d)
  then show "canonical_interface ''GigabitEthernet0/1.10'' = Inr (''GigabitEthernet0/1.10'', EthernetSubinterface)" by (rule canonical_fixed)
qed

lemma result_pair: "\<not> isl r \<Longrightarrow> r = Inr (fst (result_of r), snd (result_of r))"
  by (cases r) (simp_all add: result_of_def)

lemma layer_run:
  "ports_init layer_device0" "ports_step\<^sup>*\<^sup>* layer_device0 layer_device2"
proof -
  have "\<not> isl (Device_new 7 ''R7'' RouterDevice)" by code_simp
  then show "ports_init layer_device0"
    unfolding ports_init_def layer_device0_def using result_of_ok by blast
  have "\<not> isl (insert_interface ''GigabitEthernet0/1'' GigabitEthernet Rj45 layer_device0)" by code_simp
  then have "add_physical_interface ''GigabitEthernet0/1'' layer_device0 =
      Inr (fst (result_of (insert_interface ''GigabitEthernet0/1'' GigabitEthernet Rj45 layer_device0)), layer_device1)"
    unfolding add_physical_interface_def layer_names layer_device1_def by (simp add: result_of_ok [symmetric])
  then have "ports_step layer_device0 layer_device1" by (rule physical)
  moreover have "\<not> isl (create_subinterface ''GigabitEthernet0/1.10'' layer_device1)"
    "find_interface layer_device1 ''GigabitEthernet0/1.10'' = None" by code_simp+
  then have "ensure_interface ''GigabitEthernet0/1.10'' layer_device1 =
      Inr (fst (result_of (create_subinterface ''GigabitEthernet0/1.10'' layer_device1)), layer_device2)"
    unfolding ensure_interface_def layer_names layer_device2_def by (simp add: result_of_ok [symmetric])
  then have "ports_step layer_device1 layer_device2" by (rule logical)
  ultimately show "ports_step\<^sup>*\<^sup>* layer_device0 layer_device2" by (meson rtranclp.rtrancl_into_rtrancl rtranclp.rtrancl_refl)
qed

theorem interface_layering_witness: "ports_inv layer_device2"
  using layer_run by (rule interface_layering)

theorem protocol_up_terminates_witness:
  "protocol_up_fuel (2 + 5) layer_device2 (InterfaceId 2) = Some (protocol_up layer_device2 (InterfaceId 2)) \<and>
   channel_members_calls (protocol_up_fuel (2 + 5) layer_device2) layer_device2 (InterfaceId 2) = Some (channel_members layer_device2 (InterfaceId 2)) \<and>
   lacp_advertisement_calls (protocol_up_fuel (2 + 5) layer_device2) layer_device2 (InterfaceId 2) =
     Some (lacp_advertisement layer_device2 (InterfaceId 2)) \<and>
   protocol_up layer_device2 (InterfaceId 2) = protocol_up_with (protocol_up layer_device2) layer_device2 (InterfaceId 2)"
  using layer_run by (rule protocol_up_terminates)

theorem svi_refresh_total_witness:
  "refresh_svi_states layer_device2 \<noteq> None \<and>
   receive_lacp (InterfaceId 1) \<lparr>la_actor = LacpPortInfo_default, la_partner = LacpPortInfo_default, la_collector_delay = 0\<rparr> 5 layer_device2 \<noteq> None \<and>
   lacp_tick 5 layer_device2 \<noteq> None"
  using layer_run by (rule svi_refresh_total)

end
