(* ===== verification/Refinement.thy ===== *)
theory Refinement
  imports Machine
begin

text \<open>
  Refinement of an abstract machine: a state machine with an invariant, an abstraction of its states and
  the steps of the specification. When every concrete step is an abstract one, every concrete run is an
  abstract run, and what holds along abstract runs holds of the concrete machine.
\<close>

locale refinement_system = invariant_system init step inv
  for init :: "'s \<Rightarrow> bool" and step :: "'s \<Rightarrow> 's \<Rightarrow> bool" and inv :: "'s \<Rightarrow> bool" +
  fixes abs_state :: "'s \<Rightarrow> 'a" and abs_step :: "'a \<Rightarrow> 'a \<Rightarrow> bool"
  assumes simulation: "inv s \<Longrightarrow> step s t \<Longrightarrow> abs_step (abs_state s) (abs_state t)"
begin

lemma run_simulation: "rtranclp step s t \<Longrightarrow> inv s \<Longrightarrow> rtranclp abs_step (abs_state s) (abs_state t)"
proof (induction rule: rtranclp_induct)
  case (step t u)
  then have "abs_step (abs_state t) (abs_state u)" using simulation run_inv by blast
  then show ?case using step by (meson rtranclp.rtrancl_into_rtrancl)
qed simp

lemma reachable_simulation: "init s \<Longrightarrow> rtranclp step s t \<Longrightarrow> rtranclp abs_step (abs_state s) (abs_state t)"
  using init_inv run_simulation by blast

end

end
