(* ===== verification/Dev_Tcp.thy ===== *)
theory Dev_Tcp
  imports Device Refinement
begin

text \<open>
  The TCP stack of a device (\<open>rios-device/src/tcp.rs\<close>): listeners and the table of connections, with the
  operations that look a connection up by its socket. An operation returns its result and the device, as
  the source changes the connection before the packet is encoded. The table refines a collection of
  independent connections: seen through one socket, every run of the device is a run of one connection.
\<close>

section \<open>Operations\<close>

definition MAX_CONNECTIONS :: nat where "MAX_CONNECTIONS = 1024"

type_synonym tcp_result = "TcpError + Ipv4Packet"

definition tcp_packet :: "TcpSocket \<Rightarrow> TcpSegment \<Rightarrow> tcp_result" where
  "tcp_packet socket segment =
     (case TcpSegment_encode (so_local_address socket) (so_remote_address socket) segment of
        Inl e \<Rightarrow> Inl (TcpPacket e)
      | Inr payload \<Rightarrow> Inr \<lparr>ip_dscp_ecn = 0, ip_source = so_local_address socket, ip_destination = so_remote_address socket,
                          ip_ttl = 64, ip_protocol = Tcp, ip_payload = payload\<rparr>)"

abbreviation connections :: "Device \<Rightarrow> (SocketKey, TcpConnection) btree" where
  "connections d \<equiv> tr_connections (dv_tcp d)"

definition connection :: "Device \<Rightarrow> TcpSocket \<Rightarrow> TcpConnection option" where
  "connection d socket = bt_get (connections d) (socket_key socket)"

definition set_connections :: "(SocketKey, TcpConnection) btree \<Rightarrow> Device \<Rightarrow> Device" where
  "set_connections m d = d\<lparr>dv_tcp := (dv_tcp d)\<lparr>tr_connections := m\<rparr>\<rparr>"

definition put_connection :: "TcpSocket \<Rightarrow> TcpConnection \<Rightarrow> Device \<Rightarrow> Device" where
  "put_connection socket c d = set_connections (bt_insert (socket_key socket) c (connections d)) d"

definition tcp_listen :: "u16 \<Rightarrow> Device \<Rightarrow> TcpError + Device" where
  "tcp_listen port d =
     (if port = 0 then Inl TcpEndpoint
      else if 1024 \<le> card (tr_listeners (dv_tcp d)) \<and> port \<notin> tr_listeners (dv_tcp d) then Inl TcpCapacity
      else Inr (d\<lparr>dv_tcp := (dv_tcp d)\<lparr>tr_listeners := insert port (tr_listeners (dv_tcp d))\<rparr>\<rparr>))"

definition tcp_unlisten :: "u16 \<Rightarrow> Device \<Rightarrow> Device" where
  "tcp_unlisten port d = d\<lparr>dv_tcp := (dv_tcp d)\<lparr>tr_listeners := tr_listeners (dv_tcp d) - {port}\<rparr>\<rparr>"

definition tcp_set_idle_timeout :: "TcpSocket \<Rightarrow> u64 option \<Rightarrow> Device \<Rightarrow> TcpError + Device" where
  "tcp_set_idle_timeout socket timeout d =
     (case connection d socket of
        None \<Rightarrow> Inl TcpMissing
      | Some c \<Rightarrow> Inr (put_connection socket (c\<lparr>tc_idle_timeout_us := timeout\<rparr>) d))"

definition tcp_abort :: "TcpSocket \<Rightarrow> Device \<Rightarrow> tcp_result \<times> Device" where
  "tcp_abort socket d =
     (case connection d socket of
        None \<Rightarrow> (Inl TcpMissing, d)
      | Some c \<Rightarrow> (tcp_packet socket (TcpConnection_segment socket (TcpFlags_bitor RST ACK) [] c),
                  set_connections (bt_remove (socket_key socket) (connections d)) d))"

definition tcp_initial_sequence :: "Device \<Rightarrow> u32 \<times> Device" where
  "tcp_initial_sequence d =
     (let sequence = tr_next_sequence (dv_tcp d) + 64000
      in (sequence, d\<lparr>dv_tcp := (dv_tcp d)\<lparr>tr_next_sequence := sequence\<rparr>\<rparr>))"

definition is_multicast_ipv4 :: "ipv4 \<Rightarrow> bool" where
  "is_multicast_ipv4 a = (0xe0000000 \<le> a \<and> a \<le> 0xefffffff)"

definition tcp_connect :: "TcpSocket \<Rightarrow> SimTime \<Rightarrow> Device \<Rightarrow> tcp_result \<times> Device" where
  "tcp_connect socket now d =
     (if so_local_port socket = 0 \<or> so_remote_port socket = 0 \<or> \<not> owns_any_ipv4 d (so_local_address socket) \<or>
         so_remote_address socket = 0 \<or> is_multicast_ipv4 (so_remote_address socket) \<or> so_remote_address socket = - 1
      then (Inl TcpEndpoint, d)
      else if connection d socket \<noteq> None then (Inl TcpState, d)
      else if MAX_CONNECTIONS \<le> length (connections d) then (Inl TcpCapacity, d)
      else let (sequence, d1) = tcp_initial_sequence d; (syn, c) = connection_open socket sequence now
           in (tcp_packet socket syn, put_connection socket c d1))"

text \<open>The common shape of \<open>tcp_send\<close> and \<open>tcp_close\<close>.\<close>

definition on_connection ::
  "TcpSocket \<Rightarrow> (TcpConnection \<Rightarrow> TcpError + TcpSegment \<times> TcpConnection) \<Rightarrow> Device \<Rightarrow> tcp_result \<times> Device" where
  "on_connection socket operation d =
     (case connection d socket of
        None \<Rightarrow> (Inl TcpMissing, d)
      | Some c \<Rightarrow>
          (case operation c of
             Inl e \<Rightarrow> (Inl e, d)
           | Inr (segment, c') \<Rightarrow> (tcp_packet socket segment, put_connection socket c' d)))"

definition tcp_send :: "TcpSocket \<Rightarrow> bytes \<Rightarrow> SimTime \<Rightarrow> Device \<Rightarrow> tcp_result \<times> Device" where
  "tcp_send socket payload now d =
     (if payload = [] \<or> MAX_PAYLOAD < length payload then (Inl TcpCapacity, d)
      else on_connection socket (connection_send socket payload now) d)"

definition tcp_close :: "TcpSocket \<Rightarrow> SimTime \<Rightarrow> Device \<Rightarrow> tcp_result \<times> Device" where
  "tcp_close socket now d = on_connection socket (connection_close socket now) d"

definition tcp_read :: "TcpSocket \<Rightarrow> Device \<Rightarrow> (TcpError + bytes \<times> Ipv4Packet) \<times> Device" where
  "tcp_read socket d =
     (case connection d socket of
        None \<Rightarrow> (Inl TcpMissing, d)
      | Some c \<Rightarrow>
          let (data, segment, c') = connection_read socket c
          in (and_then (tcp_packet socket segment) (\<lambda>p. Inr (data, p)), put_connection socket c' d))"

definition ok_packet :: "tcp_result \<Rightarrow> Ipv4Packet option" where
  "ok_packet r = (case r of Inl _ \<Rightarrow> None | Inr p \<Rightarrow> Some p)"

definition tcp_refusal :: "TcpSocket \<Rightarrow> TcpSegment \<Rightarrow> SimTime \<Rightarrow> TcpSegment" where
  "tcp_refusal socket segment now =
     (let reset = TcpConnection_segment socket RST [] (TcpConnection_new 0 now)
      in if has_flag segment ACK then reset\<lparr>tcp_sequence := tcp_acknowledgment segment\<rparr>
         else reset\<lparr>tcp_flags := TcpFlags_bitor RST ACK,
                    tcp_acknowledgment := tcp_sequence segment + TcpSegment_sequence_len segment\<rparr>)"

definition segment_socket :: "Ipv4Packet \<Rightarrow> TcpSegment \<Rightarrow> TcpSocket" where
  "segment_socket p segment =
     \<lparr>so_local_address = ip_destination p, so_local_port = tcp_destination_port segment,
      so_remote_address = ip_source p, so_remote_port = tcp_source_port segment\<rparr>"

text \<open>The part of \<open>receive_tcp\<close> behind the decoder.\<close>

definition receive_segment :: "TcpSocket \<Rightarrow> TcpSegment \<Rightarrow> SimTime \<Rightarrow> Device \<Rightarrow> Ipv4Packet option \<times> Device" where
  "receive_segment socket segment now d =
     (case connection d socket of
        Some c \<Rightarrow>
          (case TcpConnection_receive socket segment now c of
             (reply, c') \<Rightarrow> (Option.bind reply (\<lambda>s. ok_packet (tcp_packet socket s)), put_connection socket c' d))
      | None \<Rightarrow>
          if has_flag segment RST then (None, d)
          else if tcp_flags segment = SYN \<and> so_local_port socket \<in> tr_listeners (dv_tcp d) \<and> length (connections d) < MAX_CONNECTIONS
          then let (sequence, d1) = tcp_initial_sequence d; (reply, c) = connection_accept socket sequence segment now
               in (ok_packet (tcp_packet socket reply), put_connection socket c d1)
          else (ok_packet (tcp_packet socket (tcp_refusal socket segment now)), d))"

definition receive_tcp :: "Ipv4Packet \<Rightarrow> SimTime \<Rightarrow> Device \<Rightarrow> Ipv4Packet option \<times> Device" where
  "receive_tcp incoming now d =
     (if ip_protocol incoming \<noteq> Tcp \<or> \<not> owns_any_ipv4 d (ip_destination incoming) then (None, d)
      else case TcpSegment_decode (ip_source incoming) (ip_destination incoming) (ip_payload incoming) of
          Inl _ \<Rightarrow> (None, d)
        | Inr segment \<Rightarrow> receive_segment (segment_socket incoming segment) segment now d)"

definition tcp_tick :: "SimTime \<Rightarrow> Device \<Rightarrow> Ipv4Packet list \<times> Device" where
  "tcp_tick now d =
     (let alive = filter (\<lambda>(_, c). connection_alive now c) (connections d)
      in (List.map_filter (\<lambda>(key, c). Option.bind (fst (connection_tick now c)) (\<lambda>s. ok_packet (tcp_packet (key_socket key) s))) alive,
          set_connections (map (\<lambda>(key, c). (key, snd (connection_tick now c))) alive) d))"

section \<open>The specification: one connection\<close>

text \<open>A packet that carries a segment of the peer to the socket: both addresses and both ports are the socket's.\<close>

definition carries :: "Ipv4Packet \<Rightarrow> TcpSegment \<Rightarrow> TcpSocket \<Rightarrow> bool" where
  "carries p segment socket =
     (ip_protocol p = Tcp \<and> TcpSegment_decode (ip_source p) (ip_destination p) (ip_payload p) = Inr segment \<and>
      so_local_address socket = ip_destination p \<and> so_remote_address socket = ip_source p \<and>
      so_local_port socket = tcp_destination_port segment \<and> so_remote_port socket = tcp_source_port segment)"

inductive socket_step :: "TcpSocket \<Rightarrow> TcpConnection option \<Rightarrow> TcpConnection option \<Rightarrow> bool" for socket where
  idle: "socket_step socket x x"
| opened: "connection_open socket sequence now = (s, c) \<Longrightarrow> socket_step socket None (Some c)"
| accepted: "carries p syn socket \<Longrightarrow> tcp_flags syn = SYN \<Longrightarrow> connection_accept socket sequence syn now = (s, c) \<Longrightarrow>
    socket_step socket None (Some c)"
| received: "carries p s socket \<Longrightarrow> TcpConnection_receive socket s now c = (r, c') \<Longrightarrow> socket_step socket (Some c) (Some c')"
| sent: "payload \<noteq> [] \<Longrightarrow> length payload \<le> MAX_PAYLOAD \<Longrightarrow> connection_send socket payload now c = Inr (s, c') \<Longrightarrow>
    socket_step socket (Some c) (Some c')"
| closed: "connection_close socket now c = Inr (s, c') \<Longrightarrow> socket_step socket (Some c) (Some c')"
| was_read: "connection_read socket c = (data, s, c') \<Longrightarrow> socket_step socket (Some c) (Some c')"
| configured: "socket_step socket (Some c) (Some (c\<lparr>tc_idle_timeout_us := timeout\<rparr>))"
| ticked: "connection_alive now c \<Longrightarrow> connection_tick now c = (r, c') \<Longrightarrow> socket_step socket (Some c) (Some c')"
| expired: "\<not> connection_alive now c \<Longrightarrow> socket_step socket (Some c) None"
| aborted: "socket_step socket (Some c) None"

section \<open>The device refines it\<close>

inductive tcp_step :: "Device \<Rightarrow> Device \<Rightarrow> bool" where
  listen: "tcp_listen port d = Inr d' \<Longrightarrow> tcp_step d d'"
| unlisten: "tcp_step d (tcp_unlisten port d)"
| timeout: "tcp_set_idle_timeout socket t d = Inr d' \<Longrightarrow> tcp_step d d'"
| abort: "tcp_abort socket d = (r, d') \<Longrightarrow> tcp_step d d'"
| connect: "tcp_connect socket now d = (r, d') \<Longrightarrow> tcp_step d d'"
| send: "tcp_send socket payload now d = (r, d') \<Longrightarrow> tcp_step d d'"
| close: "tcp_close socket now d = (r, d') \<Longrightarrow> tcp_step d d'"
| read: "tcp_read socket d = (r', d') \<Longrightarrow> tcp_step d d'"
| receive: "receive_tcp incoming now d = (reply, d') \<Longrightarrow> tcp_step d d'"
| tick: "tcp_tick now d = (sent, d') \<Longrightarrow> tcp_step d d'"

lemma socket_key_inj: "socket_key s = socket_key t \<longleftrightarrow> s = t"
  by (auto simp: socket_key_def)

lemma key_socket_key [simp]: "key_socket (socket_key s) = s"
  by (simp add: socket_key_def)

lemma connection_put: "connection (put_connection socket c d) s = (if s = socket then Some c else connection d s)"
  by (simp add: connection_def put_connection_def set_connections_def bt_get_insert socket_key_inj)

lemma connection_remove:
  "connection (set_connections (bt_remove (socket_key socket) (connections d)) d) s = (if s = socket then None else connection d s)"
  by (simp add: connection_def set_connections_def bt_get_remove socket_key_inj)

lemma initial_sequence: "tcp_initial_sequence d = (sequence, d1) \<Longrightarrow> connections d1 = connections d \<and> connection d1 s = connection d s"
  by (auto simp: tcp_initial_sequence_def Let_def connection_def)

lemma put_step: "socket_step socket (connection d socket) (Some c) \<Longrightarrow> socket_step s (connection d s) (connection (put_connection socket c d) s)"
  by (auto simp: connection_put intro: socket_step.idle)

definition tcp_inv :: "Device \<Rightarrow> bool" where
  "tcp_inv d = (bt_wf (connections d) \<and> length (connections d) \<le> MAX_CONNECTIONS \<and> finite (tr_listeners (dv_tcp d)) \<and>
     card (tr_listeners (dv_tcp d)) \<le> 1024 \<and> (\<forall>s c. connection d s = Some c \<longrightarrow> conn_ok c))"

text \<open>What an operation other than the clock can do to the table.\<close>

inductive table_change :: "Device \<Rightarrow> Device \<Rightarrow> bool" where
  same: "connections d' = connections d \<Longrightarrow> table_change d d'"
| changed: "connection d socket = Some c \<Longrightarrow> socket_step socket (Some c) (Some c') \<Longrightarrow> connections d' = connections (put_connection socket c' d) \<Longrightarrow>
    table_change d d'"
| added: "connection d socket = None \<Longrightarrow> socket_step socket None (Some c) \<Longrightarrow> length (connections d) < MAX_CONNECTIONS \<Longrightarrow>
    connections d' = connections (put_connection socket c d) \<Longrightarrow> table_change d d'"
| removed: "connection d socket = Some c \<Longrightarrow> connections d' = bt_remove (socket_key socket) (connections d) \<Longrightarrow> table_change d d'"

lemma put_connections: "connections (put_connection socket c d) = bt_insert (socket_key socket) c (connections d)"
  by (simp add: put_connection_def set_connections_def)

lemma on_connection_change:
  assumes "on_connection socket f d = (r, d')" "\<And>c s c'. f c = Inr (s, c') \<Longrightarrow> socket_step socket (Some c) (Some c')"
  shows "table_change d d'"
proof (cases "connection d socket")
  case None
  then show ?thesis using assms(1) by (simp add: on_connection_def table_change.same)
next
  case (Some c)
  show ?thesis
  proof (cases "f c")
    case (Inr x)
    obtain t c' where x: "x = (t, c')" by (cases x)
    then have "d' = put_connection socket c' d" using assms(1) Some Inr by (simp add: on_connection_def)
    moreover have "socket_step socket (Some c) (Some c')" using assms(2) Inr x by simp
    ultimately show ?thesis using changed [OF Some] by simp
  qed (use assms(1) Some in \<open>simp add: on_connection_def table_change.same\<close>)
qed

lemma new_connection_change:
  assumes "connection d socket = None" "length (connections d) < MAX_CONNECTIONS" "socket_step socket None (Some c)"
    "tcp_initial_sequence d = (sequence, d1)"
  shows "table_change d (put_connection socket c d1)"
  using added [OF assms(1, 3, 2)] initial_sequence [OF assms(4)] by (simp add: put_connections)

lemma receive_segment_change:
  assumes "receive_segment socket segment now d = (reply, d')" "carries p segment socket"
  shows "table_change d d'"
proof (cases "connection d socket")
  case (Some c)
  obtain r c' where r: "TcpConnection_receive socket segment now c = (r, c')" by fastforce
  then have "d' = put_connection socket c' d" using assms Some by (simp add: receive_segment_def)
  then show ?thesis using changed [OF Some received [OF assms(2) r]] by simp
next
  case None
  obtain sequence d1 where d1: "tcp_initial_sequence d = (sequence, d1)" by fastforce
  obtain t c where c: "connection_accept socket sequence segment now = (t, c)" by fastforce
  consider "d' = d" | "tcp_flags segment = SYN" "length (connections d) < MAX_CONNECTIONS" "d' = put_connection socket c d1"
    using assms(1) None d1 c by (auto simp: receive_segment_def split: if_splits)
  then show ?thesis
    using new_connection_change [OF None _ accepted [OF assms(2) _ c] d1] by cases (auto intro: table_change.same)
qed

lemma receive_carries:
  assumes "receive_tcp incoming now d = (reply, d')"
  obtains "d' = d" | socket segment where "receive_segment socket segment now d = (reply, d')" "carries incoming segment socket"
proof (cases "ip_protocol incoming = Tcp \<and> owns_any_ipv4 d (ip_destination incoming)")
  case True
  show thesis
  proof (cases "TcpSegment_decode (ip_source incoming) (ip_destination incoming) (ip_payload incoming)")
    case (Inr segment)
    have "carries incoming segment (segment_socket incoming segment)"
      using True Inr by (simp add: carries_def segment_socket_def)
    moreover have "receive_segment (segment_socket incoming segment) segment now d = (reply, d')"
      using assms True Inr by (simp add: receive_tcp_def)
    ultimately show thesis using that(2) by blast
  qed (use assms True that(1) in \<open>simp add: receive_tcp_def\<close>)
qed (use assms that(1) in \<open>auto simp: receive_tcp_def\<close>)

lemma tcp_connect_change: "tcp_connect socket now d = (r, d') \<Longrightarrow> table_change d d'"
proof -
  assume op: "tcp_connect socket now d = (r, d')"
  obtain sequence d1 where d1: "tcp_initial_sequence d = (sequence, d1)" by fastforce
  obtain t c where c: "connection_open socket sequence now = (t, c)" by fastforce
  consider "d' = d" | "connection d socket = None" "length (connections d) < MAX_CONNECTIONS" "d' = put_connection socket c d1"
    using op d1 c by (auto simp: tcp_connect_def not_le split: if_splits)
  then show ?thesis
    using new_connection_change [OF _ _ opened [OF c] d1] by cases (auto intro: table_change.same)
qed

lemma tcp_step_change:
  assumes "tcp_step d d'"
  shows "table_change d d' \<or> (\<exists>now. connections d' = connections (snd (tcp_tick now d)))"
  using assms
proof cases
  case (timeout socket t)
  then obtain c where "connection d socket = Some c" "d' = put_connection socket (c\<lparr>tc_idle_timeout_us := t\<rparr>) d"
    by (auto simp: tcp_set_idle_timeout_def split: option.splits)
  then show ?thesis using changed [OF _ configured] by blast
next
  case (abort socket r)
  show ?thesis
  proof (cases "connection d socket")
    case (Some c)
    then show ?thesis using abort removed [OF Some] by (auto simp: tcp_abort_def set_connections_def)
  qed (use abort in \<open>simp add: tcp_abort_def table_change.same\<close>)
next
  case (connect socket now r)
  then show ?thesis using tcp_connect_change by blast
next
  case (send socket payload now r)
  then have "d' = d \<or> payload \<noteq> [] \<and> length payload \<le> MAX_PAYLOAD \<and> on_connection socket (connection_send socket payload now) d = (r, d')"
    by (auto simp: tcp_send_def not_le split: if_splits)
  then show ?thesis using on_connection_change [of socket _ d r d'] socket_step.sent table_change.same by metis
next
  case (close socket now r)
  then show ?thesis using on_connection_change [of socket _ d r d'] socket_step.closed by (metis tcp_close_def)
next
  case (read socket r')
  show ?thesis
  proof (cases "connection d socket")
    case (Some c)
    obtain data t c' where "connection_read socket c = (data, t, c')" by (metis prod_cases3)
    then show ?thesis using read Some changed [OF Some socket_step.was_read] by (auto simp: tcp_read_def)
  qed (use read in \<open>simp add: tcp_read_def table_change.same\<close>)
next
  case (receive incoming now reply)
  from receive(1) show ?thesis
    by (cases rule: receive_carries) (auto intro: receive_segment_change table_change.same)
next
  case (tick now sent)
  then show ?thesis by (metis snd_conv)
qed (auto intro!: table_change.same simp: tcp_listen_def tcp_unlisten_def split: if_splits)

section \<open>Every socket sees one connection\<close>

lemma connection_cong: "connections d' = connections d \<Longrightarrow> connection d' s = connection d s"
  by (simp add: connection_def)

lemma table_change_step: "table_change d d' \<Longrightarrow> socket_step s (connection d s) (connection d' s)"
proof (induction rule: table_change.cases)
  case (same d' d)
  then show ?thesis using connection_cong [OF same(3)] by (simp add: socket_step.idle)
next
  case (changed d socket c c' d')
  then show ?thesis using connection_cong [OF changed(5), of s] by (simp add: connection_put socket_step.idle)
next
  case (added d socket c d')
  then show ?thesis using connection_cong [OF added(6), of s] by (simp add: connection_put socket_step.idle)
next
  case (removed d socket c d')
  then have "connection d' s = (if s = socket then None else connection d s)"
    by (simp add: connection_def bt_get_remove socket_key_inj)
  then show ?thesis using removed by (simp add: socket_step.idle socket_step.aborted)
qed

lemma bt_get_filter: "bt_wf m \<Longrightarrow> bt_get (filter P m) k = (case bt_get m k of None \<Rightarrow> None | Some v \<Rightarrow> if P (k, v) then Some v else None)"
proof -
  assume wf: "bt_wf m"
  have "bt_get (filter P m) k = Some v \<longleftrightarrow> bt_get m k = Some v \<and> P (k, v)" for v
    using bt.entries_get [OF wf, of k v] bt.entries_get [OF wf_filter [OF wf], of k v P] by simp
  note get = this
  show ?thesis
  proof (cases "bt_get (filter P m) k")
    case None
    then have "\<not> P (k, v)" if "bt_get m k = Some v" for v using get [of v] that by simp
    then show ?thesis using None by (simp split: option.split)
  next
    case (Some v)
    then show ?thesis using get [of v] by simp
  qed
qed

lemma bt_get_map_values: "bt_get (map (\<lambda>(k, v). (k, f v)) m) k = map_option f (bt_get m k)"
  by (induction m) (auto simp: bt_get_def)

lemma tick_connection:
  assumes "bt_wf (connections d)" "connections d' = connections (snd (tcp_tick now d))"
  shows "connection d' s = (case connection d s of None \<Rightarrow> None
    | Some c \<Rightarrow> if connection_alive now c then Some (snd (connection_tick now c)) else None)"
  using assms(1)
  by (simp add: connection_def assms(2) tcp_tick_def Let_def set_connections_def bt_get_map_values bt_get_filter split: option.split)

lemma tick_step:
  assumes "bt_wf (connections d)" "connections d' = connections (snd (tcp_tick now d))"
  shows "socket_step s (connection d s) (connection d' s)"
  unfolding tick_connection [OF assms]
  by (auto intro: socket_step.idle socket_step.expired socket_step.ticked [OF _ prod.collapse [symmetric]] split: option.split)

lemma send_conn_ok: "conn_ok c \<Longrightarrow> TcpConnection_send socket f p now c = (s, c') \<Longrightarrow> conn_ok c'"
  using send_fields(1, 3, 4, 5) [of socket f p now c] by (simp add: conn_ok_def)

lemma new_conn_ok: "st \<in> {SynSent, SynReceived} \<Longrightarrow> conn_ok (TcpConnection_new sequence now\<lparr>tc_state := st\<rparr>)"
  by (auto simp: conn_ok_def TcpConnection_new_def)

lemma socket_step_ok: "socket_step socket x (Some c') \<Longrightarrow> \<forall>c. x = Some c \<longrightarrow> conn_ok c \<Longrightarrow> conn_ok c'"
proof (induction x "Some c'" rule: socket_step.induct)
  case (opened sequence now s)
  then show ?case using send_conn_ok [OF new_conn_ok [of SynSent sequence now]] by (simp add: connection_open_def)
next
  case (accepted p syn sequence now s)
  have "conn_ok ((TcpConnection_new sequence now)\<lparr>tc_state := SynReceived, tc_passive := True, tc_receive_next := tcp_sequence syn + 1,
          tc_peer_window := tcp_window syn\<rparr>)" by (simp add: conn_ok_def TcpConnection_new_def)
  then show ?case using accepted send_conn_ok by (simp add: connection_accept_def)
next
  case (received p s now c r)
  then show ?case using receive_conn_ok by blast
next
  case (sent payload now c s)
  then show ?case using send_conn_ok by (auto simp: connection_send_def split: if_splits)
next
  case (closed now c s)
  have "tc_state c = TcpEstablished \<Longrightarrow> conn_ok (c\<lparr>tc_state := FinWait\<rparr>)" "tc_state c = CloseWait \<Longrightarrow> conn_ok (c\<lparr>tc_state := LastAck\<rparr>)"
    using closed.prems by (auto simp: conn_ok_def)
  then show ?case using closed.hyps send_conn_ok by (auto simp: connection_close_def split: if_splits)
next
  case (was_read c data s)
  then show ?case by (auto simp: connection_read_def conn_ok_def Let_def)
next
  case (ticked now c r)
  have "tc_received c' = tc_received c \<and> tc_peer_closed c' = tc_peer_closed c \<and> tc_time_wait_until c' = tc_time_wait_until c \<and>
      tc_state c' \<in> {tc_state c, TcpClosed}"
    using ticked.hyps by (simp add: connection_tick_def Let_def split: option.splits if_splits) auto
  then show ?case using ticked.prems by (auto simp: conn_ok_def)
qed (auto simp: conn_ok_def)

lemma table_change_bounds:
  assumes "table_change d d'" "bt_wf (connections d)" "length (connections d) \<le> MAX_CONNECTIONS"
  shows "bt_wf (connections d') \<and> length (connections d') \<le> MAX_CONNECTIONS"
  using assms
proof (induction rule: table_change.cases)
  case (removed d socket c d')
  then show ?thesis using length_bt_remove [of "socket_key socket" "connections d"] bt.wf_remove by fastforce
qed (auto simp: put_connections bt.wf_insert length_bt_insert connection_def)

lemma tick_bounds:
  assumes "connections d' = connections (snd (tcp_tick now d))" "bt_wf (connections d)" "length (connections d) \<le> MAX_CONNECTIONS"
  shows "bt_wf (connections d') \<and> length (connections d') \<le> MAX_CONNECTIONS"
proof -
  let ?alive = "filter (\<lambda>(_, c). connection_alive now c) (connections d)"
  have "connections d' = map (\<lambda>(key, c). (key, snd (connection_tick now c))) ?alive"
    using assms(1) by (simp add: tcp_tick_def Let_def set_connections_def)
  then show ?thesis
    using wf_filter [OF assms(2)] bt_wf_map [of "\<lambda>_ c. snd (connection_tick now c)" ?alive] 
      order.trans [OF length_filter_le [of "\<lambda>(_, c). connection_alive now c" "connections d"] assms(3)] by simp
qed

lemma step_listeners:
  assumes "tcp_step d d'" "finite (tr_listeners (dv_tcp d))" "card (tr_listeners (dv_tcp d)) \<le> 1024"
  shows "finite (tr_listeners (dv_tcp d')) \<and> card (tr_listeners (dv_tcp d')) \<le> 1024"
  using assms
proof cases
  case (listen port)
  then show ?thesis using assms(2, 3) by (auto simp: tcp_listen_def card_insert_if split: if_splits)
next
  case (unlisten port)
  then show ?thesis using assms(2, 3) card_Diff1_le [of "tr_listeners (dv_tcp d)" port] by (simp add: tcp_unlisten_def)
qed (auto simp: tcp_set_idle_timeout_def tcp_abort_def tcp_connect_def tcp_send_def tcp_close_def on_connection_def tcp_read_def
    receive_tcp_def receive_segment_def tcp_tick_def put_connection_def set_connections_def tcp_initial_sequence_def Let_def
    split: option.splits if_splits sum.splits prod.splits)

definition tcp_init :: "Device \<Rightarrow> bool" where
  "tcp_init d = (connections d = [] \<and> tr_listeners (dv_tcp d) = {})"

lemma tcp_init_inv: "tcp_init d \<Longrightarrow> tcp_inv d"
  by (simp add: tcp_init_def tcp_inv_def connection_def)

lemma tcp_socket_step: "tcp_inv d \<Longrightarrow> tcp_step d d' \<Longrightarrow> socket_step s (connection d s) (connection d' s)"
  using tcp_step_change table_change_step tick_step unfolding tcp_inv_def by blast

lemma tcp_step_inv: "tcp_inv d \<Longrightarrow> tcp_step d d' \<Longrightarrow> tcp_inv d'"
proof -
  assume inv: "tcp_inv d" and step: "tcp_step d d'"
  have "bt_wf (connections d') \<and> length (connections d') \<le> MAX_CONNECTIONS"
    using tcp_step_change [OF step] inv table_change_bounds tick_bounds unfolding tcp_inv_def by blast
  moreover have "finite (tr_listeners (dv_tcp d')) \<and> card (tr_listeners (dv_tcp d')) \<le> 1024"
    using step_listeners [OF step] inv unfolding tcp_inv_def by blast
  moreover have "conn_ok c" if "connection d' s = Some c" for s c
    using socket_step_ok [of s "connection d s" c] tcp_socket_step [OF inv step, of s] inv that unfolding tcp_inv_def by simp
  ultimately show ?thesis by (simp add: tcp_inv_def)
qed

interpretation tcp_machine: refinement_system tcp_init tcp_step tcp_inv "\<lambda>d. connection d s" "socket_step s" for s
  by unfold_locales (auto intro: tcp_init_inv tcp_step_inv tcp_socket_step)

section \<open>Properties\<close>

text \<open>
  C12. The table of connections refines independent connections: in every run of the device's TCP
  operations, arriving packets and clock ticks, what happens at one socket is a run of a single
  connection, whatever the other sockets do: it is opened by its own calls or by a SYN, and receives segments,
  only from packets that carry its addresses and ports; the table holds at most 1024 connections and listeners, and
  every connection keeps its receive buffer within the window it advertises.
\<close>
theorem tcp_table_refinement:
  assumes "tcp_init d0" "tcp_step\<^sup>*\<^sup>* d0 d"
  shows "(socket_step socket)\<^sup>*\<^sup>* None (connection d socket) \<and> length (connections d) \<le> 1024 \<and>
    card (tr_listeners (dv_tcp d)) \<le> 1024 \<and> connection d socket \<in> {None} \<union> Some ` {c. length (tc_received c) \<le> 65535}"
proof -
  have inv: "tcp_inv d" using assms by (rule tcp_machine.reachable_inv)
  have "connection d0 socket = None" using assms(1) by (simp add: tcp_init_def connection_def)
  then have "(socket_step socket)\<^sup>*\<^sup>* None (connection d socket)"
    using tcp_machine.reachable_simulation [OF assms, of socket] by simp
  moreover have "connection d socket \<in> {None} \<union> Some ` {c. length (tc_received c) \<le> 65535}"
    using inv by (cases "connection d socket") (auto simp: tcp_inv_def conn_ok_def RECEIVE_LIMIT_def)
  ultimately show ?thesis using inv by (simp add: tcp_inv_def MAX_CONNECTIONS_def)
qed

text \<open>A router that owns the client's address on its first interface, and opens the connection.\<close>

definition tcp_host :: Device where
  "tcp_host = result_of (with_config (InterfaceId 1) (\<lambda>c. c\<lparr>if_ipv4 := Some \<lparr>ic_address = 1, ic_prefix_len = 24\<rparr>, if_admin_state := AdminUp\<rparr>)
     (standalone\<lparr>dv_interfaces := map (\<lambda>(port, i). (port, i\<lparr>it_link_state := Up\<rparr>)) (dv_interfaces standalone)\<rparr>))"

definition tcp_opened :: Device where
  "tcp_opened = snd (tcp_connect client_socket 0 tcp_host)"

theorem tcp_table_refinement_witness:
  "(socket_step client_socket)\<^sup>*\<^sup>* None (connection tcp_opened client_socket) \<and> length (connections tcp_opened) \<le> 1024 \<and>
    card (tr_listeners (dv_tcp tcp_opened)) \<le> 1024 \<and>
    connection tcp_opened client_socket \<in> {None} \<union> Some ` {c. length (tc_received c) \<le> 65535} \<and>
    map_option tc_state (connection tcp_opened client_socket) = Some SynSent"
proof -
  have "tcp_init tcp_host" unfolding tcp_init_def by code_simp
  moreover have "tcp_step tcp_host tcp_opened"
    unfolding tcp_opened_def by (rule connect [of client_socket 0 tcp_host "fst (tcp_connect client_socket 0 tcp_host)"]) simp
  then have "tcp_step\<^sup>*\<^sup>* tcp_host tcp_opened" by simp
  moreover have "owns_any_ipv4 tcp_host (so_local_address client_socket)" by code_simp
  then have "map_option tc_state (connection tcp_opened client_socket) = Some SynSent"
    using \<open>tcp_init tcp_host\<close>
    by (simp add: tcp_opened_def tcp_connect_def client_socket_def is_multicast_ipv4_def tcp_init_def MAX_CONNECTIONS_def
      connection_def [of tcp_host] tcp_initial_sequence_def Let_def connection_open_def connection_put case_prod_beta send_fields(4))
  ultimately show ?thesis using tcp_table_refinement [of tcp_host tcp_opened client_socket] by blast
qed

end
