(* ===== verification/Dev_Dhcp.thy ===== *)
theory Dev_Dhcp
  imports Dev_Ports Machine
begin

text \<open>
  The DHCP server and client state of a device (\<open>dhcp.rs\<close>, \<open>dhcp/config.rs\<close>): pools, excluded ranges, offers,
  bindings, declined addresses and the leases of client interfaces. The search for a free address is a
  loop that jumps over excluded ranges; it ends, and it finds the least address the pool allows.
\<close>

section \<open>Configuration\<close>

definition MAX_DHCP_BINDINGS :: nat where "MAX_DHCP_BINDINGS = 8192"
definition DHCP_OFFER_MS :: u64 where "DHCP_OFFER_MS = 60000"

abbreviation dhcp_pools :: "Device \<Rightarrow> (DhcpPoolId, DhcpPoolConfig) btree" where
  "dhcp_pools d \<equiv> rc_dhcp_pools (dv_running_config d)"

abbreviation dhcp_excluded :: "Device \<Rightarrow> (ipv4, ipv4) btree" where
  "dhcp_excluded d \<equiv> rc_dhcp_excluded (dv_running_config d)"

definition set_dhcp_pools :: "(DhcpPoolId, DhcpPoolConfig) btree \<Rightarrow> Device \<Rightarrow> Device" where
  "set_dhcp_pools m d = d\<lparr>dv_running_config := (dv_running_config d)\<lparr>rc_dhcp_pools := m\<rparr>\<rparr>"

definition valid_address :: "ipv4 \<Rightarrow> bool" where
  "valid_address a = (drop_bit 24 a \<noteq> 0 \<and> drop_bit 24 a < 224 \<and> drop_bit 24 a \<noteq> 127)"

definition dhcp_capable :: "Device \<Rightarrow> bool" where
  "dhcp_capable d = (supports_routing d \<or> dv_device_type d = Host)"

definition ensure_dhcp_pool :: "string \<Rightarrow> Device \<Rightarrow> DeviceError + DhcpPoolId \<times> Device" where
  "ensure_dhcp_pool name d =
     (if \<not> dhcp_capable d then Inl DhcpNotSupported
      else if name = [] \<or> 32 < length name \<or> \<not> list_all is_graphic name then Inl InvalidDhcpPoolName
      else case find (\<lambda>(_, pool). lower (dp_name pool) = lower name) (dhcp_pools d) of
          Some (number, _) \<Rightarrow> Inr (number, d)
        | None \<Rightarrow>
            if 1024 \<le> length (dhcp_pools d) then Inl InvalidDhcpNetwork
            else let number = (if dhcp_pools d = [] then 1 else saturating_add (fst (last (dhcp_pools d))) 1);
                     pool = \<lparr>dp_lease_seconds = 3600, dp_dns_servers = [], dp_domain_name = None, dp_reserved_address = None,
                             dp_hardware_address = None, dp_name = name, dp_network = None, dp_default_router = None\<rparr>
                 in Inr (number, set_dhcp_pools (bt_insert number pool (dhcp_pools d)) d))"

definition domain_valid :: "string \<Rightarrow> bool" where
  "domain_valid name =
     (name \<noteq> [] \<and> length name \<le> 253 \<and> list_all (\<lambda>c. is_ascii_alpha c \<or> is_digit c \<or> c = CHR ''.'' \<or> c = CHR ''-'') name)"

definition pool_valid :: "DhcpPoolConfig \<Rightarrow> bool" where
  "pool_valid pool =
     (60 \<le> dp_lease_seconds pool \<and> dp_lease_seconds pool \<le> 365 * 86400 \<and> dp_lease_seconds pool mod 60 = 0 \<and>
      length (dp_dns_servers pool) \<le> 8 \<and> list_all valid_address (dp_dns_servers pool) \<and>
      (case dp_default_router pool of None \<Rightarrow> True | Some ip \<Rightarrow> valid_address ip) \<and>
      (case dp_domain_name pool of None \<Rightarrow> True | Some name \<Rightarrow> domain_valid name) \<and>
      (case dp_network pool of None \<Rightarrow> True | Some network \<Rightarrow> nw_prefix_len network \<le> 30) \<and>
      (case dp_reserved_address pool of
         None \<Rightarrow> True
       | Some a \<Rightarrow>
           (case dp_network pool of
              None \<Rightarrow> False
            | Some network \<Rightarrow> Ipv4Network_contains network a \<and> a \<noteq> nw_address network \<and> a \<noteq> Ipv4Network_broadcast network)) \<and>
      (case dp_hardware_address pool of
         None \<Rightarrow> True
       | Some mac \<Rightarrow> \<not> MacAddress_is_multicast mac \<and> mac \<noteq> MacAddress 0 0 0 0 0 0))"

definition update_dhcp_pool :: "DhcpPoolId \<Rightarrow> DhcpPoolConfig \<Rightarrow> Device \<Rightarrow> DeviceError + Device" where
  "update_dhcp_pool number pool d =
     (case bt_get (dhcp_pools d) number of
        None \<Rightarrow> Inl MissingDhcpPool
      | Some old \<Rightarrow>
          if dp_name pool \<noteq> dp_name old \<or> \<not> pool_valid pool then Inl InvalidDhcpNetwork
          else Inr (set_dhcp_pools (bt_insert number pool (dhcp_pools d)) d
                      \<lparr>dv_dhcp_offers := filter (\<lambda>(_, offer). do_pool offer \<noteq> number) (dv_dhcp_offers d)\<rparr>))"

definition set_dhcp_pool_network :: "DhcpPoolId \<Rightarrow> Ipv4Network \<Rightarrow> Device \<Rightarrow> DeviceError + Device" where
  "set_dhcp_pool_network number network d =
     (if 30 < nw_prefix_len network then Inl InvalidDhcpNetwork
      else case bt_get (dhcp_pools d) number of
          None \<Rightarrow> Inl MissingDhcpPool
        | Some pool \<Rightarrow> update_dhcp_pool number (pool\<lparr>dp_network := Some network\<rparr>) d)"

definition set_dhcp_default_router :: "DhcpPoolId \<Rightarrow> ipv4 \<Rightarrow> Device \<Rightarrow> DeviceError + Device" where
  "set_dhcp_default_router number address d =
     (case bt_get (dhcp_pools d) number of
        None \<Rightarrow> Inl MissingDhcpPool
      | Some pool \<Rightarrow> update_dhcp_pool number (pool\<lparr>dp_default_router := Some address\<rparr>) d)"

definition exclude_dhcp_addresses :: "ipv4 \<Rightarrow> ipv4 \<Rightarrow> Device \<Rightarrow> DeviceError + Device" where
  "exclude_dhcp_addresses first until d =
     (if \<not> dhcp_capable d then Inl DhcpNotSupported
      else if until < first \<or> \<not> valid_address first \<or> \<not> valid_address until \<or>
              4096 \<le> length (dhcp_excluded d) \<and> bt_get (dhcp_excluded d) first = None then Inl InvalidDhcpNetwork
      else Inr (d\<lparr>dv_running_config := (dv_running_config d)\<lparr>rc_dhcp_excluded := bt_insert first until (dhcp_excluded d)\<rparr>,
                  dv_dhcp_offers := filter (\<lambda>(_, offer). do_address offer < first \<or> until < do_address offer) (dv_dhcp_offers d)\<rparr>))"

definition set_dhcp_helper :: "InterfaceId \<Rightarrow> ipv4 \<Rightarrow> Device \<Rightarrow> DeviceError + Device" where
  "set_dhcp_helper port address d =
     (if \<not> supports_routing d then Inl DhcpNotSupported
      else if \<not> valid_address address then Inl InvalidDhcpNetwork
      else with_config port (\<lambda>c. c\<lparr>if_helper_address := Some address\<rparr>) d)"

section \<open>The server\<close>

definition expire_dhcp_server_state :: "SimTime \<Rightarrow> Device \<Rightarrow> Device" where
  "expire_dhcp_server_state now d =
     d\<lparr>dv_dhcp_conflicts := filter (\<lambda>(_, deadline). now < deadline) (dv_dhcp_conflicts d),
       dv_dhcp_offers := filter (\<lambda>(_, offer). now < do_expires_at offer) (dv_dhcp_offers d),
       dv_dhcp_bindings := filter (\<lambda>(_, binding). now < db_expires_at binding) (dv_dhcp_bindings d)\<rparr>"

definition pool_matches :: "MacAddress \<Rightarrow> ipv4 \<Rightarrow> DhcpPoolConfig \<Rightarrow> bool" where
  "pool_matches client subnet pool =
     ((case dp_network pool of None \<Rightarrow> False | Some network \<Rightarrow> Ipv4Network_contains network subnet) \<and>
      (dp_hardware_address pool = None \<or> dp_hardware_address pool = Some client) \<and>
      (dp_reserved_address pool = None \<or> dp_hardware_address pool = Some client))"

definition select_pool :: "Device \<Rightarrow> MacAddress \<Rightarrow> ipv4 \<Rightarrow> (DhcpPoolId \<times> DhcpPoolConfig) option" where
  "select_pool d client subnet =
     min_by_key (\<lambda>(number, pool). (dp_reserved_address pool = None, number))
       (filter (\<lambda>(_, pool). pool_matches client subnet pool) (dhcp_pools d))"

definition used_addresses :: "Device \<Rightarrow> MacAddress \<Rightarrow> ipv4 set" where
  "used_addresses d client =
     set (map (\<lambda>(_, b). db_address b) (filter (\<lambda>(mac, _). mac \<noteq> client) (dv_dhcp_bindings d)) @
          map (\<lambda>(_, offer). do_address offer) (filter (\<lambda>(mac, _). mac \<noteq> client) (dv_dhcp_offers d)) @
          List.map_filter (\<lambda>(port, _). map_option ic_address (interface_ipv4 d port)) (if_configs d) @
          List.map_filter (\<lambda>(_, pool). if dp_hardware_address pool \<noteq> Some client then dp_reserved_address pool else None) (dhcp_pools d) @
          map fst (dv_dhcp_conflicts d))"

definition excluded :: "(ipv4, ipv4) btree \<Rightarrow> ipv4 \<Rightarrow> bool" where
  "excluded ranges a = list_ex (\<lambda>(first, until). first \<le> a \<and> a \<le> until) ranges"

definition dhcp_allowed :: "Device \<Rightarrow> MacAddress \<Rightarrow> DhcpPoolConfig \<Rightarrow> Ipv4Network \<Rightarrow> ipv4 \<Rightarrow> bool" where
  "dhcp_allowed d client pool network a =
     (Ipv4Network_contains network a \<and> a \<noteq> nw_address network \<and> a \<noteq> Ipv4Network_broadcast network \<and>
      a \<notin> used_addresses d client \<and> dp_default_router pool \<noteq> Some a \<and> \<not> excluded (dhcp_excluded d) a)"

text \<open>The end of the excluded ranges that cover an address.\<close>

definition excluded_end :: "(ipv4, ipv4) btree \<Rightarrow> ipv4 \<Rightarrow> ipv4 option" where
  "excluded_end ranges a =
     (let ends = map snd (filter (\<lambda>(first, until). first \<le> a \<and> a \<le> until) ranges)
      in if ends = [] then None else Some (Max (set ends)))"

lemma excluded_end_Some: "excluded_end ranges a = Some e \<Longrightarrow> a \<le> e \<and> (\<exists>first. (first, e) \<in> set ranges \<and> first \<le> a)"
proof -
  assume e: "excluded_end ranges a = Some e"
  let ?ends = "map snd (filter (\<lambda>(first, until). first \<le> a \<and> a \<le> until) ranges)"
  have "?ends \<noteq> []" "e = Max (set ?ends)" using e by (auto simp: excluded_end_def Let_def split: if_splits)
  then have "e \<in> set ?ends" using Max_in [OF finite_set, of ?ends] by (simp only: set_empty not_False_eq_True)
  then show ?thesis by auto
qed

lemma excluded_end_None: "excluded_end ranges a = None \<longleftrightarrow> \<not> excluded ranges a"
  by (auto simp: excluded_end_def excluded_def Let_def filter_empty_conv list_ex_iff)

function dhcp_search :: "(ipv4, ipv4) btree \<Rightarrow> (ipv4 \<Rightarrow> bool) \<Rightarrow> ipv4 \<Rightarrow> ipv4 \<Rightarrow> ipv4 option" where
  "dhcp_search ranges allowed final candidate =
     (if final < candidate then None
      else case excluded_end ranges candidate of
          Some e \<Rightarrow> (case checked_add e 1 of None \<Rightarrow> None | Some next \<Rightarrow> dhcp_search ranges allowed final next)
        | None \<Rightarrow>
            if allowed candidate then Some candidate
            else case checked_add candidate 1 of None \<Rightarrow> None | Some next \<Rightarrow> dhcp_search ranges allowed final next)"
  by pat_completeness auto
termination
proof (relation "measure (\<lambda>(_, _, _, candidate). 2 ^ 32 - unat candidate)")
  have bound: "unat x < 2 ^ 32" for x :: ipv4 using unat_bound [of x] by simp
  fix ranges :: "(ipv4, ipv4) btree" and allowed :: "ipv4 \<Rightarrow> bool" and final candidate :: ipv4
  show "((ranges, allowed, final, n), ranges, allowed, final, candidate) \<in> measure (\<lambda>(_, _, _, candidate). 2 ^ 32 - unat candidate)"
    if "excluded_end ranges candidate = Some e" "checked_add e 1 = Some n" for e n
    using excluded_end_Some [OF that(1)] unat_checked_add [OF that(2)] bound [of n] by (auto simp: word_le_nat_alt)
  show "((ranges, allowed, final, n), ranges, allowed, final, candidate) \<in> measure (\<lambda>(_, _, _, candidate). 2 ^ 32 - unat candidate)"
    if "checked_add candidate 1 = Some n" for n
    using unat_checked_add [OF that] bound [of n] by simp
qed simp

declare dhcp_search.simps [simp del]

definition choose_address :: "Device \<Rightarrow> MacAddress \<Rightarrow> DhcpPoolConfig \<Rightarrow> Ipv4Network \<Rightarrow> ipv4 option \<Rightarrow> ipv4 option" where
  "choose_address d client pool network previous =
     (let allowed = dhcp_allowed d client pool network
      in case dp_reserved_address pool of
           Some a \<Rightarrow> if allowed a then Some a else None
         | None \<Rightarrow>
             (case previous of
                Some a \<Rightarrow>
                  if allowed a then Some a
                  else dhcp_search (dhcp_excluded d) allowed (saturating_sub (Ipv4Network_broadcast network) 1) (saturating_add (nw_address network) 1)
              | None \<Rightarrow>
                  dhcp_search (dhcp_excluded d) allowed (saturating_sub (Ipv4Network_broadcast network) 1) (saturating_add (nw_address network) 1)))"

definition previous_address :: "Device \<Rightarrow> MacAddress \<Rightarrow> DhcpPoolConfig \<Rightarrow> ipv4 option" where
  "previous_address d client pool =
     (case bt_get (dv_dhcp_bindings d) client of
        None \<Rightarrow> None
      | Some b \<Rightarrow> if db_pool_name b = dp_name pool then Some (db_address b) else None)"

definition new_offer :: "DhcpPoolId \<Rightarrow> DhcpPoolConfig \<Rightarrow> Ipv4Network \<Rightarrow> ipv4 \<Rightarrow> ipv4 \<Rightarrow> SimTime \<Rightarrow> DhcpOffer" where
  "new_offer number pool network server_id address now =
     \<lparr>do_address = address, do_prefix_len = nw_prefix_len network, do_default_router = dp_default_router pool, do_server_id = server_id,
      do_lease_time_seconds = dp_lease_seconds pool, do_pool = number, do_expires_at = saturating_add now (DHCP_OFFER_MS * 1000)\<rparr>"

definition offer_from_pool ::
  "ipv4 \<Rightarrow> MacAddress \<Rightarrow> DhcpPoolId \<Rightarrow> DhcpPoolConfig \<Rightarrow> Ipv4Network \<Rightarrow> SimTime \<Rightarrow> Device \<Rightarrow> DhcpOffer option \<times> Device" where
  "offer_from_pool server_id client number pool network now d =
     (case (case bt_get (dv_dhcp_offers d) client of None \<Rightarrow> None | Some offer \<Rightarrow> if do_pool offer = number then Some offer else None) of
        Some offer \<Rightarrow> (Some offer, d)
      | None \<Rightarrow>
          let previous = previous_address d client pool
          in if MAX_DHCP_BINDINGS \<le> length (dv_dhcp_offers d) + length (dv_dhcp_bindings d) \<and> previous = None then (None, d)
             else case choose_address d client pool network previous of
                 None \<Rightarrow> (None, d)
               | Some address \<Rightarrow>
                   let offer = new_offer number pool network server_id address now
                   in (Some offer, d\<lparr>dv_dhcp_offers := bt_insert client offer (dv_dhcp_offers d)\<rparr>))"

definition offer_dhcp_on_network :: "InterfaceId \<Rightarrow> MacAddress \<Rightarrow> ipv4 \<Rightarrow> SimTime \<Rightarrow> Device \<Rightarrow> DhcpOffer option \<times> Device" where
  "offer_dhcp_on_network port client subnet now d =
     (case interface_ipv4 d port of
        None \<Rightarrow> (None, d)
      | Some ip \<Rightarrow>
          let d1 = expire_dhcp_server_state now d
          in case select_pool d1 client subnet of
               None \<Rightarrow> (None, d1)
             | Some (number, pool) \<Rightarrow>
                 (case dp_network pool of
                    None \<Rightarrow> (None, d1)
                  | Some network \<Rightarrow> offer_from_pool (ic_address ip) client number pool network now d1))"

definition offer_dhcp :: "InterfaceId \<Rightarrow> MacAddress \<Rightarrow> SimTime \<Rightarrow> Device \<Rightarrow> DhcpOffer option \<times> Device" where
  "offer_dhcp port client now d =
     (case interface_ipv4 d port of None \<Rightarrow> (None, d) | Some ip \<Rightarrow> offer_dhcp_on_network port client (ic_address ip) now d)"

definition commit_dhcp :: "MacAddress \<Rightarrow> ipv4 \<Rightarrow> ipv4 \<Rightarrow> SimTime \<Rightarrow> Device \<Rightarrow> DhcpOffer option \<times> Device" where
  "commit_dhcp client address server_id now d =
     (let d1 = expire_dhcp_server_state now d
      in case bt_get (dv_dhcp_offers d1) client of
           None \<Rightarrow> (None, d1)
         | Some offer \<Rightarrow>
             if do_address offer \<noteq> address \<or> do_server_id offer \<noteq> server_id then (None, d1)
             else let d2 = d1\<lparr>dv_dhcp_offers := bt_remove client (dv_dhcp_offers d1)\<rparr>;
                      deadline = saturating_add now (ucast (do_lease_time_seconds offer) * 1000000)
                  in case bt_get (dhcp_pools d2) (do_pool offer) of
                       None \<Rightarrow> (None, d2)
                     | Some pool \<Rightarrow>
                         (Some (offer\<lparr>do_expires_at := deadline\<rparr>),
                          d2\<lparr>dv_dhcp_bindings := bt_insert client
                               \<lparr>db_address = address, db_client_mac = client, db_pool_name = dp_name pool, db_expires_at = deadline\<rparr>
                               (dv_dhcp_bindings d2)\<rparr>))"

definition decline_dhcp :: "MacAddress \<Rightarrow> ipv4 \<Rightarrow> SimTime \<Rightarrow> Device \<Rightarrow> Device" where
  "decline_dhcp mac address now d =
     (if (case bt_get (dv_dhcp_bindings d) mac of None \<Rightarrow> False | Some b \<Rightarrow> db_address b = address) \<or>
         (case bt_get (dv_dhcp_offers d) mac of None \<Rightarrow> False | Some offer \<Rightarrow> do_address offer = address)
      then let d1 = d\<lparr>dv_dhcp_bindings := bt_remove mac (dv_dhcp_bindings d), dv_dhcp_offers := bt_remove mac (dv_dhcp_offers d)\<rparr>
           in if length (dv_dhcp_conflicts d1) < MAX_DHCP_BINDINGS
              then d1\<lparr>dv_dhcp_conflicts := bt_insert address (saturating_add now 600000000) (dv_dhcp_conflicts d1)\<rparr> else d1
      else d)"

section \<open>The client\<close>

definition dhcp_client_interfaces :: "Device \<Rightarrow> InterfaceId list" where
  "dhcp_client_interfaces d =
     map fst (filter (\<lambda>(port, c). if_dhcp_client c \<and> protocol_up d port \<and> bt_get (dv_dhcp_leases d) port = None) (if_configs d))"

definition has_pending_dhcp_client :: "Device \<Rightarrow> bool" where
  "has_pending_dhcp_client d = list_ex (\<lambda>(port, c). if_dhcp_client c \<and> bt_get (dv_dhcp_leases d) port = None) (if_configs d)"

definition install_dhcp_lease :: "InterfaceId \<Rightarrow> DhcpLease \<Rightarrow> Device \<Rightarrow> DeviceError + Device" where
  "install_dhcp_lease port lease d =
     (if \<not> (case if_config d port of None \<Rightarrow> False | Some c \<Rightarrow> if_dhcp_client c) then Inl DhcpNotSupported
      else Inr (d\<lparr>dv_dhcp_leases := bt_insert port lease (dv_dhcp_leases d)\<rparr>))"

definition expire_dhcp_lease :: "InterfaceId \<Rightarrow> ipv4 \<Rightarrow> SimTime \<Rightarrow> Device \<Rightarrow> bool \<times> Device" where
  "expire_dhcp_lease port address deadline d =
     (if (case bt_get (dv_dhcp_leases d) port of None \<Rightarrow> False | Some lease \<Rightarrow> dl_address lease = address \<and> dl_expires_at lease \<le> deadline)
      then (True, forget_lease port d) else (False, d))"

section \<open>The search finds the least allowed address\<close>

text \<open>The reference: try the addresses one by one.\<close>

definition first_allowed :: "(ipv4 \<Rightarrow> bool) \<Rightarrow> ipv4 \<Rightarrow> ipv4 \<Rightarrow> ipv4 option" where
  "first_allowed allowed final candidate =
     map_option of_nat (find (\<lambda>n. allowed (of_nat n)) [unat candidate..<Suc (unat final)])"

lemma find_append_case: "find P (xs @ ys) = (case find P xs of None \<Rightarrow> find P ys | Some x \<Rightarrow> Some x)"
  by (induction xs) simp_all

lemma find_upt_skip:
  assumes "i \<le> j" "\<forall>x. i \<le> x \<longrightarrow> x < j \<longrightarrow> \<not> P x"
  shows "find P [i..<k] = find P [j..<k]"
proof (cases "j \<le> k")
  case True
  then have "[i..<k] = [i..<j] @ [j..<k]" using assms(1) upt_add_eq_append [of i j "k - j"] by simp
  moreover have "find P [i..<j] = None" using assms(2) by (auto simp: find_None_iff)
  ultimately show ?thesis by (simp add: find_append_case)
next
  case False
  then have "find P [i..<k] = None" using assms(2) by (auto simp: find_None_iff)
  then show ?thesis using False by simp
qed

lemma first_allowed_skip:
  assumes "candidate \<le> e" "\<forall>b. candidate \<le> b \<longrightarrow> b \<le> e \<longrightarrow> \<not> allowed b"
  shows "first_allowed allowed final candidate = (case checked_add e 1 of None \<Rightarrow> None | Some n \<Rightarrow> first_allowed allowed final n)"
proof -
  have not: "\<forall>x. unat candidate \<le> x \<longrightarrow> x < Suc (unat e) \<longrightarrow> \<not> allowed (of_nat x)"
  proof (intro allI impI)
    fix x assume x: "unat candidate \<le> x" "x < Suc (unat e)"
    then have "unat (of_nat x :: ipv4) = x" using unat_bound [of e] by (simp add: unat_of_nat take_bit_nat_eq_self)
    then show "\<not> allowed (of_nat x)" using x assms(2) by (simp add: word_le_nat_alt)
  qed
  have skip: "find (\<lambda>n. allowed (of_nat n)) [unat candidate..<Suc (unat final)] = find (\<lambda>n. allowed (of_nat n)) [Suc (unat e)..<Suc (unat final)]"
    using assms(1) by (intro find_upt_skip not) (simp add: word_le_nat_alt)
  show ?thesis
  proof (cases "checked_add e 1")
    case None
    then have "2 ^ 32 \<le> Suc (unat e)" by (auto simp: checked_add_def split: if_splits)
    then have "[Suc (unat e)..<Suc (unat final)] = []" using unat_bound [of final] by simp
    then show ?thesis unfolding first_allowed_def skip by (simp only: None option.case find.simps option.map)
  next
    case (Some n)
    then have "unat n = Suc (unat e)" using unat_checked_add [OF Some] by simp
    then show ?thesis unfolding first_allowed_def skip by (simp only: Some option.case)
  qed
qed

lemma first_allowed_here: "candidate \<le> final \<Longrightarrow> allowed candidate \<Longrightarrow> first_allowed allowed final candidate = Some candidate"
  by (simp add: first_allowed_def word_le_nat_alt upt_rec)

lemma dhcp_search_first:
  assumes "\<forall>a. allowed a \<longrightarrow> \<not> excluded ranges a"
  shows "dhcp_search ranges allowed final candidate = first_allowed allowed final candidate"
  using assms
proof (induction ranges allowed final candidate rule: dhcp_search.induct)
  case (1 ranges allowed final candidate)
  show ?case
  proof (cases "final < candidate")
    case True
    then show ?thesis by (simp add: dhcp_search.simps [of ranges allowed final candidate] first_allowed_def word_less_nat_alt)
  next
    case in_range: False
    show ?thesis
    proof (cases "excluded_end ranges candidate")
      case (Some e)
      obtain first where f: "candidate \<le> e" "(first, e) \<in> set ranges" "first \<le> candidate" using excluded_end_Some [OF Some] by blast
      then have "excluded ranges b" if "candidate \<le> b" "b \<le> e" for b
        using that order.trans unfolding excluded_def list_ex_iff by fastforce
      then have "\<forall>b. candidate \<le> b \<longrightarrow> b \<le> e \<longrightarrow> \<not> allowed b" using "1.prems" by blast
      then show ?thesis
        using "1.IH"(2) [OF in_range Some] "1.prems"
        by (simp add: dhcp_search.simps [of ranges allowed final candidate] in_range Some first_allowed_skip [OF f(1)] split: option.split)
    next
      case None
      show ?thesis
      proof (cases "allowed candidate")
        case True
        then show ?thesis
          using in_range first_allowed_here [of candidate final allowed]
          by (simp add: dhcp_search.simps [of ranges allowed final candidate] None)
      next
        case False
        then have "\<forall>b. candidate \<le> b \<longrightarrow> b \<le> candidate \<longrightarrow> \<not> allowed b" using order.antisym by blast
        then show ?thesis
          using "1.IH"(1) [OF in_range None False] "1.prems"
          by (simp add: dhcp_search.simps [of ranges allowed final candidate] in_range None False first_allowed_skip [OF order.refl] split: option.split)
      qed
    qed
  qed
qed

lemma first_allowed_Some:
  assumes "first_allowed allowed final candidate = Some a"
  shows "allowed a \<and> candidate \<le> a \<and> a \<le> final \<and> (\<forall>b. candidate \<le> b \<longrightarrow> allowed b \<longrightarrow> a \<le> b)"
proof -
  obtain i where i: "i < length [unat candidate..<Suc (unat final)]" "allowed (of_nat ([unat candidate..<Suc (unat final)] ! i))"
    "a = of_nat ([unat candidate..<Suc (unat final)] ! i)" "\<forall>j<i. \<not> allowed (of_nat ([unat candidate..<Suc (unat final)] ! j))"
    using assms by (auto simp: first_allowed_def find_Some_iff simp del: upt_Suc)
  have x: "[unat candidate..<Suc (unat final)] ! i = unat candidate + i" "unat candidate + i \<le> unat final" using i(1) by (simp_all del: upt_Suc)
  have "a = of_nat (unat candidate + i)" using i(3) unfolding x(1) .
  then have ua: "unat a = unat candidate + i"
    using x(2) unat_bound [of final] by (simp only: unat_of_nat) (simp add: take_bit_nat_eq_self)
  have "a \<le> b" if b: "candidate \<le> b" "allowed b" for b
  proof (rule ccontr)
    assume "\<not> a \<le> b"
    then have less: "unat b < unat candidate + i" using ua by (simp add: word_le_nat_alt)
    define j where "j = unat b - unat candidate"
    then have "j < i" "unat candidate + j = unat b" using less b(1) by (simp_all add: word_le_nat_alt)
    moreover have "[unat candidate..<Suc (unat final)] ! j = unat candidate + j" using \<open>j < i\<close> i(1) by (simp del: upt_Suc)
    ultimately show False using i(4) b(2) by auto
  qed
  then show ?thesis using i(2, 3) x ua by (simp add: word_le_nat_alt)
qed

lemma first_allowed_None: "first_allowed allowed final candidate = None \<Longrightarrow> candidate \<le> b \<Longrightarrow> b \<le> final \<Longrightarrow> \<not> allowed b"
proof
  assume none: "first_allowed allowed final candidate = None" and b: "candidate \<le> b" "b \<le> final" "allowed b"
  then have "unat b \<in> set [unat candidate..<Suc (unat final)]" by (auto simp: word_le_nat_alt simp del: upt_Suc)
  moreover have "\<forall>x. x \<in> set [unat candidate..<Suc (unat final)] \<longrightarrow> \<not> allowed (of_nat x)"
    using none unfolding first_allowed_def by (simp add: find_None_iff del: upt_Suc set_upt)
  ultimately have "\<not> allowed (of_nat (unat b))" by blast
  then show False using b(3) by simp
qed

section \<open>Addresses of a network\<close>

lemma contains_bounds:
  assumes "wf_network n" "Ipv4Network_contains n a"
  shows "nw_address n \<le> a" "a \<le> Ipv4Network_broadcast n"
proof -
  let ?m = "prefix_mask (nw_prefix_len n)"
  have a: "nw_address n = a AND ?m" using assms contains_iff_mask by simp
  show "nw_address n \<le> a" unfolding a by (simp add: word_and_le1 word_and_le2)
  have "Ipv4Network_broadcast n = a OR NOT ?m"
    unfolding Ipv4Network_broadcast_def Ipv4Network_mask_def a by (rule bit_word_eqI) (auto simp: bit_simps)
  then show "a \<le> Ipv4Network_broadcast n" using le_word_or2 [of a "NOT ?m"] by simp
qed

lemma allowed_range:
  assumes "wf_network network" "dhcp_allowed d client pool network a"
  shows "saturating_add (nw_address network) 1 \<le> a" "a \<le> saturating_sub (Ipv4Network_broadcast network) 1"
proof -
  have b: "nw_address network \<le> a" "a \<le> Ipv4Network_broadcast network" "a \<noteq> nw_address network" "a \<noteq> Ipv4Network_broadcast network"
    using contains_bounds [OF assms(1)] assms(2) by (auto simp: dhcp_allowed_def)
  then have "unat (nw_address network) < unat a" "unat a < unat (Ipv4Network_broadcast network)"
    by (simp_all add: word_less_nat_alt [symmetric] order.not_eq_order_implies_strict)
  then show "saturating_add (nw_address network) 1 \<le> a" "a \<le> saturating_sub (Ipv4Network_broadcast network) 1"
    by (simp_all add: word_le_nat_alt unat_saturating_add unat_saturating_sub)
qed

lemma allowed_not_excluded: "dhcp_allowed d client pool network a \<Longrightarrow> \<not> excluded (dhcp_excluded d) a"
  by (simp add: dhcp_allowed_def)

lemma choose_allowed:
  assumes "choose_address d client pool network previous = Some a"
  shows "dhcp_allowed d client pool network a"
  using assms first_allowed_Some
  by (auto simp: choose_address_def Let_def dhcp_search_first [where allowed = "dhcp_allowed d client pool network"] allowed_not_excluded
    split: option.splits if_splits)

lemma choose_complete:
  assumes "wf_network network" "dp_reserved_address pool = None" "choose_address d client pool network previous = None"
  shows "\<not> dhcp_allowed d client pool network a"
proof
  assume a: "dhcp_allowed d client pool network a"
  have "first_allowed (dhcp_allowed d client pool network) (saturating_sub (Ipv4Network_broadcast network) 1) (saturating_add (nw_address network) 1) = None"
    using assms(2, 3) by (auto simp: choose_address_def Let_def dhcp_search_first allowed_not_excluded split: option.splits if_splits)
  then show False using first_allowed_None allowed_range [OF assms(1) a] a by blast
qed

lemma choose_least:
  assumes "wf_network network" "dp_reserved_address pool = None" "choose_address d client pool network None = Some a"
    "dhcp_allowed d client pool network b"
  shows "a \<le> b"
proof -
  have "first_allowed (dhcp_allowed d client pool network) (saturating_sub (Ipv4Network_broadcast network) 1) (saturating_add (nw_address network) 1) = Some a"
    using assms(2, 3) by (simp add: choose_address_def Let_def dhcp_search_first allowed_not_excluded)
  then show ?thesis using first_allowed_Some allowed_range [OF assms(1, 4)] assms(4) by blast
qed

section \<open>No address for two clients\<close>

definition held :: "Device \<Rightarrow> MacAddress \<Rightarrow> ipv4 set" where
  "held d mac = db_address ` set_option (bt_get (dv_dhcp_bindings d) mac) \<union> do_address ` set_option (bt_get (dv_dhcp_offers d) mac)"

definition clients :: "Device \<Rightarrow> MacAddress set" where
  "clients d = fst ` set (dv_dhcp_bindings d) \<union> fst ` set (dv_dhcp_offers d)"

definition conflicts :: "Device \<Rightarrow> ipv4 set" where
  "conflicts d = fst ` set (dv_dhcp_conflicts d)"

definition pools_ok :: "Device \<Rightarrow> bool" where
  "pools_ok d = (\<forall>(number, pool)\<in>set (dhcp_pools d). \<forall>network. dp_network pool = Some network \<longrightarrow> wf_network network)"

definition exclusive :: "Device \<Rightarrow> bool" where
  "exclusive d = ((\<forall>m m'. m \<noteq> m' \<longrightarrow> held d m \<inter> held d m' = {}) \<and> (\<forall>m. held d m \<inter> conflicts d = {}))"

definition dhcp_inv :: "Device \<Rightarrow> bool" where
  "dhcp_inv d =
     (bt_wf (dv_dhcp_bindings d) \<and> bt_wf (dv_dhcp_offers d) \<and> bt_wf (dv_dhcp_conflicts d) \<and> bt_wf (dhcp_pools d) \<and> pools_ok d \<and>
      exclusive d \<and> card (clients d) \<le> MAX_DHCP_BINDINGS \<and> card (conflicts d) \<le> MAX_DHCP_BINDINGS)"

definition dhcp_tables :: "Device \<Rightarrow> (MacAddress, DhcpBinding) btree \<times> (MacAddress, DhcpOffer) btree \<times> (ipv4, SimTime) btree \<times> (DhcpPoolId, DhcpPoolConfig) btree" where
  "dhcp_tables d = (dv_dhcp_bindings d, dv_dhcp_offers d, dv_dhcp_conflicts d, dhcp_pools d)"

lemma bt_get_filter_sub: "bt_wf m \<Longrightarrow> bt_get (filter P m) k = Some v \<Longrightarrow> bt_get m k = Some v"
  using bt.entries_get [of "filter P m" k v] bt.entries_get [of m k v] wf_filter [of m P] by simp

lemma shrink_inv:
  assumes inv: "dhcp_inv d" and sub: "\<And>m. held d' m \<subseteq> held d m" "clients d' \<subseteq> clients d" "conflicts d' \<subseteq> conflicts d"
    and wf: "bt_wf (dv_dhcp_bindings d')" "bt_wf (dv_dhcp_offers d')" "bt_wf (dv_dhcp_conflicts d')" "bt_wf (dhcp_pools d')" "pools_ok d'"
  shows "dhcp_inv d'"
proof -
  note i = inv [unfolded dhcp_inv_def]
  have "exclusive d'" using i sub(1, 3) unfolding exclusive_def by blast
  moreover have "card (clients d') \<le> card (clients d)" "card (conflicts d') \<le> card (conflicts d)"
    using card_mono [OF _ sub(2)] card_mono [OF _ sub(3)] by (simp_all add: clients_def conflicts_def)
  ultimately show ?thesis using i wf unfolding dhcp_inv_def by (metis le_trans)
qed

lemma filter_inv:
  assumes inv: "dhcp_inv d" and f: "dv_dhcp_bindings d' = filter P (dv_dhcp_bindings d)" "dv_dhcp_offers d' = filter Q (dv_dhcp_offers d)"
    "dv_dhcp_conflicts d' = filter R (dv_dhcp_conflicts d)" and pools: "bt_wf (dhcp_pools d')" "pools_ok d'"
  shows "dhcp_inv d'"
proof (rule shrink_inv [OF inv])
  note i = inv [unfolded dhcp_inv_def]
  show "held d' m \<subseteq> held d m" for m
    using bt_get_filter_sub [of "dv_dhcp_bindings d" P m] bt_get_filter_sub [of "dv_dhcp_offers d" Q m] i
    by (auto simp: held_def f)
  show "bt_wf (dv_dhcp_bindings d')" "bt_wf (dv_dhcp_offers d')" "bt_wf (dv_dhcp_conflicts d')"
    unfolding f using i wf_filter by blast+
qed (use pools in \<open>auto simp: clients_def conflicts_def f\<close>)

lemma expire_inv: "dhcp_inv d \<Longrightarrow> dhcp_inv (expire_dhcp_server_state now d)"
  by (rule filter_inv) (auto simp: expire_dhcp_server_state_def dhcp_inv_def pools_ok_def)

lemma held_used:
  assumes "bt_wf (dv_dhcp_bindings d)" "bt_wf (dv_dhcp_offers d)" "m \<noteq> client"
  shows "held d m \<subseteq> used_addresses d client"
proof -
  have "db_address b \<in> used_addresses d client" if "bt_get (dv_dhcp_bindings d) m = Some b" for b
    using bt.entries_get [OF assms(1), of m b] that assms(3) by (force simp: used_addresses_def)
  moreover have "do_address b \<in> used_addresses d client" if "bt_get (dv_dhcp_offers d) m = Some b" for b
    using bt.entries_get [OF assms(2), of m b] that assms(3) by (force simp: used_addresses_def)
  ultimately show ?thesis by (auto simp: held_def)
qed

lemma conflicts_used: "conflicts d \<subseteq> used_addresses d client"
  by (auto simp: conflicts_def used_addresses_def)

lemma clients_card: "card (clients d) \<le> length (dv_dhcp_offers d) + length (dv_dhcp_bindings d)"
proof -
  have "card (clients d) \<le> card (fst ` set (dv_dhcp_bindings d)) + card (fst ` set (dv_dhcp_offers d))"
    unfolding clients_def by (rule card_Un_le)
  also have "\<dots> \<le> length (dv_dhcp_bindings d) + length (dv_dhcp_offers d)"
    using card_length [of "map fst (dv_dhcp_bindings d)"] card_length [of "map fst (dv_dhcp_offers d)"] by simp
  finally show ?thesis by simp
qed

lemma insert_offer_inv:
  assumes inv: "dhcp_inv d" and free: "do_address offer \<notin> used_addresses d client"
    and room: "client \<in> clients d \<or> length (dv_dhcp_offers d) + length (dv_dhcp_bindings d) < MAX_DHCP_BINDINGS"
  shows "dhcp_inv (d\<lparr>dv_dhcp_offers := bt_insert client offer (dv_dhcp_offers d)\<rparr>)"
proof -
  let ?d = "d\<lparr>dv_dhcp_offers := bt_insert client offer (dv_dhcp_offers d)\<rparr>"
  note i = inv [unfolded dhcp_inv_def]
  have other: "held ?d m = held d m" if "m \<noteq> client" for m using that by (simp add: held_def bt_get_insert)
  have own: "held ?d client \<subseteq> insert (do_address offer) (held d client)" by (auto simp: held_def bt_get_insert)
  have co: "conflicts ?d = conflicts d" by (simp add: conflicts_def)
  have new: "do_address offer \<notin> held d m" if "m \<noteq> client" for m using held_used [of d m client] that free i by blast
  have ex: "held d m \<inter> held d m' = {}" "held d m \<inter> conflicts d = {}" if "m \<noteq> m'" for m m'
    using i that unfolding exclusive_def by blast+
  have one: "held ?d client \<inter> held ?d m = {}" if "m \<noteq> client" for m
    using other [OF that] own new [OF that] ex(1) [of client m] that by blast
  have "held ?d m \<inter> held ?d m' = {}" if "m \<noteq> m'" for m m'
    using one other ex(1) that by (cases "m = client"; cases "m' = client") (auto simp del: Device.simps)
  moreover have "do_address offer \<notin> conflicts d" "held d m \<inter> conflicts d = {}" for m
    using conflicts_used free i unfolding exclusive_def by blast+
  then have "held ?d m \<inter> conflicts d = {}" for m using other [of m] own by (cases "m = client") auto
  ultimately have "exclusive ?d" unfolding exclusive_def co by blast
  moreover have cl: "clients ?d = insert client (clients d)"
    using keys_insert [of client offer "dv_dhcp_offers d"] by (auto simp: clients_def)
  have "card (clients ?d) \<le> MAX_DHCP_BINDINGS"
    unfolding cl using room i clients_card [of d] by (auto simp: insert_absorb card_insert_if clients_def)
  moreover have "bt_wf (dv_dhcp_offers ?d)" using i by (simp add: wf_bt_insert)
  ultimately show ?thesis using i co by (simp add: dhcp_inv_def pools_ok_def)
qed

lemma offer_from_pool_inv:
  assumes "dhcp_inv d"
  shows "dhcp_inv (snd (offer_from_pool server_id client number pool network now d))"
proof -
  have "client \<in> clients d" if p: "previous_address d client pool \<noteq> None"
  proof -
    obtain b where "bt_get (dv_dhcp_bindings d) client = Some b" using p
      by (cases "bt_get (dv_dhcp_bindings d) client") (simp_all add: previous_address_def)
    moreover have "bt_wf (dv_dhcp_bindings d)" using assms by (simp add: dhcp_inv_def)
    ultimately show ?thesis using bt.entries_get by (force simp: clients_def)
  qed
  moreover have "a \<notin> used_addresses d client" if "choose_address d client pool network previous = Some a" for a previous
    using choose_allowed [OF that] by (simp add: dhcp_allowed_def)
  ultimately have "dhcp_inv (d\<lparr>dv_dhcp_offers := bt_insert client (new_offer number pool network server_id a now) (dv_dhcp_offers d)\<rparr>)"
    if "choose_address d client pool network (previous_address d client pool) = Some a"
      "\<not> (MAX_DHCP_BINDINGS \<le> length (dv_dhcp_offers d) + length (dv_dhcp_bindings d) \<and> previous_address d client pool = None)" for a
    using that by (intro insert_offer_inv [OF assms]) (auto simp: new_offer_def)
  then show ?thesis using assms by (auto simp: offer_from_pool_def Let_def split: option.split)
qed

lemma offer_inv: "dhcp_inv d \<Longrightarrow> dhcp_inv (snd (offer_dhcp_on_network port client subnet now d))"
  using expire_inv offer_from_pool_inv by (auto simp: offer_dhcp_on_network_def Let_def split: option.split prod.split)

lemma commit_inv:
  assumes "dhcp_inv d"
  shows "dhcp_inv (snd (commit_dhcp client address server_id now d))"
proof -
  let ?e = "expire_dhcp_server_state now d"
  have e: "dhcp_inv ?e" using assms by (rule expire_inv)
  note i = e [unfolded dhcp_inv_def]
  show ?thesis
  proof (cases "bt_get (dv_dhcp_offers ?e) client")
    case None
    then show ?thesis using e by (simp add: commit_dhcp_def Let_def)
  next
    case (Some offer)
    let ?r = "?e\<lparr>dv_dhcp_offers := bt_remove client (dv_dhcp_offers ?e)\<rparr>"
    have "bt_wf (dv_dhcp_offers ?e)" using i by blast
    then have "(client, offer) \<in> set (dv_dhcp_offers ?e)" using Some bt.entries_get by fastforce
    then have own: "client \<in> clients ?e" unfolding clients_def by force
    have keys: "fst ` set (bt_remove client (dv_dhcp_offers ?e)) \<subseteq> fst ` set (dv_dhcp_offers ?e)" by (auto simp: bt_remove_def)
    have r: "dhcp_inv ?r"
    proof (rule shrink_inv [OF e])
      show "held ?r m \<subseteq> held ?e m" for m by (auto simp: held_def bt_get_remove)
      show "clients ?r \<subseteq> clients ?e" using keys by (auto simp: clients_def)
    qed (use i bt.wf_remove in \<open>auto simp: conflicts_def pools_ok_def\<close>)
    have "dhcp_inv (?r\<lparr>dv_dhcp_bindings := bt_insert client b (dv_dhcp_bindings ?r)\<rparr>)" (is "dhcp_inv ?b")
      if b: "db_address b = do_address offer" for b
    proof (rule shrink_inv [OF e])
      show "held ?b m \<subseteq> held ?e m" for m using b Some by (auto simp: held_def bt_get_remove bt_get_insert)
      show "clients ?b \<subseteq> clients ?e" using keys own keys_insert [of client b "dv_dhcp_bindings ?e"] by (auto simp: clients_def)
    qed (use i bt.wf_remove in \<open>auto simp: conflicts_def pools_ok_def wf_bt_insert\<close>)
    then show ?thesis using e r Some by (simp add: commit_dhcp_def Let_def split: option.split)
  qed
qed

lemma decline_inv:
  assumes inv: "dhcp_inv d"
  shows "dhcp_inv (decline_dhcp mac address now d)"
proof -
  note i = inv [unfolded dhcp_inv_def]
  let ?r = "d\<lparr>dv_dhcp_bindings := bt_remove mac (dv_dhcp_bindings d), dv_dhcp_offers := bt_remove mac (dv_dhcp_offers d)\<rparr>"
  have r: "dhcp_inv ?r"
    by (rule filter_inv [OF inv, where R = "\<lambda>_. True"]) (use i in \<open>auto simp: bt_remove_def pools_ok_def\<close>)
  have "dhcp_inv (?r\<lparr>dv_dhcp_conflicts := bt_insert address deadline (dv_dhcp_conflicts ?r)\<rparr>)" (is "dhcp_inv ?c")
    if a: "address \<in> held d mac" and room: "length (dv_dhcp_conflicts ?r) < MAX_DHCP_BINDINGS" for deadline
  proof -
    have ex: "held d m \<inter> held d m' = {}" if "m \<noteq> m'" for m m' using i that unfolding exclusive_def by blast
    have h: "held ?c m = (if m = mac then {} else held d m)" for m by (simp add: held_def bt_get_remove)
    have co: "conflicts ?c = insert address (conflicts d)"
      using keys_insert [of address deadline "dv_dhcp_conflicts d"] by (simp add: conflicts_def)
    have free: "address \<notin> held d m" if "m \<noteq> mac" for m using ex [OF that] a by blast
    have "held d m \<inter> conflicts d = {}" for m using i unfolding exclusive_def by blast
    then have "exclusive ?c" unfolding exclusive_def h co using ex free by auto
    moreover have "clients ?c = clients ?r" by (simp add: clients_def)
    moreover have "card (conflicts ?c) \<le> MAX_DHCP_BINDINGS"
      unfolding co using room card_length [of "map fst (dv_dhcp_conflicts d)"] by (auto simp: conflicts_def card_insert_if)
    ultimately show ?thesis using r i by (simp add: dhcp_inv_def pools_ok_def wf_bt_insert)
  qed
  then show ?thesis using inv r by (auto simp: decline_dhcp_def Let_def held_def split: option.splits)
qed

lemma bt_insert_entries: "set (bt_insert k v m) \<subseteq> insert (k, v) (set m)"
  by (induction m) (auto split: if_splits)

lemma pools_ok_same: "dhcp_pools d' = dhcp_pools d \<Longrightarrow> pools_ok d' = pools_ok d"
  by (simp add: pools_ok_def)

lemma pools_ok_insert:
  assumes "pools_ok d" "\<forall>network. dp_network pool = Some network \<longrightarrow> wf_network network"
    "dhcp_pools d' = bt_insert number pool (dhcp_pools d)"
  shows "pools_ok d'"
  using assms bt_insert_entries [of number pool "dhcp_pools d"] by (fastforce simp: pools_ok_def)

lemma pool_inv:
  assumes inv: "dhcp_inv d" and network: "\<forall>network. dp_network pool = Some network \<longrightarrow> wf_network network"
    and d': "dhcp_pools d' = bt_insert number pool (dhcp_pools d)" "dv_dhcp_bindings d' = dv_dhcp_bindings d"
      "dv_dhcp_offers d' = filter Q (dv_dhcp_offers d)" "dv_dhcp_conflicts d' = dv_dhcp_conflicts d"
  shows "dhcp_inv d'"
proof (rule filter_inv [OF inv, where P = "\<lambda>_. True" and R = "\<lambda>_. True"])
  note i = inv [unfolded dhcp_inv_def]
  show "bt_wf (dhcp_pools d')" using i by (simp add: d'(1) wf_bt_insert)
  have "pools_ok d" using i by blast
  then show "pools_ok d'" using network d'(1) by (rule pools_ok_insert)
qed (simp_all add: d')

inductive dhcp_step :: "Device \<Rightarrow> Device \<Rightarrow> bool" where
  create: "ensure_dhcp_pool name d = Inr (number, d') \<Longrightarrow> dhcp_step d d'"
| update: "update_dhcp_pool number pool d = Inr d' \<Longrightarrow> \<forall>network. dp_network pool = Some network \<longrightarrow> wf_network network \<Longrightarrow> dhcp_step d d'"
| network: "set_dhcp_pool_network number network d = Inr d' \<Longrightarrow> wf_network network \<Longrightarrow> dhcp_step d d'"
| router: "set_dhcp_default_router number address d = Inr d' \<Longrightarrow> dhcp_step d d'"
| exclude: "exclude_dhcp_addresses first until d = Inr d' \<Longrightarrow> dhcp_step d d'"
| discover: "offer_dhcp port client now d = (offer, d') \<Longrightarrow> dhcp_step d d'"
| relayed: "offer_dhcp_on_network port client subnet now d = (offer, d') \<Longrightarrow> dhcp_step d d'"
| request: "commit_dhcp client address server_id now d = (offer, d') \<Longrightarrow> dhcp_step d d'"
| decline: "d' = decline_dhcp client address now d \<Longrightarrow> dhcp_step d d'"
| elsewhere: "dhcp_tables d' = dhcp_tables d \<Longrightarrow> dhcp_step d d'"

lemma update_inv:
  assumes "dhcp_inv d" "update_dhcp_pool number pool d = Inr d'" "\<forall>network. dp_network pool = Some network \<longrightarrow> wf_network network"
  shows "dhcp_inv d'"
  using assms(1, 3)
  by (rule pool_inv) (use assms(2) in \<open>auto simp: update_dhcp_pool_def set_dhcp_pools_def split: option.splits if_splits\<close>)

lemma pool_wf: "dhcp_inv d \<Longrightarrow> bt_get (dhcp_pools d) number = Some pool \<Longrightarrow> dp_network pool = Some network \<Longrightarrow> wf_network network"
  unfolding dhcp_inv_def pools_ok_def using bt.entries_get by fastforce

lemma dhcp_step_inv: "dhcp_step d d' \<Longrightarrow> dhcp_inv d \<Longrightarrow> dhcp_inv d'"
proof (induction rule: dhcp_step.induct)
  case (create name d number d')
  then show ?case
    by (auto simp: ensure_dhcp_pool_def Let_def set_dhcp_pools_def split: if_splits option.splits intro!: pool_inv [where d = d and Q = "\<lambda>_. True"])
next
  case (update number pool d d')
  then show ?case using update_inv by blast
next
  case (network number network d d')
  then show ?case using update_inv by (auto simp: set_dhcp_pool_network_def split: if_splits option.splits)
next
  case (router number address d d')
  then obtain pool where p: "bt_get (dhcp_pools d) number = Some pool" "update_dhcp_pool number (pool\<lparr>dp_default_router := Some address\<rparr>) d = Inr d'"
    by (auto simp: set_dhcp_default_router_def split: option.splits)
  then show ?case using update_inv [OF router.prems p(2)] pool_wf [OF router.prems p(1)] by simp
next
  case (exclude first until d d')
  then have same: "dhcp_pools d' = dhcp_pools d" by (auto simp: exclude_dhcp_addresses_def split: if_splits)
  have "bt_wf (dhcp_pools d')" "pools_ok d'"
    using exclude.prems pools_ok_same [OF same] same by (simp_all add: dhcp_inv_def)
  then show ?case
    using exclude.hyps by (intro filter_inv [OF exclude.prems, where P = "\<lambda>_. True" and R = "\<lambda>_. True"])
      (auto simp: exclude_dhcp_addresses_def split: if_splits)
next
  case (discover port client now d offer d')
  then show ?case using offer_inv by (auto simp: offer_dhcp_def split: option.splits) (metis snd_conv)
next
  case (relayed port client subnet now d offer d')
  then show ?case using offer_inv [OF relayed.prems, of port client subnet now] by simp
next
  case (request client address server_id now d offer d')
  then show ?case using commit_inv [OF request.prems, of client address server_id now] by simp
next
  case (decline d' client address now d)
  then show ?case using decline_inv by blast
next
  case (elsewhere d' d)
  then show ?case by (simp add: dhcp_inv_def dhcp_tables_def exclusive_def held_def conflicts_def clients_def pools_ok_def)
qed

definition dhcp_init :: "Device \<Rightarrow> bool" where
  "dhcp_init d = (dv_dhcp_bindings d = [] \<and> dv_dhcp_offers d = [] \<and> dv_dhcp_conflicts d = [] \<and> dhcp_pools d = [])"

lemma dhcp_init_inv: "dhcp_init d \<Longrightarrow> dhcp_inv d"
  by (simp add: dhcp_init_def dhcp_inv_def exclusive_def held_def conflicts_def clients_def pools_ok_def bt_wf_def)

interpretation dhcp_server: invariant_system dhcp_init dhcp_step dhcp_inv
  by unfold_locales (auto intro: dhcp_init_inv dhcp_step_inv)

section \<open>Properties\<close>

text \<open>
  C13. No address is given twice: in every run of the server, through pool changes, exclusions, discovers,
  requests, declines and expiry, the addresses offered or bound to one client are disjoint from those of any
  other and from the declined addresses, and at most 8192 clients and conflicts are kept.
\<close>
theorem dhcp_addresses_exclusive:
  assumes "dhcp_init d0" "dhcp_step\<^sup>*\<^sup>* d0 d" "mac \<noteq> mac'"
  shows "held d mac \<inter> held d mac' = {} \<and> held d mac \<inter> conflicts d = {} \<and> card (clients d) \<le> 8192 \<and> card (conflicts d) \<le> 8192"
proof -
  have "dhcp_inv d" using assms(1, 2) by (rule dhcp_server.reachable_inv)
  then show ?thesis using assms(3) unfolding dhcp_inv_def exclusive_def MAX_DHCP_BINDINGS_def by blast
qed

text \<open>
  C14. The search that jumps over excluded ranges is the search of the whole network: in a pool without a
  reservation it keeps the client's previous address when that is still allowed, and otherwise gives the
  least allowed address, failing only when the network has none.
\<close>
theorem dhcp_offer_least:
  assumes "wf_network network" "dp_reserved_address pool = None"
  shows "choose_address d client pool network previous =
    (if previous \<in> Some ` {a. dhcp_allowed d client pool network a} then previous
     else if {a. dhcp_allowed d client pool network a} = {} then None
     else Some (Min {a. dhcp_allowed d client pool network a}))"
proof (cases "previous \<in> Some ` {a. dhcp_allowed d client pool network a}")
  case True
  then show ?thesis using assms(2) by (auto simp: choose_address_def Let_def)
next
  case False
  then have eq: "choose_address d client pool network previous = choose_address d client pool network None"
    using assms(2) by (auto simp: choose_address_def Let_def split: option.split)
  show ?thesis
  proof (cases "choose_address d client pool network None")
    case None
    then show ?thesis using choose_complete [OF assms None] False eq by simp
  next
    case (Some a)
    have "Min {a. dhcp_allowed d client pool network a} = a"
      using choose_allowed [OF Some] choose_least [OF assms Some] by (intro Min_eqI) auto
    then show ?thesis using False Some eq choose_allowed [OF Some] by auto
  qed
qed

text \<open>Addition of addresses evaluates on words, the carry read from the sum.\<close>

lemma no_carry: "unat a + unat b < 2 ^ LENGTH('a) \<longleftrightarrow> a \<le> a + b" for a b :: "'a::len word"
  by (fact no_olen_add_nat [symmetric])

lemma checked_add_code [code]: "checked_add a b = (if a \<le> a + b then Some (a + b) else None)"
  by (simp add: checked_add_def no_carry)

lemma saturating_add_code [code]: "saturating_add a b = (if a \<le> a + b then a + b else - 1)"
  by (simp add: saturating_add_def no_carry)

text \<open>A server with the pool 10.0.0.0/24, its own address 10.0.0.1 and an excluded range up to 10.0.0.9.\<close>

definition lan :: Ipv4Network where "lan = \<lparr>nw_address = 0x0A000000, nw_prefix_len = 24\<rparr>"
definition first_client :: MacAddress where "first_client = MacAddress 2 0 0 0 0 1"
definition second_client :: MacAddress where "second_client = MacAddress 2 0 0 0 0 2"

definition server1 :: Device where "server1 = snd (result_of (ensure_dhcp_pool ''LAN'' standalone))"
definition server2 :: Device where "server2 = result_of (set_dhcp_pool_network 1 lan server1)"
definition server3 :: Device where
  "server3 = result_of (set_ipv4 (InterfaceId 1) \<lparr>ic_address = 0x0A000001, ic_prefix_len = 24\<rparr> server2)"
definition server4 :: Device where "server4 = result_of (exclude_dhcp_addresses 0x0A000002 0x0A000009 server3)"
definition server5 :: Device where "server5 = snd (offer_dhcp (InterfaceId 1) first_client 0 server4)"
definition server6 :: Device where "server6 = snd (offer_dhcp (InterfaceId 1) second_client 0 server5)"

lemma server_run: "dhcp_init standalone \<and> dhcp_step\<^sup>*\<^sup>* standalone server6"
proof -
  have "\<not> isl (ensure_dhcp_pool ''LAN'' standalone)" "\<not> isl (set_dhcp_pool_network 1 lan server1)"
    "\<not> isl (exclude_dhcp_addresses 0x0A000002 0x0A000009 server3)" by code_simp+
  then have "ensure_dhcp_pool ''LAN'' standalone = Inr (fst (result_of (ensure_dhcp_pool ''LAN'' standalone)), server1)"
    "set_dhcp_pool_network 1 lan server1 = Inr server2"
    "exclude_dhcp_addresses 0x0A000002 0x0A000009 server3 = Inr server4"
    unfolding server1_def server2_def server4_def by (simp_all add: result_of_ok)
  moreover have "dhcp_tables server3 = dhcp_tables server2" "wf_network lan" by code_simp+
  moreover have "offer_dhcp (InterfaceId 1) first_client 0 server4 = (fst (offer_dhcp (InterfaceId 1) first_client 0 server4), server5)"
    "offer_dhcp (InterfaceId 1) second_client 0 server5 = (fst (offer_dhcp (InterfaceId 1) second_client 0 server5), server6)"
    by (simp_all add: server5_def server6_def)
  ultimately have "dhcp_step standalone server1" "dhcp_step server1 server2" "dhcp_step server2 server3"
    "dhcp_step server3 server4" "dhcp_step server4 server5" "dhcp_step server5 server6"
    using create network elsewhere exclude discover by blast+
  moreover have "dhcp_init standalone" by code_simp
  ultimately show ?thesis by (meson converse_rtranclp_into_rtranclp r_into_rtranclp)
qed

theorem dhcp_addresses_exclusive_witness:
  "held server6 first_client \<inter> held server6 second_client = {} \<and> held server6 first_client \<inter> conflicts server6 = {} \<and>
    card (clients server6) \<le> 8192 \<and> card (conflicts server6) \<le> 8192 \<and>
    map_option do_address (bt_get (dv_dhcp_offers server6) first_client) = Some 0x0A00000A \<and>
    map_option do_address (bt_get (dv_dhcp_offers server6) second_client) = Some 0x0A00000B"
proof -
  have "first_client \<noteq> second_client" by code_simp
  then have "held server6 first_client \<inter> held server6 second_client = {} \<and> held server6 first_client \<inter> conflicts server6 = {} \<and>
      card (clients server6) \<le> 8192 \<and> card (conflicts server6) \<le> 8192"
    using server_run dhcp_addresses_exclusive by blast
  moreover have "map_option do_address (bt_get (dv_dhcp_offers server6) first_client) = Some 0x0A00000A" by code_simp
  moreover have "map_option do_address (bt_get (dv_dhcp_offers server6) second_client) = Some 0x0A00000B" by code_simp
  ultimately show ?thesis by blast
qed

definition lan_pool :: DhcpPoolConfig where "lan_pool = snd (hd (dhcp_pools server4))"

theorem dhcp_offer_least_witness:
  "Min {a. dhcp_allowed server4 first_client lan_pool lan a} = 0x0A00000A"
proof -
  have "wf_network lan" "dp_reserved_address lan_pool = None" by code_simp+
  then have "choose_address server4 first_client lan_pool lan None =
    (if None \<in> Some ` {a. dhcp_allowed server4 first_client lan_pool lan a} then None
     else if {a. dhcp_allowed server4 first_client lan_pool lan a} = {} then None
     else Some (Min {a. dhcp_allowed server4 first_client lan_pool lan a}))"
    by (rule dhcp_offer_least)
  moreover have "choose_address server4 first_client lan_pool lan None = Some 0x0A00000A" by code_simp
  ultimately show ?thesis by (auto split: if_splits)
qed

end
