(* ===== verification/Spec2Isabelle.thy ===== *)
theory Spec2Isabelle
  imports Sim_Qos Sim_Link Ethernet Protocols Transport Dhcp Dns Switching Ospf_Exchange Ospf_Election
    Ospf_Routes Bgp_Selection Bgp_Session Bgp_Wire Dev_Acl Dev_Layers Dev_Tcp Dev_Dhcp
begin

text \<open>
  RIOS is a deterministic simulator of routers and switches. This development models its protocol and
  simulation crates under \<open>src/crates\<close> and proves the properties that make them correct.

  \<^bold>\<open>The program.\<close> Devices exchange Ethernet frames over simulated links; an event queue orders everything
  that happens. Each protocol crate is a library of pure codecs and of state machines that take the
  current simulated time and return their actions: \<open>rios-simulator\<close> (queue, links, quality of service),
  \<open>rios-ethernet\<close>, \<open>rios-ipv4\<close>, \<open>rios-protocol\<close>, \<open>rios-switching\<close> (wire formats), \<open>rios-routing\<close> (OSPF
  and BGP). \<open>rios-device\<close> drives them, \<open>rios-config\<close>, \<open>rios-topology\<close> and \<open>rios-cli\<close> configure them, and
  the binary under \<open>src/src\<close> holds the terminal, SSH and web front ends.

  \<^bold>\<open>Conventions.\<close> A Rust integer of width w is a word of that width (\<open>u8\<close> to \<open>u128\<close>), with \<open>checked_\<close>,
  \<open>saturating_\<close> and wrapping arithmetic as the code chooses; \<open>usize\<close> lengths are \<open>nat\<close>. A struct is a
  \<open>record\<close>, an enum a \<open>datatype\<close>, \<open>Result<T, E>\<close> is \<open>E + T\<close> with \<open>Inl\<close> for the error, a method that
  mutates \<open>self\<close> returns the new state, \<open>?\<close> is \<open>and_then\<close>. Byte strings are lists of \<open>u8\<close>; slices
  that panic out of range are guarded in the code, and the model keeps those guards. Names are those of
  the source, a method \<open>f\<close> of \<open>T\<close> being \<open>T_f\<close> where the bare name is ambiguous. Sorted maps
  (\<open>BTreeMap\<close>) are association lists kept in key order, or HOL maps where the order is not observed.

  \<^bold>\<open>The library.\<close> \<open>Prelude\<close>: words, byte order, slices, results and the collections \<open>codec_simps\<close>.
  \<open>Codec\<close>: the interfaces of wire formats as locales: \<open>fixed_codec\<close> and \<open>checked_fixed_codec\<close> for runs of
  equal-sized fields, \<open>wire_codec\<close> for a message with encoder, decoder and domain, \<open>codec_stack\<close> for a
  message carried in another. \<open>Machine\<close>: the locale \<open>invariant_system\<close>, a state machine driven by events,
  with invariants of reachable states by rule induction. \<open>BTree\<close>: sorted association lists and the locale
  \<open>ordered_map\<close>. Every locale is interpreted on the model's own definitions by its provider.

  \<^bold>\<open>Simulation.\<close> \<open>Sim_Queue\<close> (\<open>rios-simulator/src/queue.rs\<close>) models \<open>EventQueue\<close> over a binary heap, the
  interface \<open>min_heap\<close>; any reachable queue delivers each pending event once, ordered by time and then by
  insertion. \<open>Sim_Link\<close> (\<open>link.rs\<close>) models transmission, jitter, loss and the queue of a directional
  link: deliveries keep their order, respect the bandwidth, and the queue is bounded. \<open>Sim_Bucket\<close> and
  \<open>Sim_Qos\<close> (\<open>qos/\<close>) model the token bucket and the policed, shaped, weighted and low-latency queues:
  granted bytes never exceed burst plus rate times time, wake-up times are exact, and the queue
  accounting is an invariant of all reachable schedulers.

  \<^bold>\<open>Wire formats.\<close> \<open>Ethernet\<close> (frames, 802.1Q tags, MAC addresses), \<open>Ipv4_Packet\<close> (packets and the Internet
  checksum), \<open>Protocols\<close> (ARP, ICMP, NTP), \<open>Transport\<close> (UDP and TCP), \<open>Dhcp\<close>, \<open>Dns\<close>, \<open>Switching\<close> (STP and
  LACP), \<open>Ospf_Lsa\<close>, \<open>Ospf_Packet\<close>, \<open>Lsa_Checksum\<close>, \<open>Bgp_Wire\<close>. Each has a predicate \<open>wire_...\<close> of the
  messages the format can carry and an interpretation of \<open>wire_codec\<close>: every such message encodes and
  decodes to itself. The checksum lemmas show that what is computed verifies. The root theory stacks UDP
  in IPv4 in Ethernet. \<open>Bgp_Wire\<close> also models \<open>BgpStream\<close>, and the pieces TCP cuts a stream into do not
  matter. The DNS name decoder takes at most 128 steps, the code's own bound and the fuel of the model: a
  legal name of 127 labels reached through a compression pointer needs one more and is refused, which
  \<open>dns_longest_name_refused\<close> shows.

  \<^bold>\<open>Routing.\<close> \<open>Ipv4_Route\<close> (\<open>rios-ipv4\<close>): networks and the routing table, whose lookup is the longest
  matching prefix. \<open>Ospf_Spf\<close> and \<open>Ospf_Routes\<close> (\<open>ospf_spf.rs\<close>): the shortest-path loop, which
  terminates because each round improves a label or shortens the heap, with its labels proved to be
  cheapest walks, and the routes computed from them. \<open>Ospf_Exchange\<close> (\<open>ospf_exchange.rs\<close>) and \<open>Ospf_Election\<close>: adjacencies as a state
  machine, the order of LSA instances, and designated-router election. \<open>Bgp_Types\<close>, \<open>Bgp_Selection\<close>,
  \<open>Bgp_Session\<close> (\<open>bgp/\<close>): attributes, the decision process and the session state machine, whose invariants
  hold in every reachable state.

  \<^bold>\<open>Devices.\<close> \<open>Config\<close> (\<open>rios-config\<close>): the configuration records and the matching of access-list rules.
  \<open>Tcp_Connection\<close> (\<open>rios-device/src/tcp.rs\<close>): one TCP connection and two of them over a network that loses,
  repeats and reorders. \<open>Device\<close> (\<open>lib.rs\<close>, \<open>channel.rs\<close>, \<open>lacp.rs\<close>): the device record, its construction and
  the operational state of its interfaces. \<open>Dev_Acl\<close> (\<open>acl.rs\<close>, \<open>named_acl.rs\<close>): access lists as a machine
  of configuration steps and packets, first match and the transparency of promotion.
  \<open>Text\<close> holds the string functions, \<open>Dev_Names\<close> (\<open>lib.rs\<close>) the normalisation of interface names. \<open>Dev_Ports\<close>
  (\<open>lib.rs\<close>, \<open>channel.rs\<close>, \<open>lacp.rs\<close>, \<open>subinterface.rs\<close>) models creation and configuration of interfaces, VLANs,
  bundles and subinterfaces, and \<open>Dev_Layers\<close> their invariant as a machine of all these operations: it shows
  that the mutual recursion of \<open>protocol_up\<close>, \<open>channel_members\<close> and the LACP functions returns after two levels of
  calls (the fuel of \<open>protocol_up\<close>; a call that does not return is \<open>None\<close>, as on a subinterface that is its own
  parent), and that refreshing VLAN interfaces cannot panic. \<open>Dev_Tcp\<close> (\<open>tcp.rs\<close>) is the device's table
  of connections; it refines independent single connections, an instance of the locale of \<open>Refinement\<close>.
  \<open>Dev_Dhcp\<close> (\<open>dhcp.rs\<close>, \<open>dhcp/config.rs\<close>) is the DHCP server: its address search, proved to end and to equal
  the search of the whole network, and the exclusivity of the addresses it hands out.

  \<^bold>\<open>Not modelled.\<close> \<open>rios-ipv6\<close> and OSPFv3, the MAC table, ARP, forwarding, NAT, spanning tree, routing
  processes and services of \<open>rios-device\<close>, \<open>rios-topology\<close> and \<open>rios-cli\<close> are not modelled. The binary under \<open>src/src\<close> is terminal, network and
  file I/O and holds no protocol logic. Textual forms used only for display are left out.
\<close>

section \<open>The protocol stack\<close>

text \<open>
  A UDP datagram travels inside an IPv4 packet, that inside an Ethernet frame. The two levels are
  instances of \<open>codec_stack\<close>; the addresses of the packet enter the checksum of the datagram.
\<close>

definition udp_packet :: "ipv4 \<Rightarrow> ipv4 \<Rightarrow> u8 \<Rightarrow> bytes \<Rightarrow> Ipv4Packet" where
  "udp_packet source destination ttl payload =
     \<lparr>ip_dscp_ecn = 0, ip_source = source, ip_destination = destination, ip_ttl = ttl, ip_protocol = Udp, ip_payload = payload\<rparr>"

definition ipv4_frame :: "MacAddress \<times> MacAddress \<Rightarrow> bytes \<Rightarrow> EthernetFrame" where
  "ipv4_frame macs payload =
     \<lparr>ef_destination = fst macs, ef_source = snd macs, ef_ethertype = Ipv4, ef_payload = payload\<rparr>"

lemma udp_ipv4_length: "wire_datagram d \<Longrightarrow> UdpDatagram_encode_ipv4 s t d = Inr bs \<Longrightarrow> length bs = 8 + length (udp_payload d)"
  by (auto simp: udp_encode_ipv4_bytes)

interpretation udp_in_ipv4: codec_stack Ipv4Packet_encode Ipv4Packet_decode wire_packet
  "UdpDatagram_encode_ipv4 s t" "UdpDatagram_decode_ipv4 s t" wire_datagram
  "udp_packet s t" ip_payload "\<lambda>ttl d. ttl \<noteq> 0 \<and> length (udp_payload d) \<le> 65507"
  for s t
proof (intro codec_stack.intro codec_stack_axioms.intro)
  show "wire_codec Ipv4Packet_encode Ipv4Packet_decode wire_packet" by (rule packet.wire_codec_axioms)
  show "wire_codec (UdpDatagram_encode_ipv4 s t) (UdpDatagram_decode_ipv4 s t) wire_datagram" by (rule udp_ipv4_codec)
  show "ip_payload (udp_packet s t ttl p) = p" for ttl p by (simp add: udp_packet_def)
  show "wire_packet (udp_packet s t ttl p)"
    if "ttl \<noteq> 0 \<and> length (udp_payload d) \<le> 65507" "UdpDatagram_encode_ipv4 s t d = Inr p" for ttl d p
    using that udp_ipv4_length [of d s t p]
    by (simp add: wire_packet_def udp_packet_def wire_datagram_def IpProtocol_from_def)
qed

interpretation ipv4_in_frame: codec_stack EthernetFrame_encode EthernetFrame_decode wire_frame
  Ipv4Packet_encode Ipv4Packet_decode wire_packet ipv4_frame ef_payload "\<lambda>_ _. True"
proof (intro codec_stack.intro codec_stack_axioms.intro)
  show "wire_codec EthernetFrame_encode EthernetFrame_decode wire_frame" by (rule frame.wire_codec_axioms)
  show "wire_codec Ipv4Packet_encode Ipv4Packet_decode wire_packet" by (rule packet.wire_codec_axioms)
  show "ef_payload (ipv4_frame macs p) = p" for macs p by (simp add: ipv4_frame_def)
  show "wire_frame (ipv4_frame macs p)" for macs p
    by (simp add: ipv4_frame_def wire_frame_def canonical_ethertype_def valid_length_or_type_def EtherType_from_def)
qed

text \<open>
  C26. End-to-end delivery: a UDP datagram that fits an IPv4 packet, wrapped in a packet with a
  live TTL and in an Ethernet frame, comes out of the receiver's three decoders unchanged,
  checksums included, with the addresses the sender used.
\<close>

theorem udp_delivery:
  assumes "length (udp_payload d) \<le> 65507" "ttl \<noteq> 0"
  shows "\<exists>segment packet wire frame received.
    UdpDatagram_encode_ipv4 s t d = Inr segment \<and> Ipv4Packet_encode (udp_packet s t ttl segment) = Inr packet \<and>
    EthernetFrame_encode (ipv4_frame macs packet) = Inr wire \<and>
    EthernetFrame_decode wire = Inr frame \<and> Ipv4Packet_decode (ef_payload frame) = Inr received \<and>
    ip_source received = s \<and> ip_destination received = t \<and>
    UdpDatagram_decode_ipv4 (ip_source received) (ip_destination received) (ip_payload received) = Inr d"
proof -
  have "wire_datagram d" using assms(1) by (simp add: wire_datagram_def)
  then obtain segment where seg: "UdpDatagram_encode_ipv4 s t d = Inr segment" "UdpDatagram_decode_ipv4 s t segment = Inr d"
    using udp_in_ipv4.inner.round_trip by blast
  have "wire_packet (udp_packet s t ttl segment)"
    using udp_in_ipv4.wrap_valid [OF _ seg(1)] assms by blast
  from ipv4_in_frame.delivers [OF this, of macs] obtain packet wire frame where
    "Ipv4Packet_encode (udp_packet s t ttl segment) = Inr packet" "EthernetFrame_encode (ipv4_frame macs packet) = Inr wire"
    "EthernetFrame_decode wire = Inr frame" "Ipv4Packet_decode (ef_payload frame) = Inr (udp_packet s t ttl segment)"
    by blast
  with seg show ?thesis
    by (intro exI [of _ segment] exI [of _ packet] exI [of _ wire] exI [of _ frame] exI [of _ "udp_packet s t ttl segment"])
      (simp add: udp_packet_def)
qed

theorem udp_delivery_witness:
  "\<exists>segment packet wire frame received.
    UdpDatagram_encode_ipv4 1 2 \<lparr>udp_source_port = 68, udp_destination_port = 67, udp_payload = [1, 2, 3]\<rparr> = Inr segment \<and>
    Ipv4Packet_encode (udp_packet 1 2 64 segment) = Inr packet \<and>
    EthernetFrame_encode (ipv4_frame (MacAddress 1 1 1 1 1 1, MacAddress 2 2 2 2 2 2) packet) = Inr wire \<and>
    EthernetFrame_decode wire = Inr frame \<and> Ipv4Packet_decode (ef_payload frame) = Inr received \<and>
    ip_source received = 1 \<and> ip_destination received = 2 \<and>
    UdpDatagram_decode_ipv4 (ip_source received) (ip_destination received) (ip_payload received) =
      Inr \<lparr>udp_source_port = 68, udp_destination_port = 67, udp_payload = [1, 2, 3]\<rparr>"
  by (rule udp_delivery) simp_all

end
